(* ===== verification/Relay_Prelude.thy ===== *)
theory Relay_Prelude
  imports Main "HOL-Library.Word" "HOL-Library.Sublist" "HOL-Library.AList"
    "HOL-Library.Code_Target_Nat"
begin

text \<open>
  Shared vocabulary of the development: the types of bytes and strings, the part of the C++
  standard library the sources call on strings (\<open>std::string::find\<close>, \<open>rfind\<close>, \<open>substr\<close>,
  \<open>std::atoi\<close>, \<open>std::atoll\<close>, decimal output of integers), the exceptions a call can
  leave by, and the generic lemmas about them. A position is a \<open>nat\<close>; \<open>npos\<close> is
  \<^theory_text>\<open>None\<close>. A string is the list of its bytes.
\<close>

type_synonym bytes = "char list"
type_synonym u8 = "8 word"
type_synonym u16 = "16 word"
type_synonym u32 = "32 word"
type_synonym u64 = "64 word"

named_theorems search_simps \<open>evaluation of searches in strings\<close>
named_theorems keeps_inv \<open>preservation of a component's invariant by its operations\<close>
named_theorems frame_simps \<open>what an operation leaves unchanged\<close>

text \<open>
  The ways a call of the sources can fail to return: \<open>std::string(p, n)\<close> with
  \<open>n > max_size()\<close> throws \<open>std::length_error\<close>, which nothing in the program catches;
  \<open>conn_->send\<close> through an empty \<open>shared_ptr\<close> is a null dereference; an iterator or a captured
  \<open>this\<close> that outlives what it points to is a use after free; a product of two \<open>int\<close> that does
  not fit is undefined behaviour; \<open>abort()\<close> ends the process.
\<close>

datatype cpp_error = LengthError | NullDeref | UseAfterFree | SignedOverflow | Aborted

section \<open>Searching in strings\<close>

text \<open>First position at which a pattern occurs: the scan that \<open>std::string::find\<close> does.\<close>

fun find_sub :: "'a list \<Rightarrow> 'a list \<Rightarrow> nat option" where
  "find_sub p [] = (if p = [] then Some 0 else None)"
| "find_sub p (x # xs) =
     (if prefix p (x # xs) then Some 0 else map_option Suc (find_sub p xs))"

definition str_find :: "'a list \<Rightarrow> 'a list \<Rightarrow> nat \<Rightarrow> nat option" where
  "str_find s p pos =
     (if pos \<le> length s then map_option (\<lambda>i. pos + i) (find_sub p (drop pos s)) else None)"

definition find_char :: "'a list \<Rightarrow> 'a \<Rightarrow> nat \<Rightarrow> nat option" where
  "find_char s c pos = str_find s [c] pos"

definition rfind_char :: "'a list \<Rightarrow> 'a \<Rightarrow> nat option" where
  "rfind_char s c =
     (if c \<in> set s then Some (length s - Suc (length (takeWhile (\<lambda>x. x \<noteq> c) (rev s))))
      else None)"

definition substr :: "'a list \<Rightarrow> nat \<Rightarrow> nat \<Rightarrow> 'a list" where
  "substr s pos n = take n (drop pos s)"

abbreviation substr_from :: "'a list \<Rightarrow> nat \<Rightarrow> 'a list" where
  "substr_from s pos \<equiv> drop pos s"

lemma find_sub_Some_prefix:
  "find_sub p s = Some i \<Longrightarrow> i \<le> length s \<and> prefix p (drop i s)"
  by (induction p s arbitrary: i rule: find_sub.induct) (auto split: if_splits)

lemma find_sub_Some_bound:
  "find_sub p s = Some i \<Longrightarrow> i + length p \<le> length s"
  using find_sub_Some_prefix [of p s i] prefix_length_le [of p "drop i s"] by auto

lemma find_sub_least:
  "find_sub p s = Some i \<Longrightarrow> j < i \<Longrightarrow> \<not> prefix p (drop j s)"
proof (induction p s arbitrary: i j rule: find_sub.induct)
  case (2 p x xs)
  then show ?case by (cases j) (auto split: if_splits)
qed (auto split: if_splits)

text \<open>Once found, a pattern stays found at the same place when the text grows.\<close>

lemma prefix_append_mono: "prefix p s \<Longrightarrow> prefix p (s @ t)"
  by (auto simp: prefix_def)

lemma prefix_append_long: "length p \<le> length s \<Longrightarrow> prefix p (s @ t) = prefix p s"
  by (simp add: prefix_def) (auto simp: append_eq_append_conv2)

lemma find_sub_append:
  "find_sub p s = Some i \<Longrightarrow> find_sub p (s @ t) = Some i"
proof (induction p s arbitrary: i rule: find_sub.induct)
  case (1 p)
  then show ?case by (cases t) (auto split: if_splits)
next
  case (2 p x xs)
  show ?case
  proof (cases "prefix p (x # xs)")
    case True
    then have "prefix p ((x # xs) @ t)" by (rule prefix_append_mono)
    with True 2 show ?thesis by simp
  next
    case False
    with 2 obtain k where k: "find_sub p xs = Some k" "i = Suc k" by auto
    from k(1) have "length p \<le> length (x # xs)" using find_sub_Some_bound by fastforce
    with False have "\<not> prefix p (x # xs @ t)"
      using prefix_append_long [of p "x # xs" t] by simp
    with False k 2 show ?thesis by simp
  qed
qed

lemma str_find_bounds:
  "str_find s p pos = Some i \<Longrightarrow> pos \<le> i \<and> i + length p \<le> length s"
  by (auto simp: str_find_def split: if_splits dest!: find_sub_Some_bound)

lemma find_char_bounds: "find_char s c pos = Some i \<Longrightarrow> pos \<le> i \<and> i < length s"
  using str_find_bounds [of s "[c]" pos i] by (simp add: find_char_def)

text \<open>The first occurrence of a character is what \<open>takeWhile\<close> stops at.\<close>

lemma find_sub_single:
  "find_sub [c] s = (if c \<in> set s then Some (length (takeWhile (\<lambda>x. x \<noteq> c) s)) else None)"
  by (induction s) auto

lemma find_sub_single_append [search_simps]:
  "c \<notin> set xs \<Longrightarrow> find_sub [c] (xs @ c # ys) = Some (length xs)"
  by (induction xs) auto

lemma find_char_append [search_simps]:
  "c \<notin> set xs \<Longrightarrow> find_char (xs @ c # ys) c 0 = Some (length xs)"
  by (simp add: find_char_def str_find_def find_sub_single_append)

lemma find_char_append_from [search_simps]:
  "c \<notin> set ys \<Longrightarrow> n = length xs \<Longrightarrow> find_char (xs @ ys @ c # zs) c n = Some (length xs + length ys)"
  by (simp add: find_char_def str_find_def find_sub_single_append)

lemma find_char_None [search_simps]:
  "find_char s c 0 = None \<longleftrightarrow> c \<notin> set s"
  by (simp add: find_char_def str_find_def find_sub_single)

lemma find_char_after:
  "find_char (xs @ c # ys) c (Suc (length xs)) = None \<longleftrightarrow> c \<notin> set ys"
  by (simp add: find_char_def str_find_def find_sub_single)

lemma take_length_append [simp]: "take (length xs) (xs @ ys) = xs"
  by simp

lemma rfind_char_append [search_simps]:
  "c \<notin> set ys \<Longrightarrow> rfind_char (xs @ c # ys) c = Some (length xs)"
  by (simp add: rfind_char_def takeWhile_append)

lemma rfind_char_bound: "rfind_char s c = Some i \<Longrightarrow> i < length s"
  by (auto simp: rfind_char_def split: if_splits) (metis diff_Suc_less length_pos_if_in_set)

lemma find_sub_append_pattern [search_simps]:
  "c \<notin> set xs \<Longrightarrow> find_sub (c # p) (xs @ c # p @ ys) = Some (length xs)"
proof (induction xs)
  case Nil
  then show ?case by (simp add: prefix_def)
next
  case (Cons x xs)
  then have "\<not> prefix (c # p) (x # xs @ c # p @ ys)" by simp
  with Cons show ?case by simp
qed

section \<open>Lines\<close>

abbreviation CR :: char where "CR \<equiv> CHR 0x0D"
abbreviation LF :: char where "LF \<equiv> CHR 0x0A"
abbreviation CRLF :: bytes where "CRLF \<equiv> [CR, LF]"
abbreviation CRLF2 :: bytes where "CRLF2 \<equiv> [CR, LF, CR, LF]"

lemma find_CRLF_line [search_simps]:
  "LF \<notin> set l \<Longrightarrow> find_sub CRLF (l @ CR # LF # r) = Some (length l)"
proof (induction l)
  case (Cons x l)
  then show ?case by (cases l) auto
qed simp

lemma find_CRLF2_line:
  "LF \<notin> set l \<Longrightarrow> find_sub CRLF2 (l @ CR # LF # r) =
    (if prefix CRLF r then Some (length l)
     else map_option (\<lambda>i. length l + 2 + i) (find_sub CRLF2 r))"
proof (induction l)
  case Nil
  then show ?case by (cases "find_sub CRLF2 r") (auto simp: prefix_def)
next
  case (Cons x l)
  have np: "\<not> prefix CRLF2 ((x # l) @ CR # LF # r)"
    using Cons.prems by (cases l) auto
  with Cons show ?case
    by (cases "find_sub CRLF2 r") (auto simp del: find_sub.simps simp: find_sub.simps(2) [of _ x])
qed

section \<open>Integers in strings\<close>

text \<open>\<open>isspace\<close> of the C locale.\<close>

definition c_isspace :: "char \<Rightarrow> bool" where
  "c_isspace c \<longleftrightarrow> c \<in> {CHR 0x20, CHR 0x09, CHR 0x0A, CHR 0x0B, CHR 0x0C, CHR 0x0D}"

definition c_isdigit :: "char \<Rightarrow> bool" where
  "c_isdigit c \<longleftrightarrow> 48 \<le> (of_char c :: nat) \<and> (of_char c :: nat) \<le> 57"

definition digit_value :: "char \<Rightarrow> nat" where
  "digit_value c = of_char c - 48"

fun digits_value :: "nat \<Rightarrow> bytes \<Rightarrow> nat" where
  "digits_value a [] = a"
| "digits_value a (c # cs) =
     (if c_isdigit c then digits_value (10 * a + digit_value c) cs else a)"

text \<open>
  \<open>strtoll(s, nullptr, 10)\<close>: white space, an optional sign, decimal digits, saturating at the
  ends of \<open>long long\<close>. On both platforms the sources support \<open>long\<close> has 64 bits and
  \<open>atoi(s)\<close> is \<open>(int)strtol(s, nullptr, 10)\<close>: the saturated value cut to 32 bits.
\<close>

definition saturate64 :: "int \<Rightarrow> int" where
  "saturate64 v = max (- (2 ^ 63)) (min (2 ^ 63 - 1) v)"

definition atoll :: "bytes \<Rightarrow> int" where
  "atoll s =
     (case dropWhile c_isspace s of
        [] \<Rightarrow> 0
      | c # r \<Rightarrow>
          if c = CHR ''-'' then saturate64 (- int (digits_value 0 r))
          else if c = CHR ''+'' then saturate64 (int (digits_value 0 r))
          else saturate64 (int (digits_value 0 (c # r))))"

definition atoi :: "bytes \<Rightarrow> int" where
  "atoi s = signed_take_bit 31 (atoll s)"

lemma atoll_range: "- (2 ^ 63) \<le> atoll s \<and> atoll s < 2 ^ 63"
  by (auto simp: atoll_def saturate64_def split: list.splits)

lemma atoi_range: "- (2 ^ 31) \<le> atoi s \<and> atoi s < 2 ^ 31"
  unfolding atoi_def
  using signed_take_bit_int_greater_eq_minus_exp [of 31 "atoll s"]
    signed_take_bit_int_less_exp [of 31 "atoll s"] by simp

text \<open>\<open>operator<<\<close>, \<open>std::to_string\<close> and \<open>%d\<close>, \<open>%zu\<close> on an integer.\<close>

definition digit_char :: "nat \<Rightarrow> char" where
  "digit_char d = ''0123456789'' ! d"

fun dec_nat :: "nat \<Rightarrow> bytes" where
  "dec_nat n = (if n < 10 then [digit_char n]
                else dec_nat (n div 10) @ [digit_char (n mod 10)])"

declare dec_nat.simps [simp del]

definition dec_int :: "int \<Rightarrow> bytes" where
  "dec_int i = (if i < 0 then CHR ''-'' # dec_nat (nat (- i)) else dec_nat (nat i))"

lemma digit_char_facts [simp]:
  assumes "d < 10"
  shows "c_isdigit (digit_char d)" "digit_value (digit_char d) = d"
    "\<not> c_isspace (digit_char d)" "digit_char d \<noteq> CHR ''-''" "digit_char d \<noteq> CHR ''+''"
    "digit_char d \<noteq> LF" "digit_char d \<noteq> CHR '' ''"
proof -
  from assms have "d \<in> {0, 1, 2, 3, 4, 5, 6, 7, 8, 9}" by auto
  then show "c_isdigit (digit_char d)" "digit_value (digit_char d) = d"
    "\<not> c_isspace (digit_char d)" "digit_char d \<noteq> CHR ''-''" "digit_char d \<noteq> CHR ''+''"
    "digit_char d \<noteq> LF" "digit_char d \<noteq> CHR '' ''"
    by (auto simp: digit_char_def c_isdigit_def digit_value_def c_isspace_def)
qed

lemma dec_nat_digits: "\<forall>c \<in> set (dec_nat n). \<exists>d < 10. c = digit_char d"
proof (induction n rule: dec_nat.induct)
  case (1 n)
  then show ?case
    by (subst dec_nat.simps) (auto intro: exI [of _ "n mod 10"] exI [of _ n])
qed

lemma dec_nat_safe [simp]: "LF \<notin> set (dec_nat n)" "CHR '' '' \<notin> set (dec_nat n)"
  using dec_nat_digits [of n] digit_char_facts by metis+

lemma dec_nat_Cons: "\<exists>d cs. d < 10 \<and> dec_nat n = digit_char d # cs"
proof (induction n rule: dec_nat.induct)
  case (1 n)
  then show ?case by (cases "n < 10") (auto simp: dec_nat.simps [of n])
qed

lemma dec_nat_neq_Nil [simp]: "dec_nat n \<noteq> []"
  using dec_nat_Cons [of n] by auto

lemma hd_dec_nat [simp]: "hd (dec_nat n) \<noteq> CHR '' ''"
  using dec_nat_Cons [of n] by auto

lemma digits_value_append_digit:
  "(\<forall>c \<in> set xs. c_isdigit c) \<Longrightarrow> c_isdigit c \<Longrightarrow>
    digits_value a (xs @ [c]) = 10 * digits_value a xs + digit_value c"
  by (induction xs arbitrary: a) auto

lemma digits_value_dec_nat: "digits_value 0 (dec_nat n) = n"
proof (induction n rule: dec_nat.induct)
  case (1 n)
  have dig: "\<forall>c \<in> set (dec_nat (n div 10)). c_isdigit c"
    using dec_nat_digits [of "n div 10"] by auto
  show ?case
  proof (cases "n < 10")
    case True
    then show ?thesis by (subst dec_nat.simps) simp
  next
    case False
    with 1 dig show ?thesis by (subst dec_nat.simps) (simp add: digits_value_append_digit)
  qed
qed

lemma atoll_dec_nat: "n < 2 ^ 63 \<Longrightarrow> atoll (dec_nat n) = int n"
proof -
  assume n: "n < 2 ^ 63"
  obtain d cs where d: "d < 10" and eq: "dec_nat n = digit_char d # cs"
    using dec_nat_Cons by blast
  have "digits_value 0 (digit_char d # cs) = n"
    using digits_value_dec_nat [of n] by (simp add: eq)
  moreover have "saturate64 (int n) = int n"
    using n by (simp add: saturate64_def)
  ultimately show ?thesis
    unfolding atoll_def eq using d by (simp del: digits_value.simps)
qed

text \<open>The same in front of other text, as in \<open>interleaved=0-1\<close>.\<close>

lemma digits_value_stops:
  "rest = [] \<or> \<not> c_isdigit (hd rest) \<Longrightarrow> digits_value a (xs @ rest) = digits_value a xs"
  by (induction xs arbitrary: a) (cases rest; auto)+

lemma atoll_dec_nat_before:
  assumes "n < 2 ^ 63" "rest = [] \<or> \<not> c_isdigit (hd rest)"
  shows "atoll (dec_nat n @ rest) = int n"
proof -
  obtain d cs where d: "d < 10" and eq: "dec_nat n = digit_char d # cs"
    using dec_nat_Cons by blast
  have "digits_value 0 (digit_char d # cs @ rest) = n"
    using digits_value_stops [OF assms(2), of 0 "dec_nat n"] digits_value_dec_nat [of n] by (simp add: eq)
  moreover have "saturate64 (int n) = int n"
    using assms(1) by (simp add: saturate64_def)
  ultimately show ?thesis
    unfolding atoll_def eq using d by (simp del: digits_value.simps)
qed

lemma atoi_dec_nat_before:
  "n < 2 ^ 31 \<Longrightarrow> rest = [] \<or> \<not> c_isdigit (hd rest) \<Longrightarrow> atoi (dec_nat n @ rest) = int n"
  by (simp add: atoi_def atoll_dec_nat_before signed_take_bit_int_eq_self)

lemma length_dec_nat: "n < 10 ^ k \<Longrightarrow> 0 < k \<Longrightarrow> length (dec_nat n) \<le> k"
proof (induction k arbitrary: n)
  case (Suc k)
  show ?case
  proof (cases "n < 10")
    case True
    then show ?thesis by (simp add: dec_nat.simps [of n])
  next
    case False
    with Suc.prems have "n div 10 < 10 ^ k" "0 < k" by (auto intro: gr0I)
    with Suc.IH [of "n div 10"] False show ?thesis by (simp add: dec_nat.simps [of n])
  qed
qed simp

lemma atoi_dec_nat: "n < 2 ^ 63 \<Longrightarrow> atoi (dec_nat n) = signed_take_bit 31 (int n)"
  by (simp add: atoi_def atoll_dec_nat)

lemma dec_int_safe [simp]: "LF \<notin> set (dec_int i)" "CHR '' '' \<notin> set (dec_int i)"
  by (simp_all add: dec_int_def)

lemma atoi_dec_int: "- (2 ^ 31) \<le> i \<Longrightarrow> i < 2 ^ 31 \<Longrightarrow> atoi (dec_int i) = i"
proof (cases "i < 0")
  case True
  assume "- (2 ^ 31) \<le> i"
  with True have "atoll (CHR ''-'' # dec_nat (nat (- i))) = i"
    by (simp add: atoll_def c_isspace_def digits_value_dec_nat saturate64_def)
  with True \<open>- (2 ^ 31) \<le> i\<close> show ?thesis
    by (simp add: atoi_def dec_int_def signed_take_bit_int_eq_self)
next
  case False
  assume "i < 2 ^ 31"
  with False show ?thesis
    by (simp add: dec_int_def atoi_dec_nat signed_take_bit_int_eq_self nat_less_iff)
qed

lemma word_of_atoi_dec:
  "(word_of_int (atoi (dec_nat (unat (w :: u32)))) :: u32) = w"
proof -
  have "unat w < 2 ^ 63"
    using unsigned_less [of w, where 'a = nat] by simp
  then have "atoi (dec_nat (unat w)) = signed_take_bit 31 (uint w)"
    by (simp add: atoi_dec_nat)
  moreover have "(word_of_int (signed_take_bit 31 (uint w)) :: u32) = word_of_int (uint w)"
    by (simp only: word_of_int_eq_iff) (simp add: take_bit_signed_take_bit)
  ultimately show ?thesis by simp
qed

section \<open>Memory blocks\<close>

text \<open>\<open>memcpy(buf + pos, xs, length xs)\<close> inside one block.\<close>

definition memcpy_at :: "'a list \<Rightarrow> nat \<Rightarrow> 'a list \<Rightarrow> 'a list" where
  "memcpy_at buf pos xs = take pos buf @ xs @ drop (pos + length xs) buf"

lemma length_memcpy_at [simp]:
  "pos + length xs \<le> length buf \<Longrightarrow> length (memcpy_at buf pos xs) = length buf"
  by (simp add: memcpy_at_def)

lemma nth_memcpy_at:
  "pos + length xs \<le> length buf \<Longrightarrow> j < length buf \<Longrightarrow>
    memcpy_at buf pos xs ! j =
      (if pos \<le> j \<and> j < pos + length xs then xs ! (j - pos) else buf ! j)"
  by (auto simp: memcpy_at_def nth_append)

lemma drop_memcpy_at:
  "rp \<le> pos \<Longrightarrow> pos + length xs \<le> length buf \<Longrightarrow>
    take (pos + length xs - rp) (drop rp (memcpy_at buf pos xs)) =
      take (pos - rp) (drop rp buf) @ xs"
  by (simp add: memcpy_at_def drop_take [symmetric])

end
