(* ===== verification/Byte_Buffer.thy ===== *)
theory Byte_Buffer
  imports Relay_Prelude
begin

text \<open>
  The buffers of \<open>src/src/buffer.h\<close>: \<open>ByteBuffer\<close> with its storage and its two positions,
  one definition per method, and \<open>ThreadSafeBuffer\<close>, which runs each method of a
  \<open>ByteBuffer\<close> under its mutex, hence atomically. The locale \<open>byte_queue\<close> is what the
  connections rely on: a first-in first-out queue of bytes. Sizes are \<open>nat\<close>: they are bounded
  by the storage, which fits in memory; \<open>find\<close> returns an \<open>int\<close>, with the cast written out.
\<close>

section \<open>The contract of a byte queue\<close>

datatype queue_op = Put bytes | Take nat

text \<open>A run of appends and reads; it returns all the bytes read, in order, and the queue.\<close>

fun queue_run ::
  "('q \<Rightarrow> bytes \<Rightarrow> 'q) \<Rightarrow> (nat \<Rightarrow> 'q \<Rightarrow> bytes \<times> 'q) \<Rightarrow> queue_op list \<Rightarrow> 'q \<Rightarrow> bytes \<times> 'q" where
  "queue_run put get [] q = ([], q)"
| "queue_run put get (Put xs # ops) q = queue_run put get ops (put q xs)"
| "queue_run put get (Take n # ops) q =
     (let (ys, q') = get n q; (zs, q'') = queue_run put get ops q' in (ys @ zs, q''))"

text \<open>Every append of the run finds room.\<close>

fun queue_fits ::
  "('q \<Rightarrow> bytes \<Rightarrow> bool) \<Rightarrow> ('q \<Rightarrow> bytes \<Rightarrow> 'q) \<Rightarrow> (nat \<Rightarrow> 'q \<Rightarrow> bytes \<times> 'q) \<Rightarrow>
   queue_op list \<Rightarrow> 'q \<Rightarrow> bool" where
  "queue_fits fits put get [] q = True"
| "queue_fits fits put get (Put xs # ops) q =
     (fits q xs \<and> queue_fits fits put get ops (put q xs))"
| "queue_fits fits put get (Take n # ops) q = queue_fits fits put get ops (snd (get n q))"

definition queue_input :: "queue_op list \<Rightarrow> bytes" where
  "queue_input ops = concat (map (\<lambda>p. case p of Put xs \<Rightarrow> xs | Take n \<Rightarrow> []) ops)"

lemma queue_input_simps [simp]:
  "queue_input [] = []" "queue_input (Put xs # ops) = xs @ queue_input ops"
  "queue_input (Take n # ops) = queue_input ops"
  by (simp_all add: queue_input_def)

locale byte_queue =
  fixes inv :: "'q \<Rightarrow> bool"
    and contents :: "'q \<Rightarrow> bytes"
    and fits :: "'q \<Rightarrow> bytes \<Rightarrow> bool"
    and put :: "'q \<Rightarrow> bytes \<Rightarrow> 'q"
    and get :: "nat \<Rightarrow> 'q \<Rightarrow> bytes \<times> 'q"
  assumes inv_put: "inv q \<Longrightarrow> fits q xs \<Longrightarrow> inv (put q xs)"
    and contents_put: "inv q \<Longrightarrow> fits q xs \<Longrightarrow> contents (put q xs) = contents q @ xs"
    and inv_get: "inv q \<Longrightarrow> inv (snd (get n q))"
    and get_taken: "inv q \<Longrightarrow> fst (get n q) = take n (contents q)"
    and contents_get: "inv q \<Longrightarrow> contents (snd (get n q)) = drop n (contents q)"
begin

lemma get_split: "inv q \<Longrightarrow> fst (get n q) @ contents (snd (get n q)) = contents q"
  by (simp add: get_taken contents_get)

lemma run_inv: "inv q \<Longrightarrow> queue_fits fits put get ops q \<Longrightarrow> inv (snd (queue_run put get ops q))"
proof (induction ops arbitrary: q)
  case (Cons p ops)
  then show ?case
    by (cases p) (auto simp: inv_put inv_get split_beta)
qed simp

lemma run_fifo:
  "inv q \<Longrightarrow> queue_fits fits put get ops q \<Longrightarrow>
    fst (queue_run put get ops q) @ contents (snd (queue_run put get ops q)) =
      contents q @ queue_input ops"
proof (induction ops arbitrary: q)
  case Nil
  then show ?case by simp
next
  case (Cons p ops)
  show ?case
  proof (cases p)
    case (Put xs)
    with Cons show ?thesis by (simp add: inv_put contents_put)
  next
    case (Take n)
    from Cons.prems Take inv_get have
      "fst (queue_run put get ops (snd (get n q))) @
         contents (snd (queue_run put get ops (snd (get n q)))) =
       contents (snd (get n q)) @ queue_input ops"
      by (intro Cons.IH) auto
    with get_split [OF Cons.prems(1), of n, symmetric] Take show ?thesis
      by (simp add: split_beta)
  qed
qed

end

section \<open>ByteBuffer\<close>

record byte_buffer =
  bb_data :: bytes
  bb_read_pos :: nat
  bb_write_pos :: nat

definition byte_buffer_new :: "nat \<Rightarrow> byte_buffer" where
  "byte_buffer_new init_cap =
     \<lparr>bb_data = replicate init_cap (CHR 0x00), bb_read_pos = 0, bb_write_pos = 0\<rparr>"

definition bb_readable :: "byte_buffer \<Rightarrow> nat" where
  "bb_readable b = bb_write_pos b - bb_read_pos b"

definition bb_writable :: "byte_buffer \<Rightarrow> nat" where
  "bb_writable b = length (bb_data b) - bb_write_pos b"

text \<open>The bytes from \<open>readPtr()\<close> to \<open>writePtr()\<close>.\<close>

definition bb_contents :: "byte_buffer \<Rightarrow> bytes" where
  "bb_contents b = take (bb_readable b) (drop (bb_read_pos b) (bb_data b))"

definition bb_compact :: "byte_buffer \<Rightarrow> byte_buffer" where
  "bb_compact b =
     (if bb_read_pos b = 0 then b
      else if bb_read_pos b = bb_write_pos b then b\<lparr>bb_read_pos := 0, bb_write_pos := 0\<rparr>
      else b\<lparr>bb_data := memcpy_at (bb_data b) 0 (bb_contents b),
             bb_read_pos := 0, bb_write_pos := bb_readable b\<rparr>)"

definition bb_skip :: "nat \<Rightarrow> byte_buffer \<Rightarrow> byte_buffer" where
  "bb_skip n b = bb_compact (b\<lparr>bb_read_pos := bb_read_pos b + min n (bb_readable b)\<rparr>)"

definition bb_has_written :: "nat \<Rightarrow> byte_buffer \<Rightarrow> byte_buffer" where
  "bb_has_written n b = b\<lparr>bb_write_pos := bb_write_pos b + min n (bb_writable b)\<rparr>"

text \<open>\<open>std::vector::resize\<close>: cut, or fill with zero bytes.\<close>

definition vec_resize :: "bytes \<Rightarrow> nat \<Rightarrow> bytes" where
  "vec_resize d n = take n d @ replicate (n - length d) (CHR 0x00)"

definition bb_ensure_writable :: "nat \<Rightarrow> byte_buffer \<Rightarrow> byte_buffer" where
  "bb_ensure_writable cap b =
     (if bb_writable b \<ge> cap then b
      else if bb_read_pos b + bb_writable b \<ge> cap then bb_compact b
      else b\<lparr>bb_data := vec_resize (bb_data b) (bb_write_pos b + cap)\<rparr>)"

definition bb_append :: "byte_buffer \<Rightarrow> bytes \<Rightarrow> byte_buffer" where
  "bb_append b xs =
     (let b' = bb_ensure_writable (length xs) b
      in b'\<lparr>bb_data := memcpy_at (bb_data b') (bb_write_pos b') xs,
            bb_write_pos := bb_write_pos b' + length xs\<rparr>)"

definition bb_peek :: "nat \<Rightarrow> byte_buffer \<Rightarrow> bytes" where
  "bb_peek len b = take (min len (bb_readable b)) (drop (bb_read_pos b) (bb_data b))"

definition bb_read :: "nat \<Rightarrow> byte_buffer \<Rightarrow> bytes \<times> byte_buffer" where
  "bb_read len b = (let xs = bb_peek len b in (xs, bb_skip (length xs) b))"

text \<open>
  \<open>find\<close> compares the pattern at every position of the readable bytes and returns the first
  match as an \<open>int\<close> (\<open>static_cast<int>(p - start)\<close> keeps the low 32 bits), or \<open>-1\<close>.
\<close>

definition bytes_find :: "bytes \<Rightarrow> bytes \<Rightarrow> int" where
  "bytes_find bs pat =
     (if length pat = 0 \<or> length pat > length bs then -1
      else (case find_sub pat bs of None \<Rightarrow> -1 | Some i \<Rightarrow> signed_take_bit 31 (int i)))"

definition bb_find :: "byte_buffer \<Rightarrow> bytes \<Rightarrow> int" where
  "bb_find b pat = bytes_find (bb_contents b) pat"

definition bb_find_crlf :: "byte_buffer \<Rightarrow> int" where
  "bb_find_crlf b = bb_find b CRLF"

definition bb_read_line :: "byte_buffer \<Rightarrow> bytes \<times> byte_buffer" where
  "bb_read_line b =
     (let pos = bb_find_crlf b
      in if pos < 0 then ([], b)
         else (take (nat pos) (bb_contents b), bb_skip (nat (pos + 2)) b))"

definition bb_clear :: "byte_buffer \<Rightarrow> byte_buffer" where
  "bb_clear b = b\<lparr>bb_read_pos := 0, bb_write_pos := 0\<rparr>"

text \<open>The invariant of the three fields.\<close>

definition bb_inv :: "byte_buffer \<Rightarrow> bool" where
  "bb_inv b \<longleftrightarrow> bb_read_pos b \<le> bb_write_pos b \<and> bb_write_pos b \<le> length (bb_data b)"

lemma bb_inv_new [keeps_inv]: "bb_inv (byte_buffer_new n)"
  by (simp add: bb_inv_def byte_buffer_new_def)

lemma bb_contents_new [simp]: "bb_contents (byte_buffer_new n) = []"
  by (simp add: bb_contents_def bb_readable_def byte_buffer_new_def)

lemma length_bb_contents: "bb_inv b \<Longrightarrow> length (bb_contents b) = bb_readable b"
  by (simp add: bb_contents_def bb_readable_def bb_inv_def diff_le_mono min_absorb2)

lemma bb_inv_compact [keeps_inv]: "bb_inv b \<Longrightarrow> bb_inv (bb_compact b)"
  by (auto simp: bb_compact_def bb_inv_def bb_readable_def bb_contents_def memcpy_at_def)

lemma bb_contents_compact: "bb_inv b \<Longrightarrow> bb_contents (bb_compact b) = bb_contents b"
  by (auto simp: bb_compact_def bb_inv_def bb_readable_def bb_contents_def memcpy_at_def)

lemma bb_compact_data: "bb_inv b \<Longrightarrow> length (bb_data (bb_compact b)) = length (bb_data b)"
  by (auto simp: bb_compact_def bb_inv_def bb_readable_def bb_contents_def memcpy_at_def)

lemma bb_compact_write_pos: "bb_inv b \<Longrightarrow> bb_write_pos (bb_compact b) = bb_readable b"
  by (auto simp: bb_compact_def bb_inv_def bb_readable_def)

lemma bb_inv_skip [keeps_inv]: "bb_inv b \<Longrightarrow> bb_inv (bb_skip n b)"
  unfolding bb_skip_def
  by (rule bb_inv_compact) (auto simp: bb_inv_def bb_readable_def)

lemma bb_contents_skip: "bb_inv b \<Longrightarrow> bb_contents (bb_skip n b) = drop n (bb_contents b)"
proof -
  assume inv: "bb_inv b"
  let ?b = "b\<lparr>bb_read_pos := bb_read_pos b + min n (bb_readable b)\<rparr>"
  have "bb_inv ?b" using inv by (auto simp: bb_inv_def bb_readable_def)
  then have "bb_contents (bb_skip n b) = bb_contents ?b"
    unfolding bb_skip_def by (rule bb_contents_compact)
  also have "\<dots> = drop n (bb_contents b)"
    using inv by (auto simp: bb_contents_def bb_readable_def bb_inv_def drop_take min_def add.commute)
  finally show ?thesis .
qed

text \<open>
  \<open>ensureWritable\<close>: the readable bytes stay, and the requested room is there afterwards.
\<close>

lemma bb_ensure_writable:
  assumes inv: "bb_inv b"
  shows "bb_inv (bb_ensure_writable cap b)"
    and "bb_contents (bb_ensure_writable cap b) = bb_contents b"
    and "cap \<le> bb_writable (bb_ensure_writable cap b)"
proof -
  have grow: "cap > bb_writable b \<Longrightarrow>
      bb_inv (b\<lparr>bb_data := vec_resize (bb_data b) (bb_write_pos b + cap)\<rparr>) \<and>
      bb_contents (b\<lparr>bb_data := vec_resize (bb_data b) (bb_write_pos b + cap)\<rparr>) = bb_contents b \<and>
      bb_writable (b\<lparr>bb_data := vec_resize (bb_data b) (bb_write_pos b + cap)\<rparr>) = cap"
    using inv
    by (auto simp: bb_inv_def bb_writable_def vec_resize_def bb_contents_def bb_readable_def)
  have compact: "bb_writable (bb_compact b) = bb_read_pos b + bb_writable b"
    using inv bb_compact_data [OF inv] bb_compact_write_pos [OF inv]
    by (simp add: bb_writable_def bb_readable_def bb_inv_def)
  show "bb_inv (bb_ensure_writable cap b)"
    using inv grow by (auto simp: bb_ensure_writable_def bb_inv_compact)
  show "bb_contents (bb_ensure_writable cap b) = bb_contents b"
    using inv grow by (auto simp: bb_ensure_writable_def bb_contents_compact)
  show "cap \<le> bb_writable (bb_ensure_writable cap b)"
    using inv grow compact by (auto simp: bb_ensure_writable_def)
qed

lemma bb_inv_append [keeps_inv]: "bb_inv b \<Longrightarrow> bb_inv (bb_append b xs)"
  using bb_ensure_writable [of b "length xs"]
  by (auto simp: bb_append_def bb_inv_def bb_writable_def Let_def)

lemma bb_contents_append: "bb_inv b \<Longrightarrow> bb_contents (bb_append b xs) = bb_contents b @ xs"
proof -
  assume inv: "bb_inv b"
  define b' where "b' = bb_ensure_writable (length xs) b"
  have b': "bb_inv b'" "bb_contents b' = bb_contents b" "length xs \<le> bb_writable b'"
    using bb_ensure_writable [OF inv] by (simp_all add: b'_def)
  then have "bb_write_pos b' + length xs \<le> length (bb_data b')" "bb_read_pos b' \<le> bb_write_pos b'"
    by (auto simp: bb_inv_def bb_writable_def)
  then have "bb_contents (bb_append b xs) = bb_contents b' @ xs"
    unfolding bb_append_def b'_def [symmetric]
    by (simp add: Let_def bb_contents_def bb_readable_def drop_memcpy_at)
  with b'(2) show ?thesis by simp
qed

lemma bb_peek_contents: "bb_inv b \<Longrightarrow> bb_peek n b = take n (bb_contents b)"
  by (simp add: bb_peek_def bb_contents_def)

lemma bb_readable_0: "bb_inv b \<Longrightarrow> bb_readable b > 0 \<longleftrightarrow> bb_contents b \<noteq> []"
  using length_bb_contents [of b] by (cases "bb_contents b") auto

interpretation bbq: byte_queue bb_inv bb_contents "\<lambda>_ _. True" bb_append bb_read
proof unfold_locales
  fix q :: byte_buffer and xs n
  assume inv: "bb_inv q"
  show "bb_inv (bb_append q xs)" using inv by (rule bb_inv_append)
  show "bb_contents (bb_append q xs) = bb_contents q @ xs" using inv by (rule bb_contents_append)
  show "bb_inv (snd (bb_read n q))" using inv by (simp add: bb_read_def bb_inv_skip Let_def)
  show "fst (bb_read n q) = take n (bb_contents q)"
    using inv by (simp add: bb_read_def bb_peek_contents Let_def)
  show "bb_contents (snd (bb_read n q)) = drop n (bb_contents q)"
    using inv by (simp add: bb_read_def bb_contents_skip bb_peek_contents Let_def min_def)
qed

section \<open>ThreadSafeBuffer\<close>

text \<open>Every method locks the mutex for its whole body, so each is one atomic operation.\<close>

record thread_safe_buffer =
  tsb_buf :: byte_buffer

definition tsb_new :: "nat \<Rightarrow> thread_safe_buffer" where
  "tsb_new init_cap = \<lparr>tsb_buf = byte_buffer_new init_cap\<rparr>"

definition tsb_append :: "thread_safe_buffer \<Rightarrow> bytes \<Rightarrow> thread_safe_buffer" where
  "tsb_append t xs = t\<lparr>tsb_buf := bb_append (tsb_buf t) xs\<rparr>"

definition tsb_read :: "nat \<Rightarrow> thread_safe_buffer \<Rightarrow> bytes \<times> thread_safe_buffer" where
  "tsb_read n t = (let (xs, b) = bb_read n (tsb_buf t) in (xs, t\<lparr>tsb_buf := b\<rparr>))"

definition tsb_readable :: "thread_safe_buffer \<Rightarrow> nat" where
  "tsb_readable t = bb_readable (tsb_buf t)"

definition tsb_clear :: "thread_safe_buffer \<Rightarrow> thread_safe_buffer" where
  "tsb_clear t = t\<lparr>tsb_buf := bb_clear (tsb_buf t)\<rparr>"

definition tsb_with_buffer ::
  "(byte_buffer \<Rightarrow> 'a \<times> byte_buffer) \<Rightarrow> thread_safe_buffer \<Rightarrow> 'a \<times> thread_safe_buffer" where
  "tsb_with_buffer fn t = (let (r, b) = fn (tsb_buf t) in (r, t\<lparr>tsb_buf := b\<rparr>))"

interpretation tsbq: byte_queue "\<lambda>t. bb_inv (tsb_buf t)" "\<lambda>t. bb_contents (tsb_buf t)"
  "\<lambda>_ _. True" tsb_append tsb_read
  by unfold_locales
    (auto simp: tsb_append_def tsb_read_def split_beta bbq.inv_put bbq.contents_put
      bbq.inv_get bbq.get_taken bbq.contents_get)



end
