(* ===== verification/Ring_Buffer.thy ===== *)
theory Ring_Buffer
  imports Byte_Buffer
begin

text \<open>
  \<open>RingBuffer\<close> of \<open>src/src/buffer.h\<close>: one writer, readers that keep their own offset. The
  bytes a reader at an offset has before it are \<open>rb_pending\<close>. While a write leaves less than
  a full ring unread the reader is a first-in first-out queue (the locale \<open>byte_queue\<close>);
  a write that laps the reader is not detected.
\<close>

record ring_buffer =
  rb_buffer :: bytes
  rb_capacity :: nat
  rb_write_offset :: nat

definition ring_buffer_new :: "nat \<Rightarrow> ring_buffer" where
  "ring_buffer_new capacity =
     \<lparr>rb_buffer = replicate capacity (CHR 0x00), rb_capacity = capacity, rb_write_offset = 0\<rparr>"

definition rb_write :: "ring_buffer \<Rightarrow> bytes \<Rightarrow> bool \<times> ring_buffer" where
  "rb_write r data =
     (let len = length data; cap = rb_capacity r; woff = rb_write_offset r in
      if len \<ge> cap then (False, r)
      else
        let new_offset = woff + len in
        if new_offset > cap then
          let tail = cap - woff;
              buf1 = memcpy_at (rb_buffer r) woff (take tail data);
              buf2 = memcpy_at buf1 0 (drop tail data)
          in (True, r\<lparr>rb_buffer := buf2, rb_write_offset := (len - tail) mod cap\<rparr>)
        else
          (True, r\<lparr>rb_buffer := memcpy_at (rb_buffer r) woff data,
                   rb_write_offset := (if new_offset = cap then 0 else new_offset)\<rparr>))"

definition rb_available :: "ring_buffer \<Rightarrow> nat \<Rightarrow> nat" where
  "rb_available r offset =
     (if rb_write_offset r \<ge> offset then rb_write_offset r - offset
      else (rb_capacity r - offset) + rb_write_offset r)"

text \<open>\<open>read(offset, buf, len)\<close>: the bytes copied to \<open>buf\<close> and the new offset.\<close>

definition rb_read :: "ring_buffer \<Rightarrow> nat \<Rightarrow> nat \<Rightarrow> bytes \<times> nat" where
  "rb_read r offset len =
     (let n = min len (rb_available r offset); cap = rb_capacity r in
      if n = 0 then ([], offset)
      else if offset + n \<le> cap then
        (take n (drop offset (rb_buffer r)), if offset + n = cap then 0 else offset + n)
      else
        let tail = cap - offset
        in (take tail (drop offset (rb_buffer r)) @ take (n - tail) (rb_buffer r), n - tail))"

definition rb_inv :: "ring_buffer \<Rightarrow> bool" where
  "rb_inv r \<longleftrightarrow> length (rb_buffer r) = rb_capacity r \<and> rb_write_offset r < rb_capacity r"

text \<open>The byte \<open>i\<close> places after an offset, and the bytes before the reader.\<close>

definition rb_index :: "ring_buffer \<Rightarrow> nat \<Rightarrow> nat \<Rightarrow> nat" where
  "rb_index r offset i =
     (if offset + i < rb_capacity r then offset + i else offset + i - rb_capacity r)"

definition rb_pending :: "ring_buffer \<Rightarrow> nat \<Rightarrow> bytes" where
  "rb_pending r offset = map (\<lambda>i. rb_buffer r ! rb_index r offset i) [0..<rb_available r offset]"

lemma length_rb_pending [simp]: "length (rb_pending r offset) = rb_available r offset"
  by (simp add: rb_pending_def)

lemma rb_inv_new: "0 < n \<Longrightarrow> rb_inv (ring_buffer_new n)"
  by (simp add: rb_inv_def ring_buffer_new_def)

lemma rb_write_rejects: "rb_capacity r \<le> length d \<Longrightarrow> rb_write r d = (False, r)"
  by (simp add: rb_write_def Let_def)

lemma rb_write_fields:
  assumes "rb_inv r" "length d < rb_capacity r"
  shows "fst (rb_write r d)"
    and "rb_capacity (snd (rb_write r d)) = rb_capacity r"
    and "length (rb_buffer (snd (rb_write r d))) = rb_capacity r"
    and "rb_write_offset (snd (rb_write r d)) = rb_index r (rb_write_offset r) (length d)"
  using assms by (auto simp: rb_write_def rb_inv_def rb_index_def Let_def)

lemma rb_inv_write [keeps_inv]: "rb_inv r \<Longrightarrow> rb_inv (snd (rb_write r d))"
proof (cases "length d < rb_capacity r")
  case True
  then show "rb_inv r \<Longrightarrow> ?thesis"
    using rb_write_fields [of r d] by (auto simp: rb_inv_def rb_index_def)
qed (simp add: rb_write_rejects)

text \<open>Where each byte of the storage comes from after a write.\<close>

lemma rb_write_nth_new:
  assumes "rb_inv r" "length d < rb_capacity r" "k < length d"
  shows "rb_buffer (snd (rb_write r d)) ! rb_index r (rb_write_offset r) k = d ! k"
  using assms
  by (auto simp: rb_write_def rb_inv_def rb_index_def Let_def nth_memcpy_at)

lemma rb_write_nth_old:
  assumes "rb_inv r" "length d < rb_capacity r" "length d \<le> k" "k < rb_capacity r"
  shows "rb_buffer (snd (rb_write r d)) ! rb_index r (rb_write_offset r) k =
    rb_buffer r ! rb_index r (rb_write_offset r) k"
  using assms
  by (auto simp: rb_write_def rb_inv_def rb_index_def Let_def nth_memcpy_at)

lemma rb_available_write:
  assumes "rb_inv r" "offset < rb_capacity r" "length d < rb_capacity r"
  shows "rb_available (snd (rb_write r d)) offset =
    (if rb_available r offset + length d < rb_capacity r then rb_available r offset + length d
     else rb_available r offset + length d - rb_capacity r)"
  using assms rb_write_fields [of r d]
  by (auto simp: rb_available_def rb_inv_def rb_index_def)

lemma rb_pending_write:
  assumes inv: "rb_inv r" "offset < rb_capacity r"
    and room: "rb_available r offset + length d < rb_capacity r"
  shows "rb_pending (snd (rb_write r d)) offset = rb_pending r offset @ d"
proof (rule nth_equalityI)
  let ?r' = "snd (rb_write r d)" and ?a = "rb_available r offset"
  have d: "length d < rb_capacity r" using room by simp
  have av: "rb_available ?r' offset = ?a + length d"
    using rb_available_write [OF inv d] room by simp
  then show "length (rb_pending ?r' offset) = length (rb_pending r offset @ d)" by simp
  fix i
  assume "i < length (rb_pending ?r' offset)"
  with av have i: "i < ?a + length d" by simp
  have cap: "rb_capacity ?r' = rb_capacity r" by (rule rb_write_fields [OF inv(1) d])
  have lhs: "rb_pending ?r' offset ! i = rb_buffer ?r' ! rb_index r offset i"
    using i av by (simp add: rb_pending_def rb_index_def cap)
  show "rb_pending ?r' offset ! i = (rb_pending r offset @ d) ! i"
  proof (cases "i < ?a")
    case True
    define k where "k = rb_capacity r - ?a + i"
    have "rb_index r offset i = rb_index r (rb_write_offset r) k"
      using True inv by (auto simp: rb_index_def rb_available_def k_def rb_inv_def split: if_splits)
    moreover have "length d \<le> k" "k < rb_capacity r"
      using True room by (auto simp: k_def)
    ultimately show ?thesis
      using True lhs rb_write_nth_old [OF inv(1) d, of k]
      by (simp add: nth_append rb_pending_def)
  next
    case False
    have "rb_index r offset i = rb_index r (rb_write_offset r) (i - ?a)"
      using False inv i room
      by (auto simp: rb_index_def rb_available_def rb_inv_def split: if_splits)
    then show ?thesis
      using False i lhs rb_write_nth_new [OF inv(1) d, of "i - ?a"] by (simp add: nth_append)
  qed
qed

lemma rb_read_pending:
  assumes inv: "rb_inv r" "offset < rb_capacity r"
  shows "fst (rb_read r offset n) = take n (rb_pending r offset)"
    and "rb_pending r (snd (rb_read r offset n)) = drop n (rb_pending r offset)"
    and "snd (rb_read r offset n) < rb_capacity r"
proof -
  define m where "m = min n (rb_available r offset)"
  have len: "length (rb_buffer r) = rb_capacity r" "rb_write_offset r < rb_capacity r"
    using inv by (simp_all add: rb_inv_def)
  have bytes: "fst (rb_read r offset n) = map (\<lambda>i. rb_buffer r ! rb_index r offset i) [0..<m]"
    unfolding rb_read_def m_def [symmetric] using inv len
    by (auto simp: Let_def rb_index_def nth_append m_def rb_available_def add.commute
        intro!: nth_equalityI split: if_splits)
  have off: "snd (rb_read r offset n) = rb_index r offset m" "m \<le> rb_available r offset"
    "rb_index r offset m < rb_capacity r"
    using inv len by (auto simp: rb_read_def Let_def rb_index_def m_def rb_available_def add.commute)
  have av: "rb_available r (rb_index r offset m) = rb_available r offset - m"
    using inv len off(2) by (auto simp: rb_available_def rb_index_def split: if_splits)
  have idx: "i < rb_available r offset - m \<Longrightarrow>
      rb_index r (rb_index r offset m) i = rb_index r offset (m + i)" for i
    using inv len by (auto simp: rb_available_def rb_index_def split: if_splits)
  show "fst (rb_read r offset n) = take n (rb_pending r offset)"
    unfolding bytes by (rule nth_equalityI) (auto simp: rb_pending_def m_def)
  have "rb_pending r (rb_index r offset m) = drop m (rb_pending r offset)"
    using off(2) by (intro nth_equalityI) (simp_all add: av rb_pending_def idx nth_append less_diff_conv add.commute)
  then show "rb_pending r (snd (rb_read r offset n)) = drop n (rb_pending r offset)"
    by (simp add: off(1) m_def min_def)
  show "snd (rb_read r offset n) < rb_capacity r" using off by simp
qed

text \<open>The ring seen by one reader: the pair of the ring and the reader's offset.\<close>

definition ring_put :: "ring_buffer \<times> nat \<Rightarrow> bytes \<Rightarrow> ring_buffer \<times> nat" where
  "ring_put q xs = (snd (rb_write (fst q) xs), snd q)"

definition ring_get :: "nat \<Rightarrow> ring_buffer \<times> nat \<Rightarrow> bytes \<times> (ring_buffer \<times> nat)" where
  "ring_get n q =
     (let (ys, offset) = rb_read (fst q) (snd q) n in (ys, (fst q, offset)))"

definition ring_fits :: "ring_buffer \<times> nat \<Rightarrow> bytes \<Rightarrow> bool" where
  "ring_fits q xs \<longleftrightarrow> rb_available (fst q) (snd q) + length xs < rb_capacity (fst q)"

definition ring_reader_inv :: "ring_buffer \<times> nat \<Rightarrow> bool" where
  "ring_reader_inv q \<longleftrightarrow> rb_inv (fst q) \<and> snd q < rb_capacity (fst q)"

interpretation ringq: byte_queue ring_reader_inv "\<lambda>q. rb_pending (fst q) (snd q)"
  ring_fits ring_put ring_get
  by unfold_locales
    (auto simp: ring_reader_inv_def ring_put_def ring_get_def ring_fits_def split_beta
      rb_inv_write rb_write_fields rb_pending_write rb_read_pending)

text \<open>
  C35. A reader of the \<open>RingBuffer\<close> that is never lapped gets every byte once and in order:
  over any run of writes and reads in which each write leaves less than a full ring unread,
  the bytes read followed by the bytes still pending are the bytes pending at the start
  followed by the bytes written.
\<close>

theorem ring_buffer_fifo:
  assumes "rb_inv r" and "offset < rb_capacity r"
    and "queue_fits ring_fits ring_put ring_get ops (r, offset)"
  shows "fst (queue_run ring_put ring_get ops (r, offset)) @
      (let (r', offset') = snd (queue_run ring_put ring_get ops (r, offset))
       in rb_pending r' offset') = rb_pending r offset @ queue_input ops"
  using ringq.run_fifo [of "(r, offset)" ops] assms by (simp add: ring_reader_inv_def split_beta)

theorem ring_buffer_fifo_witness:
  "let ops = [Put ''abc'', Take 2, Put ''de'', Take 1, Put ''f'', Take 2];
       q = (ring_buffer_new 4, 0) in
   queue_fits ring_fits ring_put ring_get ops q \<and>
   fst (queue_run ring_put ring_get ops q) @
      (let (r', offset') = snd (queue_run ring_put ring_get ops q) in rb_pending r' offset')
     = ''abcdef''"
proof -
  let ?ops = "[Put ''abc'', Take 2, Put ''de'', Take 1, Put ''f'', Take 2]"
  have fits: "queue_fits ring_fits ring_put ring_get ?ops (ring_buffer_new 4, 0)"
    by code_simp
  moreover have "rb_pending (ring_buffer_new 4) 0 = []" by code_simp
  ultimately show ?thesis
    using ring_buffer_fifo [OF rb_inv_new _ fits] by (simp add: ring_buffer_new_def)
qed

text \<open>
  A write that laps a reader succeeds silently: it returns \<open>true\<close>, and the reader's
  pending count drops by a whole ring, so at least \<open>capacity\<close> written bytes are lost to it,
  and it is not told, because \<open>read\<close> returns the bytes of the next turn instead of the
  documented 0.
\<close>

theorem ring_buffer_overrun:
  assumes "rb_inv r" and "offset < rb_capacity r" and "length d < rb_capacity r"
    and "rb_available r offset + length d \<ge> rb_capacity r"
  shows "fst (rb_write r d) \<and>
    length (rb_pending (snd (rb_write r d)) offset) =
      length (rb_pending r offset) + length d - rb_capacity r \<and>
    fst (rb_read (snd (rb_write r d)) offset n) =
      take n (rb_pending (snd (rb_write r d)) offset)"
  using assms rb_write_fields [of r d] rb_available_write [of r offset d]
    rb_read_pending(1) [of "snd (rb_write r d)" offset n] rb_inv_write [of r d]
  by simp

theorem ring_buffer_overrun_witness:
  "fst (rb_read (snd (rb_write (snd (rb_write (ring_buffer_new 4) ''abc'')) ''XYZ'')) 0 8) = ''YZ''"
proof -
  let ?r = "snd (rb_write (ring_buffer_new 4) ''abc'')"
  have "rb_inv ?r" by (intro keeps_inv rb_inv_new) simp
  moreover have "0 < rb_capacity ?r" "length ''XYZ'' < rb_capacity ?r"
    "rb_available ?r 0 + length ''XYZ'' \<ge> rb_capacity ?r" by code_simp+
  ultimately have "fst (rb_read (snd (rb_write ?r ''XYZ'')) 0 8) =
      take 8 (rb_pending (snd (rb_write ?r ''XYZ'')) 0)"
    using ring_buffer_overrun by blast
  moreover have "take 8 (rb_pending (snd (rb_write ?r ''XYZ'')) 0) = ''YZ''" by code_simp
  ultimately show ?thesis by simp
qed

end
