(* ===== verification/Message_Framing.thy ===== *)
theory Message_Framing
  imports Byte_Buffer
begin

text \<open>
  The loop that \<open>RtspSession::handleRtspMessage\<close>, \<open>RtspSource::handleMessage\<close> and
  \<open>HttpServer::onMessage\<close> share: while there are readable bytes, take one frame from the
  front of the connection's input buffer, skip it and act on it; stop when the bytes at the
  front are not a complete frame yet. It is a \<open>partial_function\<close>, because it is a
  \<open>while\<close> loop that ends only if each frame consumes bytes: the locale \<open>framer\<close> states
  what the loop needs of the frame scanner, and proves from it that the loop returns, that
  the layout of the buffer does not matter, and that the way TCP cuts the stream into
  chunks does not matter either.
\<close>

text \<open>One look at the front of the input: not enough bytes, a frame and its size, or a throw.\<close>

datatype 'i scan = Wait | Item 'i nat | Fail cpp_error

partial_function (option) message_loop ::
  "(bytes \<Rightarrow> 'i scan) \<Rightarrow> ('i \<Rightarrow> 's \<Rightarrow> cpp_error + 's) \<Rightarrow> byte_buffer \<Rightarrow> 's \<Rightarrow>
   (cpp_error + byte_buffer \<times> 's) option" where
  "message_loop nxt act b s =
     (if bb_readable b > 0
      then (case nxt (bb_contents b) of
              Wait \<Rightarrow> Some (Inr (b, s))
            | Fail e \<Rightarrow> Some (Inl e)
            | Item x n \<Rightarrow>
                (case act x s of
                   Inl e \<Rightarrow> Some (Inl e)
                 | Inr s' \<Rightarrow> message_loop nxt act (bb_skip n b) s'))
      else Some (Inr (b, s)))"

text \<open>The same loop on the plain list of readable bytes: the abstract specification.\<close>

partial_function (option) drain ::
  "(bytes \<Rightarrow> 'i scan) \<Rightarrow> ('i \<Rightarrow> 's \<Rightarrow> cpp_error + 's) \<Rightarrow> bytes \<Rightarrow> 's \<Rightarrow>
   (cpp_error + bytes \<times> 's) option" where
  "drain nxt act bs s =
     (if bs \<noteq> []
      then (case nxt bs of
              Wait \<Rightarrow> Some (Inr (bs, s))
            | Fail e \<Rightarrow> Some (Inl e)
            | Item x n \<Rightarrow>
                (case act x s of
                   Inl e \<Rightarrow> Some (Inl e)
                 | Inr s' \<Rightarrow> drain nxt act (drop n bs) s'))
      else Some (Inr (bs, s)))"

text \<open>
  What \<open>TcpConnection::handleRead\<close> does with the successive results of \<open>read\<close>: each chunk
  is appended to the input buffer and the message callback runs on it.
\<close>

fun feed_chunks ::
  "(bytes \<Rightarrow> 'i scan) \<Rightarrow> ('i \<Rightarrow> 's \<Rightarrow> cpp_error + 's) \<Rightarrow> bytes list \<Rightarrow> byte_buffer \<Rightarrow> 's \<Rightarrow>
   (cpp_error + byte_buffer \<times> 's) option" where
  "feed_chunks nxt act [] b s = Some (Inr (b, s))"
| "feed_chunks nxt act (c # cs) b s =
     (case message_loop nxt act (bb_append b c) s of
        None \<Rightarrow> None
      | Some (Inl e) \<Rightarrow> Some (Inl e)
      | Some (Inr (b', s')) \<Rightarrow> feed_chunks nxt act cs b' s')"

text \<open>What the loops do, seen as a run over the list of frames.\<close>

fun act_all :: "('i \<Rightarrow> 's \<Rightarrow> cpp_error + 's) \<Rightarrow> 'i list \<Rightarrow> 's \<Rightarrow> cpp_error + 's" where
  "act_all act [] s = Inr s"
| "act_all act (x # xs) s = (case act x s of Inl e \<Rightarrow> Inl e | Inr s' \<Rightarrow> act_all act xs s')"

lemma act_all_collect: "act_all (\<lambda>x acc. Inr (acc @ [x])) xs acc = Inr (acc @ xs)"
  by (induction xs arbitrary: acc) simp_all

definition forget_layout :: "cpp_error + byte_buffer \<times> 's \<Rightarrow> cpp_error + bytes \<times> 's" where
  "forget_layout r = (case r of Inl e \<Rightarrow> Inl e | Inr (b, s) \<Rightarrow> Inr (bb_contents b, s))"

lemma forget_layout_simps [simp]:
  "forget_layout (Inl e) = Inl e" "forget_layout (Inr (b, s)) = Inr (bb_contents b, s)"
  by (simp_all add: forget_layout_def)

lemma forget_layout_Inl [simp]: "forget_layout r = Inl e \<longleftrightarrow> r = Inl e"
  by (auto simp: forget_layout_def split: sum.splits)

text \<open>
  The reference: the frames of a whole stream, with the bytes left over or the error at the end,
  and the actions done on them afterwards. A frame of no bytes would repeat forever; the loop
  never sees one.
\<close>

function cut_stream :: "(bytes \<Rightarrow> 'i scan) \<Rightarrow> bytes \<Rightarrow> 'i list \<times> (cpp_error + bytes)" where
  "cut_stream nxt bs =
     (if bs = [] then ([], Inr [])
      else case nxt bs of
             Wait \<Rightarrow> ([], Inr bs)
           | Fail e \<Rightarrow> ([], Inl e)
           | Item x n \<Rightarrow>
               if n = 0 then ([], Inr bs)
               else case cut_stream nxt (drop n bs) of (xs, r) \<Rightarrow> (x # xs, r))"
  by pat_completeness auto
termination
  by (relation "measure (\<lambda>(nxt, bs). length bs)") auto

declare cut_stream.simps [simp del]

definition act_on_cut ::
  "('i \<Rightarrow> 's \<Rightarrow> cpp_error + 's) \<Rightarrow> 'i list \<times> (cpp_error + bytes) \<Rightarrow> 's \<Rightarrow> cpp_error + bytes \<times> 's" where
  "act_on_cut act c s =
     (case act_all act (fst c) s of
        Inl e \<Rightarrow> Inl e
      | Inr s' \<Rightarrow> (case snd c of Inl e \<Rightarrow> Inl e | Inr r \<Rightarrow> Inr (r, s')))"

text \<open>
  A loop that started on the buffer \<open>b\<close> has returned: with an error, or with a well-formed buffer
  that holds the end of the input and no complete frame.
\<close>

definition returned_idle ::
  "(bytes \<Rightarrow> 'i scan) \<Rightarrow> byte_buffer \<Rightarrow> (cpp_error + byte_buffer \<times> 's) option \<Rightarrow> bool" where
  "returned_idle nxt b out =
     (case out of
        None \<Rightarrow> False
      | Some (Inl e) \<Rightarrow> True
      | Some (Inr (b', s')) \<Rightarrow>
          bb_inv b' \<and> suffix (bb_contents b') (bb_contents b) \<and>
          (bb_contents b' = [] \<or> nxt (bb_contents b') = Wait))"

text \<open>One unfolding of each loop, by what the scanner sees.\<close>

lemma drain_simps [simp]:
  "drain nxt act [] s = Some (Inr ([], s))"
  "bs \<noteq> [] \<Longrightarrow> nxt bs = Wait \<Longrightarrow> drain nxt act bs s = Some (Inr (bs, s))"
  "bs \<noteq> [] \<Longrightarrow> nxt bs = Fail e \<Longrightarrow> drain nxt act bs s = Some (Inl e)"
  "bs \<noteq> [] \<Longrightarrow> nxt bs = Item x n \<Longrightarrow> act x s = Inl e \<Longrightarrow> drain nxt act bs s = Some (Inl e)"
  "bs \<noteq> [] \<Longrightarrow> nxt bs = Item x n \<Longrightarrow> act x s = Inr s' \<Longrightarrow>
    drain nxt act bs s = drain nxt act (drop n bs) s'"
  by (simp_all add: drain.simps [of _ _ "[]"] drain.simps [of _ _ bs])

lemma message_loop_simps [simp]:
  "bb_readable b = 0 \<Longrightarrow> message_loop nxt act b s = Some (Inr (b, s))"
  "bb_readable b > 0 \<Longrightarrow> nxt (bb_contents b) = Wait \<Longrightarrow> message_loop nxt act b s = Some (Inr (b, s))"
  "bb_readable b > 0 \<Longrightarrow> nxt (bb_contents b) = Fail e \<Longrightarrow> message_loop nxt act b s = Some (Inl e)"
  "bb_readable b > 0 \<Longrightarrow> nxt (bb_contents b) = Item x n \<Longrightarrow> act x s = Inl e \<Longrightarrow>
    message_loop nxt act b s = Some (Inl e)"
  "bb_readable b > 0 \<Longrightarrow> nxt (bb_contents b) = Item x n \<Longrightarrow> act x s = Inr s' \<Longrightarrow>
    message_loop nxt act b s = message_loop nxt act (bb_skip n b) s'"
  by (simp_all add: message_loop.simps [of _ _ b])

lemma scan_cases [case_names Empty Wait Fail Stop Step]:
  assumes "bs = [] \<Longrightarrow> P"
    and "bs \<noteq> [] \<Longrightarrow> nxt bs = Wait \<Longrightarrow> P"
    and "\<And>e. bs \<noteq> [] \<Longrightarrow> nxt bs = Fail e \<Longrightarrow> P"
    and "\<And>x n e. bs \<noteq> [] \<Longrightarrow> nxt bs = Item x n \<Longrightarrow> act x s = Inl e \<Longrightarrow> P"
    and "\<And>x n s'. bs \<noteq> [] \<Longrightarrow> nxt bs = Item x n \<Longrightarrow> act x s = Inr s' \<Longrightarrow> P"
  shows P
  using assms by (cases "nxt bs"; cases "bs = []") (auto, metis sum.exhaust)

locale framer =
  fixes nxt :: "bytes \<Rightarrow> 'i scan"
    and lim :: nat
  assumes item_bounds: "nxt bs = Item x n \<Longrightarrow> 0 < n \<and> n \<le> length bs"
    and item_stable: "nxt bs = Item x n \<Longrightarrow> length (bs @ cs) < lim \<Longrightarrow> nxt (bs @ cs) = Item x n"
    and fail_stable: "bs \<noteq> [] \<Longrightarrow> nxt bs = Fail e \<Longrightarrow> length (bs @ cs) < lim \<Longrightarrow> nxt (bs @ cs) = Fail e"
begin

lemma drain_total: "\<exists>r. drain nxt act bs s = Some r"
proof (induction bs arbitrary: s rule: length_induct)
  case (1 bs)
  show ?case
  proof (cases rule: scan_cases [of bs _ nxt act s])
    case (Step x n s')
    then have "length (drop n bs) < length bs" using item_bounds [OF Step(2)] by simp
    with "1.IH" Step show ?thesis by simp
  qed simp_all
qed

lemma loop_refines:
  "bb_inv b \<Longrightarrow>
    map_option forget_layout (message_loop nxt act b s) = drain nxt act (bb_contents b) s \<and>
    (\<forall>b' s'. message_loop nxt act b s = Some (Inr (b', s')) \<longrightarrow> bb_inv b')"
proof (induction "bb_contents b" arbitrary: b s rule: length_induct)
  case 1
  let ?bs = "bb_contents b"
  have ne: "bb_readable b = 0 \<longleftrightarrow> ?bs = []" "bb_readable b > 0 \<longleftrightarrow> ?bs \<noteq> []"
    using bb_readable_0 [OF "1.prems"] by auto
  show ?case
  proof (cases rule: scan_cases [of ?bs _ nxt act s])
    case (Step x n s')
    have inv: "bb_inv (bb_skip n b)" using "1.prems" by (rule bb_inv_skip)
    have skip: "bb_contents (bb_skip n b) = drop n ?bs" using "1.prems" by (rule bb_contents_skip)
    have "length (drop n ?bs) < length ?bs" using Step(1) item_bounds [OF Step(2)] by simp
    with "1.hyps" inv skip have
      "map_option forget_layout (message_loop nxt act (bb_skip n b) s') = drain nxt act (drop n ?bs) s' \<and>
       (\<forall>b' s''. message_loop nxt act (bb_skip n b) s' = Some (Inr (b', s'')) \<longrightarrow> bb_inv b')"
      by metis
    with Step ne show ?thesis by simp
  qed (use ne "1.prems" in simp_all)
qed

lemma loop_total: "bb_inv b \<Longrightarrow> \<exists>r. message_loop nxt act b s = Some r"
  using loop_refines [of b act s] drain_total [of act "bb_contents b" s] by auto

text \<open>Bytes that arrive later do not change what is done with the bytes already there.\<close>

lemma drain_append:
  "length (bs @ cs) < lim \<Longrightarrow>
    drain nxt act (bs @ cs) s =
      (case drain nxt act bs s of
         None \<Rightarrow> None
       | Some (Inl e) \<Rightarrow> Some (Inl e)
       | Some (Inr (r, s')) \<Rightarrow> drain nxt act (r @ cs) s')"
proof (induction bs arbitrary: s rule: length_induct)
  case (1 bs)
  show ?case
  proof (cases rule: scan_cases [of bs _ nxt act s])
    case (Fail e)
    with fail_stable [OF Fail "1.prems"] show ?thesis by simp
  next
    case (Stop x n e)
    with item_stable [OF Stop(2) "1.prems"] show ?thesis by simp
  next
    case (Step x n s1)
    note b = item_bounds [OF Step(2)] item_stable [OF Step(2) "1.prems"]
    have "length (drop n bs) < length bs" "length (drop n bs @ cs) < lim"
      using b "1.prems" by auto
    with "1.IH" b Step show ?thesis by simp
  qed simp_all
qed

lemma drain_shrinks: "drain nxt act bs s = Some (Inr (r, s')) \<Longrightarrow> length r \<le> length bs"
proof (induction bs arbitrary: s rule: length_induct)
  case (1 bs)
  show ?case
  proof (cases rule: scan_cases [of bs _ nxt act s])
    case (Step x n s1)
    then have "length (drop n bs) < length bs" using item_bounds [OF Step(2)] by simp
    moreover have "drain nxt act (drop n bs) s1 = Some (Inr (r, s'))" using "1.prems" Step by simp
    ultimately show ?thesis using "1.IH" by fastforce
  qed (use "1.prems" in simp_all)
qed

text \<open>However the stream is cut into chunks, the outcome is that of the whole stream at once.\<close>

lemma feed_chunks_drain:
  assumes "bb_inv b" "chunks \<noteq> []" "length (bb_contents b @ concat chunks) < lim"
  shows "map_option forget_layout (feed_chunks nxt act chunks b s) =
    drain nxt act (bb_contents b @ concat chunks) s"
  using assms
proof (induction chunks arbitrary: b s)
  case Nil
  then show ?case by simp
next
  case (Cons c cs)
  have inv: "bb_inv (bb_append b c)" using Cons.prems(1) by (rule bb_inv_append)
  have cont: "bb_contents (bb_append b c) = bb_contents b @ c"
    using Cons.prems(1) by (rule bb_contents_append)
  obtain r where r: "message_loop nxt act (bb_append b c) s = Some r"
    using loop_total [OF inv, of act s] by blast
  have d: "drain nxt act (bb_contents b @ c) s = Some (forget_layout r)"
    using loop_refines [OF inv, of act s] by (simp add: r cont)
  have len: "length ((bb_contents b @ c) @ concat cs) < lim" using Cons.prems(3) by simp
  note whole = drain_append [OF len, of act s]
  show ?case
  proof (cases r)
    case (Inl e)
    with r d whole show ?thesis by simp
  next
    case (Inr p)
    obtain b' s' where p: "p = (b', s')" by (cases p)
    have inv': "bb_inv b'" using loop_refines [OF inv, of act s] r Inr p by blast
    have "length (bb_contents b') \<le> length (bb_contents b @ c)"
      using d Inr p by (intro drain_shrinks [of act _ s _ s']) simp
    with len have "length (bb_contents b' @ concat cs) < lim" by simp
    with Cons.IH [OF inv'] have
      "cs \<noteq> [] \<Longrightarrow> map_option forget_layout (feed_chunks nxt act cs b' s') =
        drain nxt act (bb_contents b' @ concat cs) s'" by blast
    with r d Inr p whole show ?thesis by (cases "cs = []") simp_all
  qed
qed

text \<open>The loop stops only when no frame is complete, and takes nothing but frames off the front.\<close>

lemma drain_idle:
  "drain nxt act bs s = Some (Inr (r, s')) \<Longrightarrow> suffix r bs \<and> (r = [] \<or> nxt r = Wait)"
proof (induction bs arbitrary: s rule: length_induct)
  case (1 bs)
  show ?case
  proof (cases rule: scan_cases [of bs _ nxt act s])
    case (Step x n s1)
    then have "length (drop n bs) < length bs" using item_bounds [OF Step(2)] by simp
    moreover have "drain nxt act (drop n bs) s1 = Some (Inr (r, s'))" using "1.prems" Step by simp
    ultimately have "suffix r (drop n bs) \<and> (r = [] \<or> nxt r = Wait)" using "1.IH" by blast
    then show ?thesis using suffix_order.trans suffix_drop by blast
  qed (use "1.prems" in simp_all)
qed

lemma loop_idle:
  assumes "bb_inv b"
  shows "returned_idle nxt b (message_loop nxt act b s)"
proof -
  note r = loop_refines [OF assms, of act s]
  obtain out where out: "message_loop nxt act b s = Some out" using loop_total [OF assms, of act s] by blast
  show ?thesis
  proof (cases out)
    case (Inr p)
    obtain b' s' where "p = (b', s')" by (cases p)
    with Inr have p: "out = Inr (b', s')" by simp
    with r out have "bb_inv b'" "drain nxt act (bb_contents b) s = Some (Inr (bb_contents b', s'))"
      by auto
    with drain_idle p out show ?thesis by (simp add: returned_idle_def)
  qed (simp add: returned_idle_def out)
qed

text \<open>Cutting first and acting afterwards is the same as acting frame by frame.\<close>

lemma drain_cut: "drain nxt act bs s = Some (act_on_cut act (cut_stream nxt bs) s)"
proof (induction bs arbitrary: s rule: length_induct)
  case (1 bs)
  show ?case
  proof (cases rule: scan_cases [of bs _ nxt act s])
    case (Step x n s1)
    note n = item_bounds [OF Step(2)]
    then have "length (drop n bs) < length bs" using Step(1) by simp
    with "1.IH" have "drain nxt act (drop n bs) s1 = Some (act_on_cut act (cut_stream nxt (drop n bs)) s1)"
      by blast
    with Step n show ?thesis
      by (cases "act_all act (fst (cut_stream nxt (drop n bs))) s1")
        (simp_all add: cut_stream.simps [of nxt bs] act_on_cut_def split_beta)
  next
    case (Stop x n e)
    with item_bounds [OF Stop(2)] show ?thesis
      by (simp add: cut_stream.simps [of nxt bs] act_on_cut_def split_beta)
  qed (simp_all add: cut_stream.simps [of nxt bs] cut_stream.simps [of nxt "[]"] act_on_cut_def)
qed

lemma feed_chunks_cut:
  assumes "bb_inv b" "chunks \<noteq> []" "length (bb_contents b @ concat chunks) < lim"
  shows "map_option forget_layout (feed_chunks nxt act chunks b s) =
    Some (act_on_cut act (cut_stream nxt (bb_contents b @ concat chunks)) s)"
  unfolding feed_chunks_drain [OF assms] by (rule drain_cut)

lemma loop_acts:
  assumes "bb_inv b" "message_loop nxt act b s = Some (Inr (b', s'))"
  shows "\<exists>xs. act_all act xs s = Inr s'"
proof -
  have "Some (Inr (bb_contents b', s')) = Some (act_on_cut act (cut_stream nxt (bb_contents b)) s)"
    using loop_refines [OF assms(1), of act s] assms(2) drain_cut [of act "bb_contents b" s] by simp
  then have "act_all act (fst (cut_stream nxt (bb_contents b))) s = Inr s'"
    by (auto simp: act_on_cut_def split: sum.splits)
  then show ?thesis by blast
qed

text \<open>
  The whole receive path for a peer that prints its items: chunks in, the actions of the items
  done one after the other.
\<close>

lemma drain_printed:
  assumes "\<And>x rest. x \<in> set xs \<Longrightarrow> nxt (pr x @ rest) = Item (rcv x) (length (pr x)) \<and> pr x \<noteq> []"
  shows "drain nxt act (concat (map pr xs)) s =
    Some (case act_all act (map rcv xs) s of Inl e \<Rightarrow> Inl e | Inr s' \<Rightarrow> Inr ([], s'))"
  using assms
proof (induction xs arbitrary: s)
  case (Cons x xs)
  have "nxt (pr x @ concat (map pr xs)) = Item (rcv x) (length (pr x))" "pr x \<noteq> []"
    using Cons.prems [of x] by auto
  with Cons show ?case by (cases "act (rcv x) s") simp_all
qed simp

lemma feed_printed:
  assumes "\<And>x rest. x \<in> set xs \<Longrightarrow> nxt (pr x @ rest) = Item (rcv x) (length (pr x)) \<and> pr x \<noteq> []"
    and "concat chunks = concat (map pr xs)" "chunks \<noteq> []" "length (concat chunks) < lim"
    and "act_all act (map rcv xs) s = Inr s'"
  shows "\<exists>b. feed_chunks nxt act chunks (byte_buffer_new cap) s = Some (Inr (b, s')) \<and> bb_contents b = []"
proof -
  have "map_option forget_layout (feed_chunks nxt act chunks (byte_buffer_new cap) s) = Some (Inr ([], s'))"
    using feed_chunks_drain [OF bb_inv_new, of chunks cap act s]
      assms(2-5) drain_printed [of xs pr rcv act s, OF assms(1)] by simp
  then obtain z where "feed_chunks nxt act chunks (byte_buffer_new cap) s = Some z"
    "forget_layout z = Inr ([], s')" by blast
  then show ?thesis by (auto simp: forget_layout_def split: sum.splits)
qed

end

end
