(* ===== verification/Header_Block.thy ===== *)
theory Header_Block
  imports Message_Framing
begin

text \<open>
  What \<open>RtspMessage::parse\<close> (\<open>src/src/rtsp_protocol.cpp\<close>) and \<open>HttpServer::parseRequest\<close>
  (\<open>src/src/http_server.cpp\<close>) do alike: cut the header block into lines, split a line at
  its colon, read \<open>Content-Length\<close> as a \<open>size_t\<close>. A \<open>std::unordered_map\<close> of headers is the
  list of its pairs in the order a range-for visits them; that order is not specified in C++,
  so the theorems about printed messages are stated for every list with distinct keys.
\<close>

type_synonym headers = "(bytes \<times> bytes) list"

abbreviation COLON :: char where "COLON \<equiv> CHR '':''"
abbreviation SPACE :: char where "SPACE \<equiv> CHR '' ''"

text \<open>The loop over the header lines, from a position after the first line.\<close>

function header_lines :: "bytes \<Rightarrow> nat \<Rightarrow> nat \<Rightarrow> bytes list" where
  "header_lines header headerLen pos =
     (if pos < headerLen - 2
      then (case str_find header CRLF pos of
              None \<Rightarrow> []
            | Some nextLine \<Rightarrow>
                if nextLine = pos then []
                else substr header pos (nextLine - pos) # header_lines header headerLen (nextLine + 2))
      else [])"
  by pat_completeness auto
termination
  by (relation "measure (\<lambda>(header, headerLen, pos). headerLen - pos)")
    (auto dest: str_find_bounds)

declare header_lines.simps [simp del]

definition split_header :: "bytes \<Rightarrow> (bytes \<times> bytes) option" where
  "split_header line =
     (case find_char line COLON 0 of
        None \<Rightarrow> None
      | Some colon \<Rightarrow>
          Some (substr line 0 colon, dropWhile (\<lambda>c. c = SPACE) (substr_from line (colon + 1))))"

text \<open>\<open>static_cast<size_t>(std::atoll(v))\<close>, and the sum of two \<open>size_t\<close>.\<close>

definition size_of_atoll :: "bytes \<Rightarrow> nat" where
  "size_of_atoll v = nat (take_bit 64 (atoll v))"

definition size_add :: "nat \<Rightarrow> nat \<Rightarrow> nat" where
  "size_add a b = (a + b) mod 2 ^ 64"

text \<open>\<open>std::string::max_size()\<close> of a 64-bit libstdc++: more bytes than that throw.\<close>

definition string_max_size :: nat where
  "string_max_size = 2 ^ 63 - 1"

definition content_length :: "headers \<Rightarrow> nat" where
  "content_length hs =
     (case map_of hs ''Content-Length'' of None \<Rightarrow> 0 | Some v \<Rightarrow> size_of_atoll v)"

text \<open>\<open>a + b\<close> overflows only for a declared length that is negative.\<close>

lemma size_of_atoll_nonneg: "0 \<le> atoll v \<Longrightarrow> size_of_atoll v = nat (atoll v)"
  using atoll_range [of v] by (simp add: size_of_atoll_def take_bit_int_eq_self)

lemma size_of_atoll_neg: "atoll v < 0 \<Longrightarrow> size_of_atoll v = nat (2 ^ 64 + atoll v)"
proof -
  assume "atoll v < 0"
  with atoll_range [of v] have "(atoll v + 2 ^ 64) mod 2 ^ 64 = atoll v + 2 ^ 64"
    by (intro mod_pos_pos_trivial) simp_all
  then show ?thesis
    unfolding size_of_atoll_def take_bit_eq_mod mod_add_self2 by (simp only: add.commute)
qed

lemma size_of_atoll_dec: "n < 2 ^ 63 \<Longrightarrow> size_of_atoll (dec_nat n) = n"
  by (simp add: size_of_atoll_nonneg atoll_dec_nat)

lemma atoll_neg_dec:
  assumes "n \<le> 2 ^ 63"
  shows "atoll (CHR ''-'' # dec_nat n) = - int n"
  using assms by (simp add: atoll_def c_isspace_def digits_value_dec_nat saturate64_def)

section \<open>Printed header blocks\<close>

definition header_block :: "bytes list \<Rightarrow> bytes" where
  "header_block ls = concat (map (\<lambda>l. l @ CRLF) ls) @ CRLF"

definition header_text :: "bytes \<times> bytes \<Rightarrow> bytes" where
  "header_text kv = fst kv @ '': '' @ snd kv"

definition line_ok :: "bytes \<Rightarrow> bool" where
  "line_ok l \<longleftrightarrow> l \<noteq> [] \<and> LF \<notin> set l"

definition header_ok :: "bytes \<times> bytes \<Rightarrow> bool" where
  "header_ok kv \<longleftrightarrow> LF \<notin> set (fst kv) \<and> COLON \<notin> set (fst kv) \<and> LF \<notin> set (snd kv) \<and>
     (snd kv = [] \<or> hd (snd kv) \<noteq> SPACE)"

lemma header_block_simps [simp]:
  "header_block [] = CRLF" "header_block (l # ls) = l @ CR # LF # header_block ls"
  by (simp_all add: header_block_def)

lemma length_header_block: "2 \<le> length (header_block ls)"
  by (simp add: header_block_def)

lemma header_text_line_ok [simp]: "header_ok kv \<Longrightarrow> line_ok (header_text kv)"
  by (simp add: header_ok_def line_ok_def header_text_def)

lemma dropWhile_id: "xs = [] \<or> \<not> P (hd xs) \<Longrightarrow> dropWhile P xs = xs"
  by (cases xs) auto

lemma split_header_text [simp]: "header_ok kv \<Longrightarrow> split_header (header_text kv) = Some kv"
  by (cases kv)
    (auto simp: split_header_def header_text_def header_ok_def find_char_append substr_def dropWhile_id)

lemma block_no_empty_line: "line_ok l \<Longrightarrow> \<not> prefix CRLF (header_block (l # ls) @ rest)"
  by (cases l) (auto simp: line_ok_def prefix_def append_eq_Cons_conv Cons_eq_append_conv)

lemma find_header_end:
  "ls \<noteq> [] \<Longrightarrow> \<forall>l \<in> set ls. line_ok l \<Longrightarrow>
    find_sub CRLF2 (header_block ls @ rest) = Some (length (header_block ls) - 4)"
proof (induction ls)
  case Nil
  then show ?case by simp
next
  case (Cons l ls)
  have l: "LF \<notin> set l" using Cons.prems by (simp add: line_ok_def)
  show ?case
  proof (cases ls)
    case Nil
    with l show ?thesis using find_CRLF2_line [of l "CR # LF # rest"] by simp
  next
    case (Cons l' ls')
    then have "\<not> prefix CRLF (header_block ls @ rest)"
      using Cons.prems block_no_empty_line [of l' ls'] by simp
    moreover have "find_sub CRLF2 (header_block ls @ rest) = Some (length (header_block ls) - 4)"
      using Cons.IH Cons.prems Cons by simp
    moreover have "length (header_block ls) \<ge> 4"
      using Cons length_header_block [of ls'] by simp
    ultimately show ?thesis using find_CRLF2_line [OF l, of "header_block ls @ rest"] by simp
  qed
qed

lemma str_find_first_line:
  "line_ok l \<Longrightarrow> str_find (header_block (l # ls)) CRLF 0 = Some (length l)"
  by (simp add: str_find_def line_ok_def find_CRLF_line)

lemma header_lines_block:
  "\<forall>l \<in> set ls. line_ok l \<Longrightarrow>
    header_lines (pre @ header_block ls) (length (pre @ header_block ls)) (length pre) = ls"
proof (induction ls arbitrary: pre)
  case Nil
  then show ?case by (simp add: header_lines.simps [of _ _ "length pre"])
next
  case (Cons l ls)
  have l: "LF \<notin> set l" "l \<noteq> []" using Cons.prems by (simp_all add: line_ok_def)
  have found: "str_find (pre @ header_block (l # ls)) CRLF (length pre) = Some (length pre + length l)"
    using l by (simp add: str_find_def find_CRLF_line)
  have "header_lines ((pre @ l @ CRLF) @ header_block ls)
      (length ((pre @ l @ CRLF) @ header_block ls)) (length (pre @ l @ CRLF)) = ls"
    using Cons.prems by (intro Cons.IH) simp
  with found l show ?case
    by (simp add: header_lines.simps [of _ _ "length pre"] substr_def)
qed

text \<open>Storing pairs with new keys one after the other appends them.\<close>

lemma update_new_key: "k \<notin> fst ` set hs \<Longrightarrow> AList.update k v hs = hs @ [(k, v)]"
  by (induction hs) auto

lemma fold_update_new:
  "distinct (map fst (hs @ new)) \<Longrightarrow> fold (\<lambda>kv. AList.update (fst kv) (snd kv)) new hs = hs @ new"
proof (induction new arbitrary: hs)
  case (Cons kv new)
  then have "AList.update (fst kv) (snd kv) hs = hs @ [kv]"
    by (simp add: update_new_key)
  with Cons show ?case by simp
qed simp

text \<open>Cutting the text after the header block does not change the header block.\<close>

lemma bytes_find_append:
  assumes "bytes_find bs p = i" "0 \<le> i" "length (bs @ cs) < 2 ^ 31"
  shows "bytes_find (bs @ cs) p = i" and "nat i + length p \<le> length bs" and "find_sub p bs = Some (nat i)"
proof -
  obtain k where k: "find_sub p bs = Some k" "i = signed_take_bit 31 (int k)"
    and ne: "p \<noteq> []"
    using assms by (auto simp: bytes_find_def split: if_splits option.splits)
  have b: "k + length p \<le> length bs" using find_sub_Some_bound [OF k(1)] .
  then have "int k < 2 ^ 31" using assms(3) by simp
  then have i: "i = int k" using k(2) by (simp add: signed_take_bit_int_eq_self)
  have "find_sub p (bs @ cs) = Some k" using find_sub_append [OF k(1)] .
  with b i ne k(2) show "bytes_find (bs @ cs) p = i"
    by (simp add: bytes_find_def)
  show "nat i + length p \<le> length bs" "find_sub p bs = Some (nat i)" using b i k(1) by simp_all
qed

lemma bytes_find_inside:
  assumes "bytes_find bs p = i" "0 \<le> i"
  shows "i + int (length p) \<le> int (length bs)"
proof -
  obtain k where "find_sub p bs = Some k" "i = signed_take_bit 31 (int k)"
    using assms by (auto simp: bytes_find_def split: if_splits option.splits)
  moreover have "signed_take_bit 31 (int k) \<le> int k"
    using take_bit_int_less_eq_self_iff [of 32 "int k"] signed_take_bit_eq_take_bit_minus [of 31 "int k"]
    by (auto simp: of_bool_def split: if_splits)
  ultimately show ?thesis using find_sub_Some_bound [of p bs k] by linarith
qed

lemma bytes_find_Some:
  "find_sub p bs = Some k \<Longrightarrow> p \<noteq> [] \<Longrightarrow> k < 2 ^ 31 \<Longrightarrow> bytes_find bs p = int k"
  using find_sub_Some_bound [of p bs k]
  by (auto simp: bytes_find_def signed_take_bit_int_eq_self)

lemma bytes_find_range: "bytes_find bs p < 2 ^ 31"
  using signed_take_bit_int_less_exp [of 31] by (auto simp: bytes_find_def split: option.splits)

end
