(* ===== verification/Block_Parser.thy ===== *)
theory Block_Parser
  imports Header_Block
begin

text \<open>
  The parser that \<open>RtspMessage::parse\<close> (\<open>src/src/rtsp_protocol.cpp\<close>) and
  \<open>HttpServer::parseRequest\<close> (\<open>src/src/http_server.cpp\<close>) are two copies of: find the end of the
  header block, read the first line, fold the header lines, take the body. It is
  a function of what the copies do differently: the first line, a header line and what is done
  with the body. The lemmas hold for both: an accepted message lies inside the buffer, bytes
  that arrive later do not change the outcome, and a printed header block is read back.
\<close>

definition parse_block ::
  "(bytes \<Rightarrow> 'm \<Rightarrow> bool \<times> 'm) \<Rightarrow> (bytes \<Rightarrow> 'm \<Rightarrow> 'm) \<Rightarrow>
   (nat \<Rightarrow> bytes \<Rightarrow> 'm \<Rightarrow> cpp_error + (bool \<times> 'm \<times> nat)) \<Rightarrow>
   bytes \<Rightarrow> 'm \<Rightarrow> cpp_error + (bool \<times> 'm \<times> nat)" where
  "parse_block first_line header_line body bs msg =
     (let headerEnd = bytes_find bs CRLF2 in
      if headerEnd < 0 then Inr (False, msg, 0)
      else
        let headerLen = nat (headerEnd + 4);
            header = take headerLen bs
        in case str_find header CRLF 0 of
             None \<Rightarrow> Inr (False, msg, 0)
           | Some lineEnd \<Rightarrow>
               (case first_line (substr header 0 lineEnd) msg of
                  (False, msg) \<Rightarrow> Inr (False, msg, 0)
                | (True, msg) \<Rightarrow>
                    body headerLen bs (fold header_line (header_lines header headerLen (lineEnd + 2)) msg)))"

definition take_body ::
  "('m \<Rightarrow> headers) \<Rightarrow> (bytes \<Rightarrow> 'm \<Rightarrow> 'm) \<Rightarrow> nat \<Rightarrow> bytes \<Rightarrow> 'm \<Rightarrow> cpp_error + (bool \<times> 'm \<times> nat)" where
  "take_body hdrs put headerLen bs msg =
     (let contentLength = content_length (hdrs msg) in
      if size_add headerLen contentLength > length bs then Inr (False, msg, 0)
      else if contentLength > 0 then
        if contentLength > string_max_size then Inl LengthError
        else Inr (True, put (take contentLength (drop headerLen bs)) msg, size_add headerLen contentLength)
      else Inr (True, msg, size_add headerLen contentLength))"

lemma size_add_small: "a + b < 2 ^ 64 \<Longrightarrow> size_add a b = a + b"
  by (simp add: size_add_def)

section \<open>The body\<close>

lemma take_body_ok:
  assumes "take_body hdrs put headerLen bs msg = Inr (True, m, n)" "4 \<le> headerLen" "headerLen < 2 ^ 32"
  shows "0 < n \<and> n \<le> length bs"
proof -
  have "content_length (hdrs msg) \<le> string_max_size"
    using assms(1) by (auto simp: take_body_def Let_def string_max_size_def split: if_splits)
  then have "size_add headerLen (content_length (hdrs msg)) = headerLen + content_length (hdrs msg)"
    using assms(3) by (intro size_add_small) (simp add: string_max_size_def)
  with assms show ?thesis by (auto simp: take_body_def Let_def split: if_splits)
qed

lemma take_body_stable:
  assumes "headerLen \<le> length bs" "headerLen < 2 ^ 32"
  shows "take_body hdrs put headerLen bs msg = Inr (True, m, n) \<Longrightarrow>
      take_body hdrs put headerLen (bs @ cs) msg = Inr (True, m, n)"
    and "take_body hdrs put headerLen bs msg = Inl e \<Longrightarrow> take_body hdrs put headerLen (bs @ cs) msg = Inl e"
proof -
  let ?cl = "content_length (hdrs msg)"
  have sum: "?cl \<le> string_max_size \<Longrightarrow> size_add headerLen ?cl = headerLen + ?cl"
    using assms(2) by (intro size_add_small) (simp add: string_max_size_def)
  show "take_body hdrs put headerLen bs msg = Inr (True, m, n) \<Longrightarrow>
      take_body hdrs put headerLen (bs @ cs) msg = Inr (True, m, n)"
    using assms sum
    by (cases "?cl \<le> string_max_size") (auto simp: take_body_def Let_def split: if_splits)
  show "take_body hdrs put headerLen bs msg = Inl e \<Longrightarrow> take_body hdrs put headerLen (bs @ cs) msg = Inl e"
    using assms by (auto simp: take_body_def Let_def split: if_splits)
qed

lemma take_body_complete:
  assumes "content_length (hdrs msg) = length body" "length block + length body < 2 ^ 31"
  shows "take_body hdrs put (length block) (block @ body @ rest) msg =
    Inr (True, if body = [] then msg else put body msg, length block + length body)"
proof -
  have sum: "size_add (length block) (length body) = length block + length body"
    "size_add (length block) 0 = length block"
    using assms(2) by (simp_all add: size_add_small)
  show ?thesis
    using assms by (cases "body = []") (simp_all add: take_body_def sum string_max_size_def)
qed

text \<open>
  A declared length \<open>-k\<close>, for \<open>k\<close> up to the size of the header block: the sum wraps around to
  less than the bytes at hand, and the string constructor is asked for \<open>2^64 - k\<close> bytes.
\<close>

lemma take_body_negative:
  assumes "map_of (hdrs msg) ''Content-Length'' = Some v" "atoll v = - int k"
    "0 < k" "k \<le> headerLen" "headerLen \<le> length bs" "headerLen < 2 ^ 31"
  shows "take_body hdrs put headerLen bs msg = Inl LengthError"
proof -
  have k: "k < 2 ^ 31" using assms by simp
  have "size_of_atoll v = nat (2 ^ 64 - int k)"
    using assms(2,3) by (subst size_of_atoll_neg) simp_all
  then have cl: "content_length (hdrs msg) = 2 ^ 64 - k"
    using k by (simp add: content_length_def assms(1) nat_diff_distrib)
  have "size_add headerLen (2 ^ 64 - k) = headerLen - k"
  proof -
    have sum: "headerLen + (2 ^ 64 - k) = (headerLen - k) + 2 ^ 64" using assms(4) k by simp
    have "headerLen - k < 2 ^ 64" using assms(6) by simp
    then show ?thesis unfolding size_add_def sum mod_add_self2 by (rule mod_less)
  qed
  with cl k assms show ?thesis
    by (simp add: take_body_def string_max_size_def Let_def less_diff_conv trans_le_add1 not_less)
qed

section \<open>The whole message\<close>

text \<open>A parse that gets past the header block ends in the body.\<close>

lemma parse_block_reaches_body:
  assumes "parse_block first hdr body bs msg = r" "\<nexists>m. r = Inr (False, m, 0)"
  obtains i lineEnd msg1 where "bytes_find bs CRLF2 = i" "0 \<le> i"
    "str_find (take (nat (i + 4)) bs) CRLF 0 = Some lineEnd"
    "first (substr (take (nat (i + 4)) bs) 0 lineEnd) msg = (True, msg1)"
    "r = body (nat (i + 4)) bs
      (fold hdr (header_lines (take (nat (i + 4)) bs) (nat (i + 4)) (lineEnd + 2)) msg1)"
  using assms
  by (auto simp: parse_block_def Let_def not_less split: if_splits option.splits prod.splits bool.splits)

lemma parse_block_bounds:
  assumes "parse_block first hdr (take_body hdrs put) bs msg = Inr (True, m, n)"
  shows "0 < n \<and> n \<le> length bs"
proof -
  obtain i msg1 ls where i: "bytes_find bs CRLF2 = i" "0 \<le> i"
    and r: "Inr (True, m, n) = take_body hdrs put (nat (i + 4)) bs (fold hdr ls msg1)"
    by (rule parse_block_reaches_body [OF assms]) auto
  have "i < 2 ^ 31" using bytes_find_range [of bs CRLF2] i by simp
  with i r [symmetric] show ?thesis by (intro take_body_ok) auto
qed

lemma parse_block_stable:
  assumes "parse_block first hdr (take_body hdrs put) bs msg = r" "\<nexists>m n. r = Inr (False, m, n)"
    "length (bs @ cs) < 2 ^ 31"
  shows "parse_block first hdr (take_body hdrs put) (bs @ cs) msg = r"
proof -
  obtain i lineEnd msg1 where i: "bytes_find bs CRLF2 = i" "0 \<le> i"
    and line: "str_find (take (nat (i + 4)) bs) CRLF 0 = Some lineEnd"
      "first (substr (take (nat (i + 4)) bs) 0 lineEnd) msg = (True, msg1)"
    and r: "r = take_body hdrs put (nat (i + 4)) bs
      (fold hdr (header_lines (take (nat (i + 4)) bs) (nat (i + 4)) (lineEnd + 2)) msg1)"
    by (rule parse_block_reaches_body [OF assms(1)]) (use assms(2) in auto)
  note grown = bytes_find_append [OF i assms(3)]
  have le: "nat (i + 4) \<le> length bs" using grown(2) i(2) by simp
  then have header: "take (nat (i + 4)) (bs @ cs) = take (nat (i + 4)) bs" by simp
  have "parse_block first hdr (take_body hdrs put) (bs @ cs) msg = take_body hdrs put (nat (i + 4)) (bs @ cs)
      (fold hdr (header_lines (take (nat (i + 4)) bs) (nat (i + 4)) (lineEnd + 2)) msg1)"
    unfolding parse_block_def Let_def grown(1) header line option.case using i(2) line(2)
    by simp
  also have "\<dots> = r"
  proof (cases r)
    case (Inl e)
    from take_body_stable(2) [OF le _ r [symmetric, unfolded Inl]] le assms(3) Inl show ?thesis by simp
  next
    case (Inr p)
    with assms(2) obtain m n where ok: "r = Inr (True, m, n)" by (cases p) auto
    from take_body_stable(1) [OF le _ r [symmetric, unfolded ok]] le assms(3) ok show ?thesis by simp
  qed
  finally show ?thesis .
qed

text \<open>A printed header block is cut into its lines again, whatever follows it.\<close>

lemma parse_block_cut:
  assumes lines: "\<forall>l \<in> set (first # ls). line_ok l"
    and len: "length (header_block (first # ls)) < 2 ^ 31"
  shows "parse_block first_line hdr body (header_block (first # ls) @ rest) msg =
    (case first_line first msg of
       (False, msg) \<Rightarrow> Inr (False, msg, 0)
     | (True, msg) \<Rightarrow> body (length (header_block (first # ls))) (header_block (first # ls) @ rest) (fold hdr ls msg))"
proof -
  let ?block = "header_block (first # ls)"
  have four: "4 \<le> length ?block" using length_header_block [of ls] by simp
  have "find_sub CRLF2 (?block @ rest) = Some (length ?block - 4)"
    using lines by (intro find_header_end) simp_all
  then have pos: "bytes_find (?block @ rest) CRLF2 = int (length ?block - 4)"
    using len by (intro bytes_find_Some) simp_all
  have le: "nat (int (length ?block - 4) + 4) = length ?block" using four by simp
  have fl: "str_find ?block CRLF 0 = Some (length first)"
    using lines by (intro str_find_first_line) simp
  have hl: "header_lines ?block (length ?block) (length first + 2) = ls"
    using header_lines_block [of ls "first @ CRLF"] lines by simp
  have cut: "take (length ?block) (?block @ rest) = ?block" by simp
  have sub: "substr ?block 0 (length first) = first" by (simp add: substr_def)
  show ?thesis
    unfolding parse_block_def Let_def pos le cut fl option.case sub hl by simp
qed

lemma parse_block_printed:
  assumes "\<forall>l \<in> set (first # ls). line_ok l" and "first_line first msg = (True, msg1)"
    and "length (header_block (first # ls)) < 2 ^ 31"
  shows "parse_block first_line hdr body (header_block (first # ls) @ rest) msg =
    body (length (header_block (first # ls))) (header_block (first # ls) @ rest) (fold hdr ls msg1)"
  unfolding parse_block_cut [OF assms(1,3)] assms(2) prod.case bool.case by (rule refl)

section \<open>As a scanner of a stream\<close>

definition block_scan :: "cpp_error + (bool \<times> 'm \<times> nat) \<Rightarrow> 'm scan" where
  "block_scan r =
     (case r of Inl e \<Rightarrow> Fail e | Inr (ok, msg, consumed) \<Rightarrow> if ok then Item msg consumed else Wait)"

lemma block_scan_simps [simp]:
  "block_scan (Inl e) = Fail e" "block_scan (Inr (True, msg, n)) = Item msg n"
  "block_scan (Inr (False, msg, n)) = Wait"
  by (simp_all add: block_scan_def)

lemma block_scan_framer:
  "framer (\<lambda>bs. block_scan (parse_block first hdr (take_body hdrs put) bs msg)) (2 ^ 31)"
proof
  fix bs cs :: bytes and x n e
  let ?p = "\<lambda>bs. parse_block first hdr (take_body hdrs put) bs msg"
  show "0 < n \<and> n \<le> length bs" if "block_scan (?p bs) = Item x n"
    using that parse_block_bounds [of first hdr hdrs put bs msg]
    by (auto simp: block_scan_def split: if_splits sum.splits)
  show "block_scan (?p (bs @ cs)) = Item x n"
    if "block_scan (?p bs) = Item x n" "length (bs @ cs) < 2 ^ 31"
  proof -
    from that(1) have "?p bs = Inr (True, x, n)"
      by (auto simp: block_scan_def split: if_splits sum.splits)
    from parse_block_stable [OF this _ that(2)] show ?thesis by simp
  qed
  show "block_scan (?p (bs @ cs)) = Fail e"
    if "bs \<noteq> []" "block_scan (?p bs) = Fail e" "length (bs @ cs) < 2 ^ 31"
  proof -
    from that(2) have "?p bs = Inl e" by (auto simp: block_scan_def split: if_splits sum.splits)
    from parse_block_stable [OF this _ that(3)] show ?thesis by simp
  qed
qed

end
