(* ===== verification/Rtsp_Protocol.thy ===== *)
theory Rtsp_Protocol
  imports Block_Parser
begin

text \<open>
  \<open>RtspMessage\<close> of \<open>src/src/rtsp_protocol.h\<close> and \<open>rtsp_protocol.cpp\<close>: the message record, the
  builders of requests and responses, \<open>serialize\<close> and \<open>parse\<close>. \<open>parse\<close> returns its
  three results (success, the message as filled so far, the bytes consumed) or the exception
  it leaves by. The main results: parsing a printed message gives the message back, whatever
  follows it in the buffer; the scan for the next frame on an RTSP connection is a \<open>framer\<close>.
\<close>

section \<open>Messages\<close>

datatype rtsp_message_type = KUnknown | KRequest | KResponse

datatype rtsp_method =
  KNone | KOptions | KDescribe | KSetup | KPlay | KPause | KTeardown | KGetParameter
| KAnnounce | KRecord

record rtsp_message =
  msg_method :: rtsp_method
  msg_url :: bytes
  msg_version :: bytes
  msg_status_code :: int
  msg_reason :: bytes
  msg_type :: rtsp_message_type
  msg_headers :: headers
  msg_body :: bytes
  msg_cseq :: u32
  msg_session_id :: bytes
  msg_transport :: bytes
  msg_sdp :: bytes

definition rtsp_message_new :: rtsp_message where
  "rtsp_message_new =
     \<lparr>msg_method = KNone, msg_url = [], msg_version = ''RTSP/1.0'', msg_status_code = 0,
      msg_reason = [], msg_type = KUnknown, msg_headers = [], msg_body = [], msg_cseq = 0,
      msg_session_id = [], msg_transport = [], msg_sdp = []\<rparr>"

definition parse_method :: "bytes \<Rightarrow> rtsp_method" where
  "parse_method s =
     (if s = ''OPTIONS'' then KOptions
      else if s = ''DESCRIBE'' then KDescribe
      else if s = ''SETUP'' then KSetup
      else if s = ''PLAY'' then KPlay
      else if s = ''PAUSE'' then KPause
      else if s = ''TEARDOWN'' then KTeardown
      else if s = ''GET_PARAMETER'' then KGetParameter
      else if s = ''ANNOUNCE'' then KAnnounce
      else if s = ''RECORD'' then KRecord
      else KNone)"

fun method_to_string :: "rtsp_method \<Rightarrow> bytes" where
  "method_to_string KOptions = ''OPTIONS''"
| "method_to_string KDescribe = ''DESCRIBE''"
| "method_to_string KSetup = ''SETUP''"
| "method_to_string KPlay = ''PLAY''"
| "method_to_string KPause = ''PAUSE''"
| "method_to_string KTeardown = ''TEARDOWN''"
| "method_to_string KGetParameter = ''GET_PARAMETER''"
| "method_to_string KAnnounce = ''ANNOUNCE''"
| "method_to_string KRecord = ''RECORD''"
| "method_to_string KNone = ''UNKNOWN''"

text \<open>\<open>m.headers[k] = v\<close>\<close>

definition set_header :: "bytes \<Rightarrow> bytes \<Rightarrow> rtsp_message \<Rightarrow> rtsp_message" where
  "set_header k v m = m\<lparr>msg_headers := AList.update k v (msg_headers m)\<rparr>"

text \<open>\<open>snprintf(buf, 16, "%08x", id)\<close>\<close>

definition hex_digit :: "nat \<Rightarrow> char" where
  "hex_digit d = ''0123456789abcdef'' ! d"

definition generate_session_id :: "u32 \<Rightarrow> bytes" where
  "generate_session_id rng = map (\<lambda>i. hex_digit (unat rng div 16 ^ (7 - i) mod 16)) [0..<8]"

section \<open>Builders of requests\<close>

definition request_new :: "rtsp_method \<Rightarrow> bytes \<Rightarrow> u32 \<Rightarrow> rtsp_message" where
  "request_new meth url cseq =
     rtsp_message_new\<lparr>msg_type := KRequest, msg_method := meth, msg_url := url, msg_cseq := cseq\<rparr>"

definition options_request :: "bytes \<Rightarrow> u32 \<Rightarrow> rtsp_message" where
  "options_request url cseq =
     set_header ''User-Agent'' ''RTSP-Relay/1.0'' (request_new KOptions url cseq)"

definition describe_request :: "bytes \<Rightarrow> u32 \<Rightarrow> rtsp_message" where
  "describe_request url cseq =
     set_header ''User-Agent'' ''RTSP-Relay/1.0''
       (set_header ''Accept'' ''application/sdp'' (request_new KDescribe url cseq))"

definition setup_request :: "bytes \<Rightarrow> u32 \<Rightarrow> int \<Rightarrow> int \<Rightarrow> bytes \<Rightarrow> rtsp_message" where
  "setup_request url cseq client_rtp_port client_rtcp_port session_id =
     (let m = request_new KSetup url cseq;
          m = (if session_id \<noteq> [] then set_header ''Session'' session_id m else m);
          transport = ''RTP/AVP;unicast;client_port='' @ dec_int client_rtp_port @ ''-'' @
            dec_int client_rtcp_port
      in set_header ''User-Agent'' ''RTSP-Relay/1.0'' (set_header ''Transport'' transport m))"

definition play_request :: "bytes \<Rightarrow> u32 \<Rightarrow> bytes \<Rightarrow> rtsp_message" where
  "play_request url cseq session_id =
     set_header ''User-Agent'' ''RTSP-Relay/1.0''
       (set_header ''Range'' ''npt=0.000-''
         (set_header ''Session'' session_id (request_new KPlay url cseq)))"

definition teardown_request :: "bytes \<Rightarrow> u32 \<Rightarrow> bytes \<Rightarrow> rtsp_message" where
  "teardown_request url cseq session_id =
     set_header ''User-Agent'' ''RTSP-Relay/1.0''
       (set_header ''Session'' session_id (request_new KTeardown url cseq))"

section \<open>Builders of responses\<close>

definition response_new :: "int \<Rightarrow> bytes \<Rightarrow> u32 \<Rightarrow> rtsp_message" where
  "response_new status reason cseq =
     rtsp_message_new\<lparr>msg_type := KResponse, msg_status_code := status, msg_reason := reason,
       msg_cseq := cseq\<rparr>"

definition ok_response :: "u32 \<Rightarrow> bytes \<Rightarrow> rtsp_message" where
  "ok_response cseq session_id =
     (let m = response_new 200 ''OK'' cseq
      in if session_id \<noteq> [] then set_header ''Session'' session_id m else m)"

definition options_response :: "u32 \<Rightarrow> rtsp_message" where
  "options_response cseq =
     set_header ''Public'' ''OPTIONS, DESCRIBE, SETUP, PLAY, TEARDOWN, GET_PARAMETER''
       (response_new 200 ''OK'' cseq)"

definition describe_response :: "u32 \<Rightarrow> bytes \<Rightarrow> bytes \<Rightarrow> rtsp_message" where
  "describe_response cseq sdp session_id =
     (let m = response_new 200 ''OK'' cseq;
          m = (if session_id \<noteq> [] then set_header ''Session'' session_id m else m);
          m = set_header ''Content-Base'' [] (set_header ''Content-Type'' ''application/sdp'' m)
      in m\<lparr>msg_body := sdp, msg_sdp := sdp\<rparr>)"

definition setup_response :: "u32 \<Rightarrow> bytes \<Rightarrow> int \<Rightarrow> int \<Rightarrow> rtsp_message" where
  "setup_response cseq session_id server_rtp_port server_rtcp_port =
     (let m = set_header ''Session'' (session_id @ '';timeout=60'') (response_new 200 ''OK'' cseq);
          transport = ''RTP/AVP;unicast;server_port='' @ dec_int server_rtp_port @ ''-'' @
            dec_int server_rtcp_port
      in set_header ''Transport'' transport m)"

definition play_response :: "u32 \<Rightarrow> bytes \<Rightarrow> rtsp_message" where
  "play_response cseq session_id =
     set_header ''Range'' ''npt=0.000-''
       (set_header ''Session'' session_id (response_new 200 ''OK'' cseq))"

definition teardown_response :: "u32 \<Rightarrow> bytes \<Rightarrow> rtsp_message" where
  "teardown_response cseq session_id =
     (let m = response_new 200 ''OK'' cseq
      in if session_id \<noteq> [] then set_header ''Session'' session_id m else m)"

definition error_response :: "u32 \<Rightarrow> int \<Rightarrow> bytes \<Rightarrow> rtsp_message" where
  "error_response cseq status reason = response_new status reason cseq"

section \<open>Serialisation\<close>

definition start_line :: "rtsp_message \<Rightarrow> bytes" where
  "start_line m =
     (if msg_type m = KRequest
      then method_to_string (msg_method m) @ '' '' @ msg_url m @ '' '' @ msg_version m
      else msg_version m @ '' '' @ dec_int (msg_status_code m) @ '' '' @ msg_reason m)"

definition rtsp_serialize :: "rtsp_message \<Rightarrow> bytes" where
  "rtsp_serialize m =
     start_line m @ CRLF @
     ''CSeq: '' @ dec_nat (unat (msg_cseq m)) @ CRLF @
     concat (map (\<lambda>(key, val). if key = ''CSeq'' then [] else key @ '': '' @ val @ CRLF)
       (msg_headers m)) @
     (if msg_body m \<noteq> [] then ''Content-Length: '' @ dec_nat (length (msg_body m)) @ CRLF else []) @
     CRLF @
     (if msg_body m \<noteq> [] then msg_body m else [])"

section \<open>Parsing\<close>

text \<open>The first line: success, and the message with the fields assigned so far.\<close>

definition parse_first_line :: "bytes \<Rightarrow> rtsp_message \<Rightarrow> bool \<times> rtsp_message" where
  "parse_first_line firstLine msg =
     (if take 5 firstLine = ''RTSP/'' then
        let msg = msg\<lparr>msg_type := KResponse\<rparr> in
        case find_char firstLine SPACE 0 of
          None \<Rightarrow> (False, msg)
        | Some sp1 \<Rightarrow>
            (case find_char firstLine SPACE (sp1 + 1) of
               None \<Rightarrow> (False, msg)
             | Some sp2 \<Rightarrow>
                 (True, msg\<lparr>msg_version := substr firstLine 0 sp1,
                   msg_status_code := atoi (substr firstLine (sp1 + 1) (sp2 - sp1 - 1)),
                   msg_reason := substr_from firstLine (sp2 + 1)\<rparr>))
      else
        let msg = msg\<lparr>msg_type := KRequest\<rparr> in
        case find_char firstLine SPACE 0 of
          None \<Rightarrow> (False, msg)
        | Some sp1 \<Rightarrow>
            (case find_char firstLine SPACE (sp1 + 1) of
               None \<Rightarrow> (False, msg)
             | Some sp2 \<Rightarrow>
                 (True, msg\<lparr>msg_method := parse_method (substr firstLine 0 sp1),
                   msg_url := substr firstLine (sp1 + 1) (sp2 - sp1 - 1),
                   msg_version := substr_from firstLine (sp2 + 1)\<rparr>)))"

text \<open>The part of a \<open>Session\<close> value before a \<open>;timeout=60\<close>.\<close>

definition session_part :: "bytes \<Rightarrow> bytes" where
  "session_part val =
     (case find_char val (CHR '';'') 0 of None \<Rightarrow> val | Some semi \<Rightarrow> substr val 0 semi)"

definition store_header :: "bytes \<times> bytes \<Rightarrow> rtsp_message \<Rightarrow> rtsp_message" where
  "store_header kv msg =
     (let key = fst kv; val = snd kv;
          msg = set_header key val msg;
          msg = (if key = ''CSeq'' then msg\<lparr>msg_cseq := word_of_int (atoi val)\<rparr> else msg);
          msg = (if key = ''Session'' then msg\<lparr>msg_session_id := session_part val\<rparr> else msg)
      in if key = ''Transport'' then msg\<lparr>msg_transport := val\<rparr> else msg)"

definition parse_header_line :: "bytes \<Rightarrow> rtsp_message \<Rightarrow> rtsp_message" where
  "parse_header_line line msg =
     (case split_header line of None \<Rightarrow> msg | Some kv \<Rightarrow> store_header kv msg)"

text \<open>From the lookup of \<open>Content-Length\<close> to the end.\<close>

definition parse_body ::
  "nat \<Rightarrow> bytes \<Rightarrow> rtsp_message \<Rightarrow> cpp_error + (bool \<times> rtsp_message \<times> nat)" where
  "parse_body headerLen bs msg =
     (let contentLength = content_length (msg_headers msg) in
      if size_add headerLen contentLength > length bs then Inr (False, msg, 0)
      else if contentLength > 0 then
        if contentLength > string_max_size then Inl LengthError
        else
          let msg = msg\<lparr>msg_body := take contentLength (drop headerLen bs)\<rparr>;
              msg = (case map_of (msg_headers msg) ''Content-Type'' of
                       None \<Rightarrow> msg
                     | Some ct \<Rightarrow>
                         if str_find ct ''sdp'' 0 \<noteq> None
                         then msg\<lparr>msg_sdp := msg_body msg\<rparr> else msg)
          in Inr (True, msg, size_add headerLen contentLength)
      else Inr (True, msg, size_add headerLen contentLength))"

definition rtsp_parse :: "bytes \<Rightarrow> rtsp_message \<Rightarrow> cpp_error + (bool \<times> rtsp_message \<times> nat)" where
  "rtsp_parse bs msg =
     (let headerEndPos = bytes_find bs CRLF2 in
      if headerEndPos < 0 then Inr (False, msg, 0)
      else
        let headerLen = nat (headerEndPos + 4);
            header = take headerLen bs
        in case str_find header CRLF 0 of
             None \<Rightarrow> Inr (False, msg, 0)
           | Some lineEnd \<Rightarrow>
               (case parse_first_line (substr header 0 lineEnd) msg of
                  (False, msg) \<Rightarrow> Inr (False, msg, 0)
                | (True, msg) \<Rightarrow>
                    parse_body headerLen bs
                      (fold parse_header_line (header_lines header headerLen (lineEnd + 2)) msg)))"

text \<open>\<open>parse\<close> as the shared parser: what it does with the body.\<close>

definition rtsp_put_body :: "bytes \<Rightarrow> rtsp_message \<Rightarrow> rtsp_message" where
  "rtsp_put_body body msg =
     (let msg = msg\<lparr>msg_body := body\<rparr> in
      case map_of (msg_headers msg) ''Content-Type'' of
        None \<Rightarrow> msg
      | Some ct \<Rightarrow> if str_find ct ''sdp'' 0 \<noteq> None then msg\<lparr>msg_sdp := msg_body msg\<rparr> else msg)"

lemma parse_body_take: "parse_body = take_body msg_headers rtsp_put_body"
  by (simp add: fun_eq_iff parse_body_def take_body_def rtsp_put_body_def Let_def)

lemma rtsp_parse_as_block:
  "rtsp_parse = parse_block parse_first_line parse_header_line (take_body msg_headers rtsp_put_body)"
  by (simp add: fun_eq_iff rtsp_parse_def parse_block_def flip: parse_body_take)

section \<open>Printing and parsing one another\<close>

lemma hex_digit_safe: "d < 16 \<Longrightarrow> hex_digit d \<notin> {LF, SPACE, CHR '';'', COLON}"
proof -
  have "\<forall>d \<in> set [0..<16]. hex_digit d \<notin> {LF, SPACE, CHR '';'', COLON}" by code_simp
  then show "d < 16 \<Longrightarrow> ?thesis" by simp
qed

lemma generate_session_id_facts [simp]:
  "length (generate_session_id rng) = 8" "generate_session_id rng \<noteq> []"
  "LF \<notin> set (generate_session_id rng)" "hd (generate_session_id rng) \<noteq> SPACE"
  "session_part (generate_session_id rng) = generate_session_id rng"
proof -
  let ?id = "generate_session_id rng"
  have safe: "c \<in> set ?id \<Longrightarrow> c \<notin> {LF, SPACE, CHR '';'', COLON}" for c
    using hex_digit_safe by (auto simp: generate_session_id_def)
  show len: "length ?id = 8" by (simp add: generate_session_id_def)
  then show ne: "?id \<noteq> []" by auto
  show "LF \<notin> set ?id" "hd ?id \<noteq> SPACE" using safe hd_in_set [OF ne] by auto
  have "find_char ?id (CHR '';'') 0 = None" using safe by (auto simp: find_char_None)
  then show "session_part ?id = ?id" by (simp add: session_part_def)
qed

lemma parse_method_to_string: "parse_method (method_to_string m) = m"
  by (cases m) (simp_all add: parse_method_def)

text \<open>The messages that can be printed unambiguously.\<close>

definition wire_ok :: "rtsp_message \<Rightarrow> bool" where
  "wire_ok m \<longleftrightarrow>
     (case msg_type m of
        KUnknown \<Rightarrow> False
      | KRequest \<Rightarrow> msg_method m \<noteq> KNone \<and> SPACE \<notin> set (msg_url m) \<and> LF \<notin> set (msg_url m) \<and>
          LF \<notin> set (msg_version m)
      | KResponse \<Rightarrow> take 5 (msg_version m) = ''RTSP/'' \<and> SPACE \<notin> set (msg_version m) \<and>
          LF \<notin> set (msg_version m) \<and> LF \<notin> set (msg_reason m) \<and>
          - (2 ^ 31) \<le> msg_status_code m \<and> msg_status_code m < 2 ^ 31) \<and>
     distinct (map fst (msg_headers m)) \<and> list_all header_ok (msg_headers m) \<and>
     ''Content-Length'' \<notin> fst ` set (msg_headers m) \<and>
     length (rtsp_serialize m) < 2 ^ 31"

text \<open>
  What the peer of a printed message holds: its own record, with the \<open>CSeq\<close> and
  \<open>Content-Length\<close> lines stored among the headers, and the fields \<open>parse\<close> extracts.
\<close>

definition wire_headers :: "rtsp_message \<Rightarrow> headers" where
  "wire_headers m =
     (''CSeq'', dec_nat (unat (msg_cseq m))) #
     filter (\<lambda>kv. fst kv \<noteq> ''CSeq'') (msg_headers m) @
     (if msg_body m \<noteq> [] then [(''Content-Length'', dec_nat (length (msg_body m)))] else [])"

definition says_sdp :: "headers \<Rightarrow> bool" where
  "says_sdp hs \<longleftrightarrow>
     (case map_of hs ''Content-Type'' of None \<Rightarrow> False | Some ct \<Rightarrow> str_find ct ''sdp'' 0 \<noteq> None)"

definition rtsp_received :: "rtsp_message \<Rightarrow> rtsp_message" where
  "rtsp_received m =
     (let base = (if msg_type m = KRequest
                  then rtsp_message_new\<lparr>msg_method := msg_method m, msg_url := msg_url m\<rparr>
                  else rtsp_message_new\<lparr>msg_status_code := msg_status_code m,
                         msg_reason := msg_reason m\<rparr>);
          value_of = (\<lambda>k. case map_of (msg_headers m) k of None \<Rightarrow> [] | Some v \<Rightarrow> v)
      in base\<lparr>msg_type := msg_type m, msg_version := msg_version m,
              msg_headers := wire_headers m, msg_body := msg_body m, msg_cseq := msg_cseq m,
              msg_session_id := session_part (value_of ''Session''),
              msg_transport := value_of ''Transport'',
              msg_sdp := (if says_sdp (msg_headers m) then msg_body m else [])\<rparr>)"

lemma method_to_string_safe [simp]:
  "LF \<notin> set (method_to_string m)" "SPACE \<notin> set (method_to_string m)"
  "take 5 (method_to_string m @ SPACE # r) \<noteq> ''RTSP/''"
  by (cases m; simp)+

lemma first_line_split:
  assumes "SPACE \<notin> set a" "SPACE \<notin> set b"
  shows "find_char (a @ SPACE # b @ SPACE # c) SPACE 0 = Some (length a)"
    and "find_char (a @ SPACE # b @ SPACE # c) SPACE (length a + 1) = Some (length a + 1 + length b)"
  using assms find_char_append_from [of SPACE b "length a + 1" "a @ [SPACE]" c]
  by (simp_all add: search_simps)

lemma parse_first_line_request:
  assumes "SPACE \<notin> set url"
  shows "parse_first_line (method_to_string meth @ '' '' @ url @ '' '' @ ver) msg =
    (True, msg\<lparr>msg_type := KRequest, msg_method := meth, msg_url := url, msg_version := ver\<rparr>)"
  using first_line_split [of "method_to_string meth" url ver] assms
  by (simp add: parse_first_line_def substr_def parse_method_to_string del: take_append)

lemma parse_first_line_response:
  assumes "SPACE \<notin> set ver" "take 5 ver = ''RTSP/''" "- (2 ^ 31) \<le> st" "st < 2 ^ 31"
  shows "parse_first_line (ver @ '' '' @ dec_int st @ '' '' @ reason) msg =
    (True, msg\<lparr>msg_type := KResponse, msg_version := ver, msg_status_code := st, msg_reason := reason\<rparr>)"
proof -
  have "length (take 5 ver) = 5" unfolding assms(2) by simp
  then have "5 \<le> length ver" by simp
  then have "take 5 (ver @ SPACE # r) = ''RTSP/''" for r using assms(2) by simp
  with first_line_split [of ver "dec_int st" reason] assms atoi_dec_int [of st] show ?thesis
    by (simp add: parse_first_line_def substr_def del: take_append)
qed

lemma fold_parse_header_lines:
  "list_all header_ok hs \<Longrightarrow>
    fold parse_header_line (map header_text hs) msg = fold store_header hs msg"
  by (induction hs arbitrary: msg) (simp_all add: parse_header_line_def)

lemma store_header_fields:
  "store_header (k, v) m =
     m\<lparr>msg_headers := AList.update k v (msg_headers m),
       msg_cseq := (if k = ''CSeq'' then word_of_int (atoi v) else msg_cseq m),
       msg_session_id := (if k = ''Session'' then session_part v else msg_session_id m),
       msg_transport := (if k = ''Transport'' then v else msg_transport m)\<rparr>"
  by (simp add: store_header_def set_header_def)

lemma fold_store_headers:
  "distinct (map fst hs) \<Longrightarrow> fold store_header hs msg =
    msg\<lparr>msg_headers := fold (\<lambda>kv. AList.update (fst kv) (snd kv)) hs (msg_headers msg),
        msg_cseq := (case map_of hs ''CSeq'' of None \<Rightarrow> msg_cseq msg | Some v \<Rightarrow> word_of_int (atoi v)),
        msg_session_id :=
          (case map_of hs ''Session'' of None \<Rightarrow> msg_session_id msg | Some v \<Rightarrow> session_part v),
        msg_transport :=
          (case map_of hs ''Transport'' of None \<Rightarrow> msg_transport msg | Some v \<Rightarrow> v)\<rparr>"
proof (induction hs arbitrary: msg)
  case (Cons kv hs)
  obtain k v where kv: "kv = (k, v)" by (cases kv)
  with Cons.prems have "map_of hs k = None" "distinct (map fst hs)"
    by (simp_all add: map_of_eq_None_iff)
  with Cons.IH kv show ?case
    by (simp add: store_header_fields split: option.split)
qed simp

lemma rtsp_serialize_block:
  "rtsp_serialize m =
    header_block (start_line m # map header_text (wire_headers m)) @ msg_body m"
proof -
  have "concat (map (\<lambda>(key, val). if key = ''CSeq'' then [] else key @ '': '' @ val @ CRLF) hs) =
      concat (map (\<lambda>l. l @ CRLF) (map header_text (filter (\<lambda>kv. fst kv \<noteq> ''CSeq'') hs)))" for hs
    by (induction hs) (auto simp: header_text_def)
  then show ?thesis
    by (simp add: rtsp_serialize_def wire_headers_def header_block_def header_text_def)
qed

lemma map_of_filter_other: "k \<noteq> k' \<Longrightarrow> map_of (filter (\<lambda>kv. fst kv \<noteq> k') hs) k = map_of hs k"
  by (induction hs) auto

lemma wire_headers_facts:
  assumes "wire_ok m"
  shows "distinct (map fst (wire_headers m))" "list_all header_ok (wire_headers m)"
    and "map_of (wire_headers m) ''CSeq'' = Some (dec_nat (unat (msg_cseq m)))"
    and "k \<noteq> ''CSeq'' \<Longrightarrow> k \<noteq> ''Content-Length'' \<Longrightarrow> map_of (wire_headers m) k = map_of (msg_headers m) k"
    and "map_of (wire_headers m) ''Content-Length'' =
      (if msg_body m \<noteq> [] then Some (dec_nat (length (msg_body m))) else None)"
proof -
  have base: "distinct (map fst (msg_headers m))" "list_all header_ok (msg_headers m)"
    "''Content-Length'' \<notin> fst ` set (msg_headers m)"
    using assms by (simp_all add: wire_ok_def)
  have d: "distinct (map fst (filter P (msg_headers m)))" for P
    using base(1) by (rule distinct_map_filter)
  have "map_of (filter (\<lambda>kv. fst kv \<noteq> ''CSeq'') (msg_headers m)) ''Content-Length'' = None"
    using base(3) by (auto simp: map_of_eq_None_iff)
  then show "map_of (wire_headers m) ''Content-Length'' =
      (if msg_body m \<noteq> [] then Some (dec_nat (length (msg_body m))) else None)"
    by (auto simp: wire_headers_def map_add_def)
  show "distinct (map fst (wire_headers m))"
    using d base(3) by (auto simp: wire_headers_def)
  show "list_all header_ok (wire_headers m)"
    using base(2) by (auto simp: wire_headers_def list_all_iff header_ok_def)
  show "map_of (wire_headers m) ''CSeq'' = Some (dec_nat (unat (msg_cseq m)))"
    by (simp add: wire_headers_def)
  show "k \<noteq> ''CSeq'' \<Longrightarrow> k \<noteq> ''Content-Length'' \<Longrightarrow> map_of (wire_headers m) k = map_of (msg_headers m) k"
    by (auto simp: wire_headers_def map_add_def map_of_filter_other split: option.splits)
qed

lemma parse_start_line:
  assumes "wire_ok m"
  shows "parse_first_line (start_line m) rtsp_message_new =
    (True, rtsp_message_new
       \<lparr>msg_type := msg_type m, msg_version := msg_version m,
        msg_method := (if msg_type m = KRequest then msg_method m else KNone),
        msg_url := (if msg_type m = KRequest then msg_url m else []),
        msg_status_code := (if msg_type m = KRequest then 0 else msg_status_code m),
        msg_reason := (if msg_type m = KRequest then [] else msg_reason m)\<rparr>)"
    and "line_ok (start_line m)"
proof -
  have "msg_type m = KRequest \<or> msg_type m = KResponse"
    using assms by (cases "msg_type m") (simp_all add: wire_ok_def)
  then show "parse_first_line (start_line m) rtsp_message_new =
    (True, rtsp_message_new
       \<lparr>msg_type := msg_type m, msg_version := msg_version m,
        msg_method := (if msg_type m = KRequest then msg_method m else KNone),
        msg_url := (if msg_type m = KRequest then msg_url m else []),
        msg_status_code := (if msg_type m = KRequest then 0 else msg_status_code m),
        msg_reason := (if msg_type m = KRequest then [] else msg_reason m)\<rparr>)"
    using assms
    by (auto simp: wire_ok_def start_line_def parse_first_line_request [simplified]
        parse_first_line_response [simplified] rtsp_message_new_def)
  show "line_ok (start_line m)"
    using assms by (auto simp: wire_ok_def start_line_def line_ok_def split: rtsp_message_type.splits)
qed

text \<open>A complete header block at the front of the buffer is cut into its lines.\<close>

lemma rtsp_parse_block:
  assumes "\<forall>l \<in> set (first # ls). line_ok l" "parse_first_line first msg = (True, msg1)"
    "length (header_block (first # ls)) < 2 ^ 31"
  shows "rtsp_parse (header_block (first # ls) @ rest) msg =
    parse_body (length (header_block (first # ls))) (header_block (first # ls) @ rest)
      (fold parse_header_line ls msg1)"
  using assms unfolding rtsp_parse_as_block parse_body_take by (rule parse_block_printed)

lemma rtsp_serialize_bounds:
  assumes "wire_ok m"
  shows "length (header_block (start_line m # map header_text (wire_headers m))) +
    length (msg_body m) < 2 ^ 31"
  using assms by (simp add: wire_ok_def rtsp_serialize_block del: header_block_simps)

lemma wire_content_length:
  assumes "wire_ok m"
  shows "content_length (wire_headers m) = length (msg_body m)"
  using wire_headers_facts(5) [OF assms] rtsp_serialize_bounds [OF assms]
  by (simp add: content_length_def size_of_atoll_dec)

lemma session_part_Nil [simp]: "session_part [] = []"
  by (simp add: session_part_def substr_def split: option.split)

lemma rtsp_put_body_fields:
  "rtsp_put_body body m =
    m\<lparr>msg_body := body, msg_sdp := (if says_sdp (msg_headers m) then body else msg_sdp m)\<rparr>"
  by (simp add: rtsp_put_body_def says_sdp_def Let_def split: option.split)

lemma parse_body_complete:
  assumes "content_length (msg_headers msg) = length body" "length block + length body < 2 ^ 31"
  shows "parse_body (length block) (block @ body @ rest) msg =
    Inr (True,
      (if body = [] then msg
       else msg\<lparr>msg_body := body, msg_sdp := (if says_sdp (msg_headers msg) then body else msg_sdp msg)\<rparr>),
      length block + length body)"
  unfolding parse_body_take take_body_complete [of msg_headers, OF assms]
  by (simp add: rtsp_put_body_fields)

lemma rtsp_parse_serialize:
  assumes "wire_ok m"
  shows "rtsp_parse (rtsp_serialize m @ rest) rtsp_message_new =
    Inr (True, rtsp_received m, length (rtsp_serialize m))"
proof -
  let ?ls = "map header_text (wire_headers m)"
  let ?block = "header_block (start_line m # ?ls)"
  note facts = wire_headers_facts [OF assms]
  have lines: "\<forall>l \<in> set (start_line m # ?ls). line_ok l"
    using facts(2) parse_start_line(2) [OF assms] by (auto simp: list_all_iff)
  have len: "length ?block + length (msg_body m) < 2 ^ 31"
    using assms by (rule rtsp_serialize_bounds)
  have ty: "msg_type m \<noteq> KUnknown" using assms by (auto simp: wire_ok_def)
  have cl: "content_length (wire_headers m) = length (msg_body m)"
    using assms by (rule wire_content_length)
  have upd: "fold (\<lambda>kv. AList.update (fst kv) (snd kv)) (wire_headers m) [] = wire_headers m"
    using fold_update_new [of "[]" "wire_headers m"] facts(1) by simp
  have hd: "map_of (wire_headers m) k = map_of (msg_headers m) k"
    if "k \<in> {''Session'', ''Transport'', ''Content-Type''}" for k
    using that by (intro facts(4)) auto
  have sdp: "says_sdp (wire_headers m) = says_sdp (msg_headers m)"
    by (simp add: says_sdp_def hd)
  define stored where "stored = fold store_header (wire_headers m)
    (snd (parse_first_line (start_line m) rtsp_message_new))"
  have stored: "stored = (rtsp_received m)\<lparr>msg_body := [], msg_sdp := []\<rparr>"
    unfolding stored_def parse_start_line(1) [OF assms] fold_store_headers [OF facts(1)]
    using ty
    by (cases "msg_type m")
      (simp_all add: rtsp_message_new_def upd facts(3) hd word_of_atoi_dec rtsp_received_def Let_def
        split: option.split)
  have "rtsp_parse (rtsp_serialize m @ rest) rtsp_message_new =
      parse_body (length ?block) (?block @ msg_body m @ rest) stored"
    using rtsp_parse_block [OF lines parse_start_line(1) [OF assms] add_lessD1 [OF len], of "msg_body m @ rest"]
    unfolding rtsp_serialize_block append_assoc stored_def fold_parse_header_lines [OF facts(2)]
      parse_start_line(1) [OF assms] by (simp only: snd_conv)
  also have "\<dots> = Inr (True, rtsp_received m, length (rtsp_serialize m))"
    unfolding rtsp_serialize_block length_append
    using parse_body_complete [of stored "msg_body m" ?block rest] len cl stored sdp
    by (auto simp: rtsp_received_def Let_def says_sdp_def simp del: header_block_simps
        split: option.splits)
  finally show ?thesis .
qed

text \<open>
  C14. Printing and parsing are inverse: a message whose fields can be written down (no line
  feeds or blanks where they would end a field, distinct header names, \<open>Content-Length\<close> left
  to \<open>serialize\<close>, less than 2 GiB) is read back by \<open>parse\<close> from any buffer that starts with
  its printed form, with all its fields, whatever bytes follow, and exactly its printed length
  is consumed. The header list is arbitrary, hence so is the iteration order of the
  \<open>unordered_map\<close> it is printed from.
\<close>

theorem rtsp_roundtrip:
  assumes "wire_ok m"
  shows "rtsp_parse (rtsp_serialize m @ rest) rtsp_message_new =
    Inr (True, rtsp_received m, length (rtsp_serialize m))"
  using assms by (rule rtsp_parse_serialize)

theorem rtsp_roundtrip_witness:
  "let m = (describe_response 7 ''v=0'' ''0a1b2c3d'') in
   rtsp_parse (rtsp_serialize m @ ''$'') rtsp_message_new =
     Inr (True, rtsp_received m, length (rtsp_serialize m)) \<and> msg_sdp (rtsp_received m) = ''v=0''"
proof -
  have "wire_ok (describe_response 7 ''v=0'' ''0a1b2c3d'')" by code_simp
  from rtsp_roundtrip [OF this, of "''$''"]
  have "rtsp_parse (rtsp_serialize (describe_response 7 ''v=0'' ''0a1b2c3d'') @ ''$'') rtsp_message_new =
    Inr (True, rtsp_received (describe_response 7 ''v=0'' ''0a1b2c3d''),
      length (rtsp_serialize (describe_response 7 ''v=0'' ''0a1b2c3d'')))" .
  moreover have "msg_sdp (rtsp_received (describe_response 7 ''v=0'' ''0a1b2c3d'')) = ''v=0''"
    by code_simp
  ultimately show ?thesis unfolding Let_def by blast
qed

end
