(* ===== verification/Rtsp_Frames.thy ===== *)
theory Rtsp_Frames
  imports Rtsp_Protocol
begin

text \<open>
  One turn of the loops \<open>RtspSession::handleRtspMessage\<close> (\<open>src/src/rtsp_session.cpp\<close>) and
  \<open>RtspSource::handleMessage\<close> (\<open>src/src/rtsp_source.cpp\<close>), which cut the same stream: an
  interleaved packet announced by a dollar sign, or an RTSP message. The interpretation of
  \<open>framer\<close> gives the loops their termination and their independence of how TCP cuts the
  stream.
\<close>

datatype rtsp_frame = Interleaved u8 bytes | Message rtsp_message

definition byte_of :: "char \<Rightarrow> u8" where
  "byte_of c = word_of_nat (of_char c)"

definition char_of_byte :: "u8 \<Rightarrow> char" where
  "char_of_byte w = char_of (unat w)"

text \<open>\<open>(static_cast<uint16_t>(hi) << 8) | lo\<close>\<close>

definition be16 :: "u8 \<Rightarrow> u8 \<Rightarrow> u16" where
  "be16 hi lo = or (push_bit 8 (ucast hi)) (ucast lo)"

definition rtsp_next_frame :: "bytes \<Rightarrow> rtsp_frame scan" where
  "rtsp_next_frame bs =
     (if bs \<noteq> [] \<and> hd bs = CHR ''$'' then
        if length bs < 4 then Wait
        else
          let channel = byte_of (bs ! 1);
              rtpLen = unat (be16 (byte_of (bs ! 2)) (byte_of (bs ! 3)))
          in if length bs < 4 + rtpLen then Wait
             else Item (Interleaved channel (take rtpLen (drop 4 bs))) (4 + rtpLen)
      else
        (case rtsp_parse bs rtsp_message_new of
           Inl e \<Rightarrow> Fail e
         | Inr (ok, msg, consumed) \<Rightarrow> if ok then Item (Message msg) consumed else Wait))"

text \<open>
  The channels of an \<open>interleaved=a-b\<close> in a \<open>Transport\<close> value: the same lines in
  \<open>RtspSession::handleSetup\<close> and \<open>RtspSource::handleResponse\<close>. The given pair is kept
  when they are not there.
\<close>

definition interleaved_channels :: "bytes \<Rightarrow> u8 \<times> u8 \<Rightarrow> u8 \<times> u8" where
  "interleaved_channels tp chans =
     (case str_find tp ''interleaved='' 0 of
        None \<Rightarrow> chans
      | Some pos \<Rightarrow>
          (case find_char tp (CHR ''-'') (pos + 12) of
             None \<Rightarrow> chans
           | Some dash \<Rightarrow>
               (word_of_int (atoi (drop (pos + 12) tp)), word_of_int (atoi (drop (dash + 1) tp)))))"

text \<open>Two numbers with a dash between them, at the position where a search for their name ends.\<close>

lemma dash_after_dec: "find_char (pre @ dec_nat n @ CHR ''-'' # rest) (CHR ''-'') (length pre) =
    Some (length pre + length (dec_nat n))"
proof -
  have "CHR ''-'' \<notin> set (dec_nat n)" using dec_nat_digits [of n] digit_char_facts(4) by metis
  then show ?thesis by (simp add: search_simps)
qed

lemma interleaved_channels_printed:
  assumes "str_find (pre @ dec_nat (unat a) @ CHR ''-'' # dec_nat (unat b) @ rest) ''interleaved='' 0 =
      Some (length pre - 12)" "12 \<le> length pre" "rest = [] \<or> \<not> c_isdigit (hd rest)"
  shows "interleaved_channels (pre @ dec_nat (unat a) @ CHR ''-'' # dec_nat (unat b) @ rest) chans = (a, b)"
proof -
  have small: "unat w < 2 ^ 31" for w :: u8
    using unsigned_less [of w, where 'a = nat] by simp
  have "atoi (dec_nat (unat a) @ CHR ''-'' # dec_nat (unat b) @ rest) = int (unat a)"
    by (rule atoi_dec_nat_before [OF small]) (simp add: c_isdigit_def)
  moreover have "atoi (dec_nat (unat b) @ rest) = int (unat b)"
    by (rule atoi_dec_nat_before [OF small assms(3)])
  ultimately show ?thesis
    using assms(1,2) dash_after_dec [of pre "unat a" "dec_nat (unat b) @ rest"]
    by (simp add: interleaved_channels_def)
qed

section \<open>A frame stays the same when more bytes arrive\<close>

text \<open>Away from a dollar sign the scanner is that of the shared parser.\<close>

lemma next_frame_parse:
  "\<not> (bs \<noteq> [] \<and> hd bs = CHR ''$'') \<Longrightarrow> rtsp_next_frame bs =
    (case rtsp_parse bs rtsp_message_new of
       Inl e \<Rightarrow> Fail e
     | Inr (ok, msg, consumed) \<Rightarrow> if ok then Item (Message msg) consumed else Wait)"
  by (auto simp: rtsp_next_frame_def)

lemmas rtsp_parse_bounds = parse_block_bounds [where first = parse_first_line and hdr = parse_header_line
    and hdrs = msg_headers and put = rtsp_put_body, folded rtsp_parse_as_block]

lemmas rtsp_parse_stable = parse_block_stable [where first = parse_first_line and hdr = parse_header_line
    and hdrs = msg_headers and put = rtsp_put_body, folded rtsp_parse_as_block]

interpretation rtspf: framer rtsp_next_frame "2 ^ 31"
proof
  fix bs cs :: bytes and x n e
  show "0 < n \<and> n \<le> length bs" if "rtsp_next_frame bs = Item x n"
    using that rtsp_parse_bounds [of bs rtsp_message_new]
    by (auto simp: rtsp_next_frame_def Let_def split: if_splits sum.splits)
  show "rtsp_next_frame (bs @ cs) = Item x n"
    if "rtsp_next_frame bs = Item x n" "length (bs @ cs) < 2 ^ 31"
  proof (cases "bs \<noteq> [] \<and> hd bs = CHR ''$''")
    case True
    with that show ?thesis
      by (auto simp: rtsp_next_frame_def Let_def nth_append split: if_splits)
  next
    case False
    with that obtain m where m: "rtsp_parse bs rtsp_message_new = Inr (True, m, n)" "x = Message m"
      by (auto simp: rtsp_next_frame_def split: sum.splits if_splits)
    have "bs \<noteq> []" using rtsp_parse_bounds [OF m(1)] by auto
    with False m that(2) rtsp_parse_stable [OF m(1), of cs] show ?thesis
      by (auto simp: rtsp_next_frame_def)
  qed
  show "rtsp_next_frame (bs @ cs) = Fail e"
    if "bs \<noteq> []" "rtsp_next_frame bs = Fail e" "length (bs @ cs) < 2 ^ 31"
  proof -
    from that(2) have "hd bs \<noteq> CHR ''$''" "rtsp_parse bs rtsp_message_new = Inl e"
      using that(1) by (auto simp: rtsp_next_frame_def Let_def split: if_splits sum.splits)
    with that rtsp_parse_stable [of bs rtsp_message_new "Inl e" cs] show ?thesis
      by (simp add: rtsp_next_frame_def)
  qed
qed

section \<open>Printed messages and packets are frames\<close>

lemma method_to_string_hd [simp]: "hd (method_to_string m @ r) \<noteq> CHR ''$''"
  by (cases m) simp_all

lemma rtsp_serialize_hd:
  assumes "wire_ok m"
  shows "rtsp_serialize m \<noteq> []" "hd (rtsp_serialize m) \<noteq> CHR ''$''"
proof -
  show "rtsp_serialize m \<noteq> []" by (simp add: rtsp_serialize_block)
  have "msg_type m = KResponse \<Longrightarrow> \<exists>v. msg_version m = CHR ''R'' # v"
    using assms by (cases "msg_version m") (auto simp: wire_ok_def)
  moreover have "msg_type m = KRequest \<or> msg_type m = KResponse"
    using assms by (cases "msg_type m") (simp_all add: wire_ok_def)
  ultimately show "hd (rtsp_serialize m) \<noteq> CHR ''$''"
    by (auto simp: rtsp_serialize_def start_line_def)
qed

lemma next_frame_message:
  "wire_ok m \<Longrightarrow> rtsp_next_frame (rtsp_serialize m @ rest) =
    Item (Message (rtsp_received m)) (length (rtsp_serialize m))"
  by (simp add: rtsp_next_frame_def rtsp_serialize_hd rtsp_parse_serialize)

text \<open>The four bytes \<open>RtspSession::onRtpData\<close> puts before a packet.\<close>

definition interleaved_header :: "u8 \<Rightarrow> nat \<Rightarrow> bytes" where
  "interleaved_header channel len =
     [CHR ''$'', char_of_byte channel,
      char_of_byte (and (word_of_nat (drop_bit 8 len)) 0xFF),
      char_of_byte (and (word_of_nat len) 0xFF)]"

lemma byte_of_char_of_byte [simp]: "byte_of (char_of_byte w) = w"
proof -
  have "unat w < 256" using unsigned_less [of w, where 'a = nat] by simp
  then show ?thesis by (simp add: byte_of_def char_of_byte_def)
qed

lemma unat_be16: "unat (be16 hi lo) = 256 * unat hi + unat lo"
proof -
  have b: "unat hi < 256" "unat lo < 256" using unsigned_less [of hi, where 'a = nat] unsigned_less [of lo, where 'a = nat] by simp_all
  have "and (push_bit 8 (unat hi)) (unat lo) = 0"
  proof (rule bit_eqI)
    fix n show "bit (and (push_bit 8 (unat hi)) (unat lo)) n \<longleftrightarrow> bit (0::nat) n"
      using bit_imp_le_length [of lo n] by (auto simp: bit_simps)
  qed
  then have "or (push_bit 8 (unat hi)) (unat lo) = push_bit 8 (unat hi) + unat lo"
    by (simp add: disjunctive_add_eq_or)
  moreover have "unat (be16 hi lo) = or (push_bit 8 (unat hi)) (unat lo)"
    unfolding be16_def
    by (rule bit_eqI) (auto simp: bit_simps dest: bit_imp_le_length)
  ultimately show ?thesis by (simp add: push_bit_eq_mult)
qed

lemma be16_split:
  assumes "len < 65536"
  shows "unat (be16 (and (word_of_nat (drop_bit 8 len)) 0xFF) (and (word_of_nat len) 0xFF)) = len"
proof -
  have m: "and w (0xFF :: 8 word) = w" for w
  proof -
    have "(0xFF :: 8 word) = - 1" by simp
    then show ?thesis by (simp only: and.right_neutral)
  qed
  have "len div 256 < 256" using assms by simp
  then show ?thesis
    unfolding unat_be16 m
    by (simp add: drop_bit_eq_div unsigned_of_nat take_bit_eq_mod)
qed

lemma next_frame_interleaved:
  assumes "length d < 65536"
  shows "rtsp_next_frame (interleaved_header ch (length d) @ d @ rest) =
    Item (Interleaved ch d) (4 + length d)"
  using be16_split [OF assms]
  by (simp add: rtsp_next_frame_def interleaved_header_def Let_def)

section \<open>Streams of frames\<close>

text \<open>What a peer writes for a frame, and what is read for it.\<close>

fun print_frame :: "rtsp_frame \<Rightarrow> bytes" where
  "print_frame (Message m) = rtsp_serialize m"
| "print_frame (Interleaved ch d) = interleaved_header ch (length d) @ d"

fun received_frame :: "rtsp_frame \<Rightarrow> rtsp_frame" where
  "received_frame (Message m) = Message (rtsp_received m)"
| "received_frame (Interleaved ch d) = Interleaved ch d"

fun frame_ok :: "rtsp_frame \<Rightarrow> bool" where
  "frame_ok (Message m) = wire_ok m"
| "frame_ok (Interleaved ch d) = (length d < 65536)"

lemma next_frame_printed:
  "frame_ok f \<Longrightarrow> rtsp_next_frame (print_frame f @ rest) =
    Item (received_frame f) (length (print_frame f))"
  by (cases f)
    (simp_all add: next_frame_message next_frame_interleaved, simp add: interleaved_header_def)

lemma print_frame_neq_Nil: "frame_ok f \<Longrightarrow> print_frame f \<noteq> []"
  by (cases f) (simp_all add: rtsp_serialize_hd interleaved_header_def)

lemma rtsp_feed_printed:
  assumes "list_all frame_ok fs" "concat chunks = concat (map print_frame fs)"
    "chunks \<noteq> []" "length (concat chunks) < 2 ^ 31" "act_all act (map received_frame fs) s = Inr s'"
  shows "\<exists>b. feed_chunks rtsp_next_frame act chunks (byte_buffer_new cap) s = Some (Inr (b, s')) \<and>
    bb_contents b = []"
  using assms
  by (intro rtspf.feed_printed [where pr = print_frame and rcv = received_frame and xs = fs])
    (auto simp: list_all_iff next_frame_printed print_frame_neq_Nil)

text \<open>
  C4. An RTSP connection reassembles the stream: if the peer writes any sequence of printable
  messages and interleaved packets (less than 2 GiB of them between two idle points) and TCP
  delivers the bytes cut into any chunks, the receive loop returns after each chunk, hands
  over exactly that sequence of frames in order, and is left with an empty buffer.
\<close>

theorem rtsp_stream_reassembly:
  assumes "list_all frame_ok fs" and "concat chunks = concat (map print_frame fs)"
    and "chunks \<noteq> []" and "length (concat chunks) < 2 ^ 31"
  shows "\<exists>b. feed_chunks rtsp_next_frame (\<lambda>f acc. Inr (acc @ [f])) chunks (byte_buffer_new cap) [] =
      Some (Inr (b, map received_frame fs)) \<and> bb_contents b = []"
  using assms by (intro rtsp_feed_printed) (simp_all add: act_all_collect)

theorem rtsp_stream_reassembly_witness:
  "let m = describe_request ''rtsp://h/cam'' 2; s = rtsp_serialize m;
       fs = [Interleaved 0 ''abc'', Message m, Interleaved 1 []] in
   \<exists>b. feed_chunks rtsp_next_frame (\<lambda>f acc. Inr (acc @ [f]))
      [''$'', [CHR 0x00, CHR 0x00, CHR 0x03, CHR ''a''], ''bc'' @ s @ ''$'',
       [CHR 0x01, CHR 0x00, CHR 0x00]] (byte_buffer_new 16) [] =
     Some (Inr (b, map received_frame fs)) \<and> bb_contents b = []"
proof -
  let ?m = "describe_request ''rtsp://h/cam'' 2"
  let ?fs = "[Interleaved 0 ''abc'', Message ?m, Interleaved 1 []]"
  have "list_all frame_ok ?fs" by code_simp
  moreover have "concat [''$'', [CHR 0x00, CHR 0x00, CHR 0x03, CHR ''a''],
      ''bc'' @ rtsp_serialize ?m @ ''$'', [CHR 0x01, CHR 0x00, CHR 0x00]] = concat (map print_frame ?fs)"
    by code_simp
  moreover have "length (concat [''$'', [CHR 0x00, CHR 0x00, CHR 0x03, CHR ''a''],
      ''bc'' @ rtsp_serialize ?m @ ''$'', [CHR 0x01, CHR 0x00, CHR 0x00]]) < 2 ^ 31"
    by code_simp
  ultimately show ?thesis unfolding Let_def by (intro rtsp_stream_reassembly) simp_all
qed

section \<open>Negative content lengths\<close>



end
