(* ===== verification/Rtp_Packet.thy ===== *)
theory Rtp_Packet
  imports Rtsp_Frames "HOL-Library.Monad_Syntax"
begin

text \<open>
  \<open>RtpPacket\<close> of \<open>src/src/rtsp_protocol.h\<close> and \<open>rtsp_protocol.cpp\<close>. A read of \<open>data[i]\<close> is
  \<open>byte_at\<close>, which is \<^theory_text>\<open>None\<close> beyond the end: that \<open>parse\<close> never returns
  \<^theory_text>\<open>None\<close> is its memory safety. The payload pointer and size are the list of
  payload bytes. \<open>parse\<close> fills the object it is called on, also when it returns \<open>false\<close>.
\<close>

record rtp_packet =
  rtp_raw :: "u8 list"
  rtp_header_size :: nat
  rtp_payload :: "u8 list"
  rtp_version :: u8
  rtp_padding :: bool
  rtp_extension :: bool
  rtp_csrc_count :: u8
  rtp_marker :: bool
  rtp_payload_type :: u8
  rtp_seq :: u16
  rtp_timestamp :: u32
  rtp_ssrc :: u32

definition rtp_packet_new :: rtp_packet where
  "rtp_packet_new =
     \<lparr>rtp_raw = [], rtp_header_size = 0, rtp_payload = [], rtp_version = 2, rtp_padding = False,
      rtp_extension = False, rtp_csrc_count = 0, rtp_marker = False, rtp_payload_type = 0,
      rtp_seq = 0, rtp_timestamp = 0, rtp_ssrc = 0\<rparr>"

definition byte_at :: "u8 list \<Rightarrow> nat \<Rightarrow> u8 option" where
  "byte_at data i = (if i < length data then Some (data ! i) else None)"

definition be32 :: "u8 \<Rightarrow> u8 \<Rightarrow> u8 \<Rightarrow> u8 \<Rightarrow> u32" where
  "be32 a b c d =
     or (or (or (push_bit 24 (ucast a)) (push_bit 16 (ucast b))) (push_bit 8 (ucast c))) (ucast d)"

text \<open>The fixed fields of the first 12 bytes after the version check.\<close>

definition rtp_fixed_fields :: "rtp_packet \<Rightarrow> u8 list \<Rightarrow> rtp_packet option" where
  "rtp_fixed_fields p data = do {
     b0 \<leftarrow> byte_at data 0; b1 \<leftarrow> byte_at data 1; b2 \<leftarrow> byte_at data 2; b3 \<leftarrow> byte_at data 3;
     b4 \<leftarrow> byte_at data 4; b5 \<leftarrow> byte_at data 5; b6 \<leftarrow> byte_at data 6; b7 \<leftarrow> byte_at data 7;
     b8 \<leftarrow> byte_at data 8; b9 \<leftarrow> byte_at data 9; b10 \<leftarrow> byte_at data 10; b11 \<leftarrow> byte_at data 11;
     Some (p\<lparr>rtp_padding := and b0 0x20 \<noteq> 0,
             rtp_extension := and b0 0x10 \<noteq> 0,
             rtp_csrc_count := and b0 0x0F,
             rtp_marker := and b1 0x80 \<noteq> 0,
             rtp_payload_type := and b1 0x7F,
             rtp_seq := be16 b2 b3,
             rtp_timestamp := be32 b4 b5 b6 b7,
             rtp_ssrc := be32 b8 b9 b10 b11\<rparr>)
   }"

text \<open>The header size with the extension header, and whether the extension is there at all.\<close>

definition rtp_extended_size :: "rtp_packet \<Rightarrow> u8 list \<Rightarrow> nat \<Rightarrow> (bool \<times> nat) option" where
  "rtp_extended_size p data header_size =
     (if rtp_extension p then
        if header_size + 4 > length data then Some (False, header_size)
        else do {
          hi \<leftarrow> byte_at data (header_size + 2);
          lo \<leftarrow> byte_at data (header_size + 3);
          Some (True, header_size + (4 + unat (be16 hi lo) * 4))
        }
      else Some (True, header_size))"

definition rtp_payload_size :: "rtp_packet \<Rightarrow> u8 list \<Rightarrow> nat option" where
  "rtp_payload_size p data =
     (let payload_size = length data - rtp_header_size p in
      if rtp_padding p \<and> length data > 0 then do {
        pad_len \<leftarrow> byte_at data (length data - 1);
        Some (if unat pad_len < payload_size then payload_size - unat pad_len else payload_size)
      } else Some payload_size)"

definition rtp_parse :: "rtp_packet \<Rightarrow> u8 list \<Rightarrow> (bool \<times> rtp_packet) option" where
  "rtp_parse p data =
     (if length data < 12 then Some (False, p)
      else do {
        b0 \<leftarrow> byte_at data 0;
        let p = p\<lparr>rtp_raw := data, rtp_version := and (drop_bit 6 b0) 0x03\<rparr>;
        if rtp_version p \<noteq> 2 then Some (False, p)
        else do {
          p \<leftarrow> rtp_fixed_fields p data;
          (present, header_size) \<leftarrow> rtp_extended_size p data (12 + unat (rtp_csrc_count p) * 4);
          let p = p\<lparr>rtp_header_size := header_size\<rparr>;
          if \<not> present then Some (False, p)
          else if header_size > length data then Some (False, p)
          else do {
            payload_size \<leftarrow> rtp_payload_size p data;
            Some (True, p\<lparr>rtp_payload := take payload_size (drop header_size data)\<rparr>)
          }
        }
      })"

definition rtp_build :: "u8 \<Rightarrow> bool \<Rightarrow> u16 \<Rightarrow> u32 \<Rightarrow> u32 \<Rightarrow> u8 list \<Rightarrow> u8 list" where
  "rtp_build pt marker sq ts ssrc payload =
     [0x80, or (if marker then 0x80 else 0) (and pt 0x7F),
      ucast (and (drop_bit 8 sq) 0xFF), ucast (and sq 0xFF),
      ucast (and (drop_bit 24 ts) 0xFF), ucast (and (drop_bit 16 ts) 0xFF),
      ucast (and (drop_bit 8 ts) 0xFF), ucast (and ts 0xFF),
      ucast (and (drop_bit 24 ssrc) 0xFF), ucast (and (drop_bit 16 ssrc) 0xFF),
      ucast (and (drop_bit 8 ssrc) 0xFF), ucast (and ssrc 0xFF)] @ payload"

lemma and_FF: "and (w :: 'a::len word) 0xFF = take_bit 8 w"
proof -
  have "(0xFF :: 'a word) = mask 8" by (simp add: mask_eq_exp_minus_1)
  then show ?thesis by (simp only: take_bit_eq_mask)
qed

lemma be16_bytes: "be16 (ucast (and (drop_bit 8 w) 0xFF)) (ucast (and w 0xFF)) = w"
  unfolding and_FF be16_def by (rule bit_word_eqI) (auto simp: bit_simps)

lemma be32_bytes:
  "be32 (ucast (and (drop_bit 24 w) 0xFF)) (ucast (and (drop_bit 16 w) 0xFF))
     (ucast (and (drop_bit 8 w) 0xFF)) (ucast (and w 0xFF)) = w"
  unfolding and_FF be32_def
proof (rule bit_word_eqI)
  fix n
  assume "n < LENGTH(32)"
  consider "n < 8" | "8 \<le> n" "n < 16" | "16 \<le> n" "n < 24" | "24 \<le> n" by linarith
  then show "bit (or (or (or (push_bit 24 (ucast (ucast (take_bit 8 (drop_bit 24 w)) :: u8) :: u32))
      (push_bit 16 (ucast (ucast (take_bit 8 (drop_bit 16 w)) :: u8))))
      (push_bit 8 (ucast (ucast (take_bit 8 (drop_bit 8 w)) :: u8))))
      (ucast (ucast (take_bit 8 w) :: u8))) n \<longleftrightarrow> bit w n"
    using \<open>n < LENGTH(32)\<close> by cases (auto simp: bit_simps)
qed

lemma marker_byte:
  "(and (or (if m then 0x80 else 0) (and pt 0x7F)) (0x80 :: u8) \<noteq> 0) = m"
  "and (or (if m then 0x80 else 0) (and pt 0x7F)) (0x7F :: u8) = and pt 0x7F"
proof -
  have "and (or (0x80 :: u8) (and pt 0x7F)) 0x80 = 0x80" "and (and pt 0x7F) (0x80 :: u8) = 0"
    "and (or (0x80 :: u8) (and pt 0x7F)) 0x7F = and pt 0x7F" "and (and pt 0x7F) (0x7F :: u8) = and pt 0x7F"
    by (simp_all add: bit.conj_disj_distrib2 and.assoc)
  then show "(and (or (if m then 0x80 else 0) (and pt 0x7F)) (0x80 :: u8) \<noteq> 0) = m"
    "and (or (if m then 0x80 else 0) (and pt 0x7F)) (0x7F :: u8) = and pt 0x7F"
    by (cases m; simp)+
qed

lemma byte_at_Some [simp]: "i < length data \<Longrightarrow> byte_at data i = Some (data ! i)"
  by (simp add: byte_at_def)

lemma byte_at_fixed: "12 \<le> length data \<Longrightarrow> i < 12 \<Longrightarrow> byte_at data i = Some (data ! i)"
  by (simp add: byte_at_def)

lemma rtp_fixed_fields_total:
  "12 \<le> length data \<Longrightarrow> \<exists>q. rtp_fixed_fields p data = Some q"
  by (simp add: rtp_fixed_fields_def byte_at_fixed)

lemma rtp_extended_size_total:
  "\<exists>present n. rtp_extended_size p data h = Some (present, n) \<and> h \<le> n"
  by (cases "rtp_extension p"; cases "length data < h + 4") (auto simp: rtp_extended_size_def)

lemma rtp_payload_size_total: "\<exists>n. rtp_payload_size p data = Some n"
  by (cases "data = []") (simp_all add: rtp_payload_size_def Let_def)



text \<open>
  C34. Building and parsing an RTP packet are inverse: every packet \<open>build\<close> makes is accepted
  by \<open>parse\<close>, which returns the sequence number, timestamp, source and marker it was built
  with, the low seven bits of the payload type, and exactly the payload.
\<close>

theorem rtp_build_parse:
  "\<exists>q. rtp_parse p (rtp_build pt marker sq ts ssrc payload) = Some (True, q) \<and>
    rtp_version q = 2 \<and> \<not> rtp_padding q \<and> \<not> rtp_extension q \<and> rtp_csrc_count q = 0 \<and>
    rtp_marker q = marker \<and> rtp_payload_type q = and pt 0x7F \<and> rtp_seq q = sq \<and>
    rtp_timestamp q = ts \<and> rtp_ssrc q = ssrc \<and> rtp_header_size q = 12 \<and> rtp_payload q = payload"
  by (simp add: rtp_parse_def rtp_build_def rtp_fixed_fields_def byte_at_def Let_def
      rtp_extended_size_def rtp_payload_size_def be16_bytes be32_bytes marker_byte)

text \<open>
  The padding of an accepted packet is removed only when some payload is left before it:
  the last byte counts the padding, and a packet whose payload is nothing but padding keeps
  all of it as payload.
\<close>

theorem rtp_all_padding_kept:
  assumes "length pad = n" and "0 < n" and "n < 256" and "last pad = word_of_nat n"
  shows "\<exists>q. rtp_parse p (0xA0 # tl (rtp_build pt marker sq ts ssrc pad)) = Some (True, q) \<and>
    rtp_padding q \<and> rtp_payload q = pad"
proof -
  have "pad \<noteq> []" using assms by auto
  then have "(0xA0 # tl (rtp_build pt marker sq ts ssrc pad)) !
      (length (0xA0 # tl (rtp_build pt marker sq ts ssrc pad)) - 1) = word_of_nat n"
    using assms by (simp add: rtp_build_def last_conv_nth nth_append)
  moreover have "unat (word_of_nat n :: u8) = n"
    using assms by (simp add: unsigned_of_nat take_bit_nat_eq_self)
  ultimately show ?thesis
    using assms
    by (simp add: rtp_parse_def rtp_build_def rtp_fixed_fields_def byte_at_def Let_def
        rtp_extended_size_def rtp_payload_size_def)
qed

theorem rtp_all_padding_kept_witness:
  "\<exists>q. rtp_parse rtp_packet_new (0xA0 # tl (rtp_build 96 False 1 2 3 [0, 0, 3])) = Some (True, q) \<and>
    rtp_padding q \<and> rtp_payload q = [0, 0, 3]"
  by (rule rtp_all_padding_kept [of _ 3]) simp_all

end
