(* ===== verification/Config.thy ===== *)
theory Config
  imports Relay_Prelude
begin

text \<open>
  The configuration parser of \<open>src/src/config.h\<close> and \<open>config.cpp\<close>: \<open>trim\<close>, the line loop of
  \<open>ConfigParser::parseString\<close>, and \<open>ConfigParser::parse\<close> with the file's content (or that it
  cannot be opened) as an argument. \<open>size_t\<close> fields are \<open>nat\<close>, reduced modulo \<open>2^64\<close> by the
  cast; \<open>uint16_t\<close> fields are words; \<open>int\<close> fields are \<open>int\<close>, in range because \<open>atoi\<close> is.
\<close>

record server_config =
  cfg_rtsp_port :: u16
  cfg_http_port :: u16
  cfg_io_threads :: int
  cfg_backlog :: int
  cfg_max_connections :: nat
  cfg_max_sources :: nat
  cfg_stats_interval_sec :: int

definition server_config_default :: server_config where
  "server_config_default =
     \<lparr>cfg_rtsp_port = 8554, cfg_http_port = 18080, cfg_io_threads = 4, cfg_backlog = 1024,
      cfg_max_connections = 2000, cfg_max_sources = 500, cfg_stats_interval_sec = 10\<rparr>"

definition is_blank :: "char \<Rightarrow> bool" where
  "is_blank c \<longleftrightarrow> c = CHR '' '' \<or> c = CHR 0x09 \<or> c = CR \<or> c = LF"

text \<open>\<open>find_first_not_of\<close> and \<open>find_last_not_of\<close> of the four blank characters.\<close>

definition find_first_not_blank :: "bytes \<Rightarrow> nat option" where
  "find_first_not_blank s =
     (if list_all is_blank s then None else Some (length (takeWhile is_blank s)))"

definition find_last_not_blank :: "bytes \<Rightarrow> nat option" where
  "find_last_not_blank s =
     (if list_all is_blank s then None
      else Some (length s - Suc (length (takeWhile is_blank (rev s)))))"

definition trim :: "bytes \<Rightarrow> bytes" where
  "trim s =
     (case find_first_not_blank s of
        None \<Rightarrow> []
      | Some start \<Rightarrow>
          (case find_last_not_blank s of
             None \<Rightarrow> []
           | Some stop \<Rightarrow> substr s start (stop - start + 1)))"

text \<open>The lines that successive \<open>std::getline\<close> calls return.\<close>

function getline_all :: "bytes \<Rightarrow> bytes list" where
  "getline_all s =
     (if s = [] then []
      else takeWhile (\<lambda>c. c \<noteq> LF) s # getline_all (tl (dropWhile (\<lambda>c. c \<noteq> LF) s)))"
  by pat_completeness auto
termination
proof (relation "measure length")
  fix s :: bytes
  assume "s \<noteq> []"
  then show "(tl (dropWhile (\<lambda>c. c \<noteq> LF) s), s) \<in> measure length"
    using length_dropWhile_le [of "\<lambda>c. c \<noteq> LF" s] by (cases s) (auto simp: le_imp_less_Suc diff_le_mono)
qed simp

declare getline_all.simps [simp del]

text \<open>One \<open>key=value\<close> of the \<open>server\<close> section.\<close>

definition config_assign :: "bytes \<Rightarrow> bytes \<Rightarrow> server_config \<Rightarrow> server_config" where
  "config_assign key val cfg =
     (if key = ''rtsp_port'' then cfg\<lparr>cfg_rtsp_port := word_of_int (atoi val)\<rparr>
      else if key = ''http_port'' then cfg\<lparr>cfg_http_port := word_of_int (atoi val)\<rparr>
      else if key = ''io_threads'' then cfg\<lparr>cfg_io_threads := atoi val\<rparr>
      else if key = ''backlog'' then cfg\<lparr>cfg_backlog := atoi val\<rparr>
      else if key = ''max_connections'' then
        cfg\<lparr>cfg_max_connections := nat (take_bit 64 (atoll val))\<rparr>
      else if key = ''max_sources'' then
        cfg\<lparr>cfg_max_sources := nat (take_bit 64 (atoll val))\<rparr>
      else if key = ''stats_interval_sec'' then cfg\<lparr>cfg_stats_interval_sec := atoi val\<rparr>
      else cfg)"

text \<open>One turn of the loop, on the current section and the configuration so far.\<close>

definition config_line :: "bytes \<Rightarrow> bytes \<times> server_config \<Rightarrow> bytes \<times> server_config" where
  "config_line raw st =
     (let line = trim raw; section = fst st; cfg = snd st in
      if line = [] \<or> hd line = CHR ''#'' then st
      else if hd line = CHR ''['' then
        (case find_char line (CHR '']'') 0 of
           None \<Rightarrow> st
         | Some stop \<Rightarrow> (trim (substr line 1 (stop - 1)), cfg))
      else
        (case find_char line (CHR ''='') 0 of
           None \<Rightarrow> st
         | Some eq \<Rightarrow>
             let key = trim (substr line 0 eq); val = trim (substr_from line (eq + 1))
             in if section = ''server'' then (section, config_assign key val cfg) else st))"

definition config_parse_string :: "bytes \<Rightarrow> server_config" where
  "config_parse_string content =
     snd (fold config_line (getline_all content) ([], server_config_default))"

text \<open>\<open>file\<close> is the content of the file, or \<^theory_text>\<open>None\<close> if it cannot be opened.\<close>

definition config_parse :: "bytes option \<Rightarrow> server_config" where
  "config_parse file =
     (case file of
        None \<Rightarrow> server_config_default
      | Some content \<Rightarrow> config_parse_string content)"

section \<open>Facts about the pieces\<close>

lemma trim_id:
  assumes "s \<noteq> []" "\<not> is_blank (hd s)" "\<not> is_blank (last s)"
  shows "trim s = s"
proof -
  have "takeWhile is_blank s = []" "takeWhile is_blank (rev s) = []"
    using assms by (cases s, auto) (cases s rule: rev_cases, auto)
  moreover have "\<not> list_all is_blank s" using assms by (cases s) auto
  ultimately show ?thesis
    using assms(1) by (simp add: trim_def find_first_not_blank_def find_last_not_blank_def substr_def)
qed

lemma trim_strips_blanks:
  assumes "list_all is_blank pre" "list_all is_blank post" "s \<noteq> []" "\<not> is_blank (hd s)" "\<not> is_blank (last s)"
  shows "trim (pre @ s @ post) = s"
proof -
  have nb: "\<not> list_all is_blank (pre @ s @ post)" using assms(3,4) by (cases s) auto
  have "takeWhile is_blank (pre @ s @ post) = pre"
    using assms(1,3,4) by (cases s) (auto simp: list_all_iff takeWhile_append)
  moreover have "takeWhile is_blank (rev (pre @ s @ post)) = rev post"
    using assms(2,3,5) by (cases s rule: rev_cases) (auto simp: list_all_iff takeWhile_append)
  moreover have "length s > 0" using assms(3) by simp
  ultimately show ?thesis
    using nb by (simp add: trim_def find_first_not_blank_def find_last_not_blank_def substr_def)
qed

lemma getline_all_line [simp]:
  "LF \<notin> set l \<Longrightarrow> getline_all (l @ LF # rest) = l # getline_all rest"
proof -
  assume "LF \<notin> set l"
  then have "takeWhile (\<lambda>c. c \<noteq> LF) (l @ LF # rest) = l"
    "dropWhile (\<lambda>c. c \<noteq> LF) (l @ LF # rest) = LF # rest"
    by (auto simp: takeWhile_append dropWhile_append)
  then show ?thesis by (simp add: getline_all.simps [of "l @ LF # rest"])
qed

lemma getline_all_lines:
  "\<forall>l \<in> set ls. LF \<notin> set l \<Longrightarrow> getline_all (concat (map (\<lambda>l. l @ [LF]) ls)) = ls"
  by (induction ls) (simp_all add: getline_all.simps [of "[]"])

lemma dec_nat_not_blank [simp]: "\<not> is_blank (hd (dec_nat n))" "\<not> is_blank (last (dec_nat n))"
proof -
  have "hd (dec_nat n) \<in> set (dec_nat n)" "last (dec_nat n) \<in> set (dec_nat n)" by simp_all
  moreover have "\<forall>c \<in> set (dec_nat n). \<not> is_blank c"
    using dec_nat_digits [of n] digit_char_facts by (fastforce simp: is_blank_def c_isspace_def)
  ultimately show "\<not> is_blank (hd (dec_nat n))" "\<not> is_blank (last (dec_nat n))" by auto
qed

lemma dec_int_not_blank [simp]:
  "dec_int i \<noteq> []" "\<not> is_blank (hd (dec_int i))" "\<not> is_blank (last (dec_int i))"
  by (simp_all add: dec_int_def, simp_all add: is_blank_def)

lemma config_line_assign:
  assumes "key \<noteq> []" "\<not> is_blank (hd key)" "\<not> is_blank (last key)" "hd key \<noteq> CHR ''#''"
    "hd key \<noteq> CHR ''[''" "CHR ''='' \<notin> set key" "val \<noteq> []" "\<not> is_blank (hd val)" "\<not> is_blank (last val)"
  shows "config_line (key @ CHR ''='' # val) (''server'', cfg) = (''server'', config_assign key val cfg)"
proof -
  have "trim (key @ CHR ''='' # val) = key @ CHR ''='' # val"
    using assms by (intro trim_id) auto
  then show ?thesis
    using assms by (simp add: config_line_def Let_def find_char_append substr_def trim_id)
qed

lemma config_line_comment:
  "trim l = [] \<or> hd (trim l) = CHR ''#'' \<Longrightarrow> config_line l st = st"
  by (simp add: config_line_def)

section \<open>Properties\<close>

text \<open>A configuration file in the format of \<open>conf/rtsp_relay.conf\<close>.\<close>

definition config_lines :: "server_config \<Rightarrow> bytes list" where
  "config_lines cfg =
     [''[server]'',
      ''rtsp_port='' @ dec_nat (unat (cfg_rtsp_port cfg)),
      ''http_port='' @ dec_nat (unat (cfg_http_port cfg)),
      ''io_threads='' @ dec_int (cfg_io_threads cfg),
      ''backlog='' @ dec_int (cfg_backlog cfg),
      ''max_connections='' @ dec_nat (cfg_max_connections cfg),
      ''max_sources='' @ dec_nat (cfg_max_sources cfg),
      ''stats_interval_sec='' @ dec_int (cfg_stats_interval_sec cfg)]"

definition config_in_range :: "server_config \<Rightarrow> bool" where
  "config_in_range cfg \<longleftrightarrow>
     cfg_max_connections cfg < 2 ^ 63 \<and> cfg_max_sources cfg < 2 ^ 63 \<and>
     list_all (\<lambda>i. - (2 ^ 31) \<le> i \<and> i < 2 ^ 31)
       [cfg_io_threads cfg, cfg_backlog cfg, cfg_stats_interval_sec cfg]"

lemma config_assign_words:
  "config_assign ''rtsp_port'' (dec_nat (unat p)) cfg = cfg\<lparr>cfg_rtsp_port := p\<rparr>"
  "config_assign ''http_port'' (dec_nat (unat p)) cfg = cfg\<lparr>cfg_http_port := p\<rparr>"
proof -
  have b: "unat p < 65536" "uint p < 65536"
    using unsigned_less [of p, where 'a = nat] unsigned_less [of p, where 'a = int] by simp_all
  have "- (2 ^ 31) \<le> (0 :: int)" by simp
  also have "0 \<le> uint p" by simp
  finally have lower: "- (2 ^ 31) \<le> uint p" .
  have "signed_take_bit 31 (uint p) = uint p"
    by (rule signed_take_bit_int_eq_self) (use b lower in simp_all)
  with b have "(word_of_int (atoi (dec_nat (unat p))) :: u16) = p"
    by (simp add: atoi_dec_nat)
  then show "config_assign ''rtsp_port'' (dec_nat (unat p)) cfg = cfg\<lparr>cfg_rtsp_port := p\<rparr>"
    "config_assign ''http_port'' (dec_nat (unat p)) cfg = cfg\<lparr>cfg_http_port := p\<rparr>"
    by (simp_all add: config_assign_def)
qed

lemma take_bit_atoll_dec: "n < 2 ^ 63 \<Longrightarrow> nat (take_bit 64 (atoll (dec_nat n))) = n"
  by (simp add: atoll_dec_nat take_bit_int_eq_self)

definition is_comment :: "bytes \<Rightarrow> bool" where
  "is_comment l \<longleftrightarrow> trim l = [] \<or> hd (trim l) = CHR ''#''"

lemma fold_config_comments:
  "fold config_line ls st = fold config_line (filter (\<lambda>l. \<not> is_comment l) ls) st"
  by (induction ls arbitrary: st) (simp_all add: is_comment_def config_line_comment)

lemma config_line_section: "config_line ''[server]'' st = (''server'', snd st)"
  by (simp add: config_line_def trim_def find_first_not_blank_def find_last_not_blank_def
      is_blank_def substr_def find_char_def str_find_def)

lemma fold_config_lines:
  assumes "config_in_range cfg"
  shows "fold config_line (config_lines cfg) ([], server_config_default) = (''server'', cfg)"
proof -
  have assign: "config_line (key @ CHR ''='' # val) (''server'', c) = (''server'', config_assign key val c)"
    if "key \<in> {''rtsp_port'', ''http_port'', ''io_threads'', ''backlog'', ''max_connections'',
      ''max_sources'', ''stats_interval_sec''}" "val \<noteq> []" "\<not> is_blank (hd val)" "\<not> is_blank (last val)"
    for key val c
    using that by (intro config_line_assign) (auto simp: is_blank_def)
  have unfolded: "config_lines cfg =
     [''[server]'',
      ''rtsp_port'' @ CHR ''='' # dec_nat (unat (cfg_rtsp_port cfg)),
      ''http_port'' @ CHR ''='' # dec_nat (unat (cfg_http_port cfg)),
      ''io_threads'' @ CHR ''='' # dec_int (cfg_io_threads cfg),
      ''backlog'' @ CHR ''='' # dec_int (cfg_backlog cfg),
      ''max_connections'' @ CHR ''='' # dec_nat (cfg_max_connections cfg),
      ''max_sources'' @ CHR ''='' # dec_nat (cfg_max_sources cfg),
      ''stats_interval_sec'' @ CHR ''='' # dec_int (cfg_stats_interval_sec cfg)]"
    by (simp add: config_lines_def)
  have rest: "config_assign ''io_threads'' v c = c\<lparr>cfg_io_threads := atoi v\<rparr>"
    "config_assign ''backlog'' v c = c\<lparr>cfg_backlog := atoi v\<rparr>"
    "config_assign ''max_connections'' v c = c\<lparr>cfg_max_connections := nat (take_bit 64 (atoll v))\<rparr>"
    "config_assign ''max_sources'' v c = c\<lparr>cfg_max_sources := nat (take_bit 64 (atoll v))\<rparr>"
    "config_assign ''stats_interval_sec'' v c = c\<lparr>cfg_stats_interval_sec := atoi v\<rparr>" for v c
    by (simp_all add: config_assign_def)
  show ?thesis
    unfolding unfolded fold_simps comp_def config_line_section snd_conv
    using assms
    by (simp only: assign insertI1 insertI2 dec_nat_neq_Nil dec_int_not_blank dec_nat_not_blank
        not_False_eq_True simp_thms config_assign_words rest)
      (simp add: config_in_range_def take_bit_atoll_dec atoi_dec_int server_config_default_def)
qed

text \<open>
  C38. Writing a configuration in the documented format and parsing it gives the
  configuration back, wherever blank lines and comment lines are put between its lines.
\<close>

theorem config_roundtrip:
  assumes "config_in_range cfg" and "\<forall>l \<in> set ls. LF \<notin> set l"
    and "filter (\<lambda>l. \<not> is_comment l) ls = config_lines cfg"
  shows "config_parse (Some (concat (map (\<lambda>l. l @ [LF]) ls))) = cfg"
  using assms fold_config_comments [of ls "([], server_config_default)"]
  by (simp add: config_parse_def config_parse_string_def getline_all_lines fold_config_lines)

theorem config_roundtrip_witness:
  "config_parse (Some (concat (map (\<lambda>l. l @ [LF])
     (''# ports'' # config_lines (server_config_default\<lparr>cfg_io_threads := -1\<rparr>) @ [''  '']))))
     = server_config_default\<lparr>cfg_io_threads := -1\<rparr>"
  by (rule config_roundtrip; code_simp)

text \<open>
  A port is not checked: whatever decimal number a file gives for \<open>rtsp_port\<close>, the
  server listens on its remainder modulo 65536, and on port 0 for a word.
\<close>

theorem config_port_wraps:
  assumes "n < 2 ^ 31"
  shows "cfg_rtsp_port (config_parse (Some (''[server]'' @ LF # ''rtsp_port='' @ dec_nat n @ [LF])))
    = word_of_nat n"
proof -
  have lf: "LF \<notin> set ''[server]''" "LF \<notin> set (''rtsp_port='' @ dec_nat n)" by simp_all
  have lines: "getline_all (''[server]'' @ LF # ''rtsp_port='' @ dec_nat n @ [LF]) =
      [''[server]'', ''rtsp_port='' @ dec_nat n]"
    using getline_all_lines [of "[''[server]'', ''rtsp_port='' @ dec_nat n]"] lf by simp
  have "config_line (''rtsp_port'' @ CHR ''='' # dec_nat n) (''server'', c) =
      (''server'', config_assign ''rtsp_port'' (dec_nat n) c)" for c
    by (rule config_line_assign) (simp_all, simp_all add: is_blank_def)
  then have "config_line (''rtsp_port='' @ dec_nat n) (''server'', c) =
      (''server'', config_assign ''rtsp_port'' (dec_nat n) c)" for c by simp
  moreover have "atoi (dec_nat n) = int n"
    using assms by (simp add: atoi_dec_nat signed_take_bit_int_eq_self)
  ultimately show ?thesis
    unfolding config_parse_def option.case config_parse_string_def lines
    by (simp add: config_line_section config_assign_def del: append.simps)
qed

theorem config_port_wraps_witness:
  "cfg_rtsp_port (config_parse (Some (''[server]'' @ LF # ''rtsp_port='' @ dec_nat 70000 @ [LF]))) = 4464"
  using config_port_wraps [of 70000] by simp

end
