(* ===== verification/Rtsp_Source.thy ===== *)
theory Rtsp_Source
  imports Rtsp_Frames
begin

text \<open>
  \<open>RtspSource\<close> of \<open>src/src/rtsp_source.h\<close> and \<open>rtsp_source.cpp\<close>: the upstream client with its
  handshake. A method takes the object and the list of effects so far (the calls into the
  connection, the event loop and the data callback, in order) and returns both, or the error
  it ends in. \<open>conn_\<close> is \<^theory_text>\<open>None\<close> for the empty pointer and otherwise says
  whether the connection is up; \<open>client_\<close> is whether the client object exists.
\<close>

datatype src_state =
  SrcIdle | SrcConnecting | SrcOptions | SrcDescribe | SrcSetup | SrcPlaying | SrcError

datatype src_effect =
  SrcConnect bytes u16      \<comment> \<open>a new \<open>TcpClient(host, port)\<close> and its \<open>connect()\<close>\<close>
| SrcSend bytes             \<comment> \<open>\<open>conn_->send(data)\<close>\<close>
| SrcReconnectTimer int     \<comment> \<open>\<open>addTimer(ms, reconnect)\<close> of the close callback\<close>
| SrcRetryTimer int         \<comment> \<open>\<open>addTimer(ms, retry)\<close> after a 404\<close>
| SrcForward bytes          \<comment> \<open>\<open>data_cb_(data, len)\<close>\<close>

record source =
  src_upstream_url :: bytes
  src_stream_path :: bytes
  src_upstream_host :: bytes
  src_upstream_port :: u16
  src_upstream_path :: bytes
  src_client :: bool
  src_conn :: "bool option"
  src_state :: src_state
  src_cseq :: u32
  src_session_id :: bytes
  src_sdp :: bytes
  src_rtp_channel :: u8
  src_rtcp_channel :: u8
  src_data_cb :: bool
  src_stopping :: bool
  src_bytes_received :: u64
  src_pkts_received :: u64

type_synonym src_run = "source \<times> src_effect list"

section \<open>Construction\<close>

definition parse_upstream_url :: "source \<Rightarrow> source" where
  "parse_upstream_url s =
     (let url = src_upstream_url s in
      case str_find url ''://'' 0 of
        None \<Rightarrow> s\<lparr>src_upstream_host := ''127.0.0.1'', src_upstream_port := 554, src_upstream_path := url\<rparr>
      | Some pos \<Rightarrow>
          let after_scheme = substr_from url (pos + 3);
              slash = find_char after_scheme (CHR ''/'') 0;
              host_port = (case slash of None \<Rightarrow> after_scheme | Some i \<Rightarrow> substr after_scheme 0 i);
              s = s\<lparr>src_upstream_path :=
                (case slash of None \<Rightarrow> ''/'' | Some i \<Rightarrow> substr_from after_scheme i)\<rparr>
          in case rfind_char host_port COLON of
               Some colon \<Rightarrow>
                 s\<lparr>src_upstream_host := substr host_port 0 colon,
                   src_upstream_port := word_of_int (atoi (substr_from host_port (colon + 1)))\<rparr>
             | None \<Rightarrow> s\<lparr>src_upstream_host := host_port, src_upstream_port := 554\<rparr>)"

definition source_new :: "bytes \<Rightarrow> bytes \<Rightarrow> source" where
  "source_new upstream_url stream_path =
     parse_upstream_url
       \<lparr>src_upstream_url = upstream_url, src_stream_path = stream_path, src_upstream_host = [],
        src_upstream_port = 554, src_upstream_path = [], src_client = False, src_conn = None,
        src_state = SrcIdle, src_cseq = 0, src_session_id = [], src_sdp = [], src_rtp_channel = 0,
        src_rtcp_channel = 1, src_data_cb = False, src_stopping = False, src_bytes_received = 0,
        src_pkts_received = 0\<rparr>"

section \<open>Sending requests\<close>

text \<open>\<open>conn_->send(data)\<close>: a null dereference when \<open>conn_\<close> is empty.\<close>

definition src_conn_send :: "bytes \<Rightarrow> src_run \<Rightarrow> cpp_error + src_run" where
  "src_conn_send data r =
     (case src_conn (fst r) of
        None \<Rightarrow> Inl NullDeref
      | Some up \<Rightarrow> Inr (fst r, snd r @ [SrcSend data]))"

definition src_next_cseq :: "source \<Rightarrow> source" where
  "src_next_cseq s = s\<lparr>src_cseq := src_cseq s + 1\<rparr>"

definition send_options :: "src_run \<Rightarrow> cpp_error + src_run" where
  "send_options r =
     (let s = src_next_cseq (fst r)
      in src_conn_send (rtsp_serialize (options_request (src_upstream_url s) (src_cseq s))) (s, snd r))"

definition send_describe :: "src_run \<Rightarrow> cpp_error + src_run" where
  "send_describe r =
     (let s = src_next_cseq (fst r)
      in src_conn_send (rtsp_serialize (describe_request (src_upstream_url s) (src_cseq s))) (s, snd r))"

definition source_setup_request :: "source \<Rightarrow> rtsp_message" where
  "source_setup_request s =
     set_header ''Transport'' ''RTP/AVP/TCP;unicast;interleaved=0-1''
       (setup_request (src_upstream_url s) (src_cseq s) 0 0 (src_session_id s))"

definition send_setup :: "src_run \<Rightarrow> cpp_error + src_run" where
  "send_setup r =
     (let s = src_next_cseq (fst r)
      in src_conn_send (rtsp_serialize (source_setup_request s)) (s, snd r))"

definition send_play :: "src_run \<Rightarrow> cpp_error + src_run" where
  "send_play r =
     (let s = src_next_cseq (fst r)
      in src_conn_send
           (rtsp_serialize (play_request (src_upstream_url s) (src_cseq s) (src_session_id s))) (s, snd r))"

definition send_teardown :: "src_run \<Rightarrow> cpp_error + src_run" where
  "send_teardown r =
     (if src_conn (fst r) \<noteq> Some True then Inr r
      else
        let s = src_next_cseq (fst r)
        in src_conn_send
             (rtsp_serialize (teardown_request (src_upstream_url s) (src_cseq s) (src_session_id s)))
             (s, snd r))"

section \<open>Life cycle and callbacks\<close>

definition connect_to_upstream :: "src_run \<Rightarrow> src_run" where
  "connect_to_upstream r =
     (let s = fst r in
      if src_stopping s then r
      else (s\<lparr>src_client := True\<rparr>,
            snd r @ [SrcConnect (src_upstream_host s) (src_upstream_port s)]))"

definition source_start :: "src_run \<Rightarrow> src_run" where
  "source_start r = connect_to_upstream ((fst r)\<lparr>src_stopping := False, src_state := SrcConnecting\<rparr>, snd r)"

definition source_stop :: "src_run \<Rightarrow> cpp_error + src_run" where
  "source_stop r =
     (let s = (fst r)\<lparr>src_stopping := True, src_state := SrcIdle\<rparr>;
          r = (if src_conn s = Some True then send_teardown (s, snd r) else Inr (s, snd r))
      in case r of
           Inl e \<Rightarrow> Inl e
         | Inr (s, es) \<Rightarrow> Inr (s\<lparr>src_client := False, src_conn := None\<rparr>, es))"

definition source_on_connect :: "src_run \<Rightarrow> cpp_error + src_run" where
  "source_on_connect r =
     send_options ((fst r)\<lparr>src_conn := Some True, src_state := SrcOptions, src_cseq := 0\<rparr>, snd r)"

text \<open>The close callback that \<open>connectToUpstream\<close> sets, and the timer it starts.\<close>

definition source_on_close :: "src_run \<Rightarrow> src_run" where
  "source_on_close r =
     (let s = (fst r)\<lparr>src_conn := None\<rparr> in
      if \<not> src_stopping s then (s\<lparr>src_state := SrcError\<rparr>, snd r @ [SrcReconnectTimer 3000])
      else (s, snd r))"

definition source_on_reconnect_timer :: "src_run \<Rightarrow> src_run" where
  "source_on_reconnect_timer r = connect_to_upstream ((fst r)\<lparr>src_state := SrcConnecting\<rparr>, snd r)"

text \<open>The timer that \<open>handleResponse\<close> starts after a 404.\<close>

definition source_on_retry_timer :: "src_run \<Rightarrow> src_run" where
  "source_on_retry_timer r =
     (if \<not> src_stopping (fst r)
      then connect_to_upstream ((fst r)\<lparr>src_state := SrcConnecting\<rparr>, snd r)
      else r)"

section \<open>Receiving\<close>

definition source_handle_interleaved :: "u8 \<Rightarrow> bytes \<Rightarrow> src_run \<Rightarrow> src_run" where
  "source_handle_interleaved channel data r =
     (let s = (fst r)\<lparr>src_bytes_received := src_bytes_received (fst r) + word_of_nat (length data),
                     src_pkts_received := src_pkts_received (fst r) + 1\<rparr>
      in (s, if src_data_cb s then snd r @ [SrcForward data] else snd r))"

definition handle_response :: "rtsp_message \<Rightarrow> src_run \<Rightarrow> cpp_error + src_run" where
  "handle_response resp r =
     (if msg_status_code resp \<noteq> 200 then
        if msg_status_code resp = 404 then Inr (fst r, snd r @ [SrcRetryTimer 5000])
        else Inr r
      else
        let s = (if msg_session_id resp \<noteq> [] then (fst r)\<lparr>src_session_id := msg_session_id resp\<rparr>
                 else fst r)
        in case src_state s of
             SrcOptions \<Rightarrow> send_describe (s\<lparr>src_state := SrcDescribe\<rparr>, snd r)
           | SrcDescribe \<Rightarrow> send_setup (s\<lparr>src_sdp := msg_sdp resp, src_state := SrcSetup\<rparr>, snd r)
           | SrcSetup \<Rightarrow>
               let chans = (case map_of (msg_headers resp) ''Transport'' of
                              None \<Rightarrow> (src_rtp_channel s, src_rtcp_channel s)
                            | Some tp \<Rightarrow>
                                interleaved_channels tp (src_rtp_channel s, src_rtcp_channel s))
               in send_play (s\<lparr>src_rtp_channel := fst chans, src_rtcp_channel := snd chans,
                               src_state := SrcPlaying\<rparr>, snd r)
           | _ \<Rightarrow> Inr (s, snd r))"

definition source_on_frame :: "rtsp_frame \<Rightarrow> src_run \<Rightarrow> cpp_error + src_run" where
  "source_on_frame f r =
     (case f of
        Interleaved channel data \<Rightarrow> Inr (source_handle_interleaved channel data r)
      | Message msg \<Rightarrow> handle_response msg r)"

definition source_handle_message ::
  "byte_buffer \<Rightarrow> src_run \<Rightarrow> (cpp_error + byte_buffer \<times> src_run) option" where
  "source_handle_message b r = message_loop rtsp_next_frame source_on_frame b r"

section \<open>Runs of a source\<close>

text \<open>
  What can happen to a source: the calls of the relay manager and the callbacks. A connection
  that has been replaced keeps its message callback, so a frame can arrive in any state; the
  connect and close callbacks belong to the client object and need it to exist.
\<close>

datatype src_event =
  EvStart | EvStop | EvConnected | EvConnLost | EvClosed | EvReconnect | EvRetry | EvFrame rtsp_frame

definition src_enabled :: "src_event \<Rightarrow> source \<Rightarrow> bool" where
  "src_enabled ev s = (ev \<in> {EvConnected, EvClosed} \<longrightarrow> src_client s)"

text \<open>\<open>EvConnLost\<close>: the connection object learns of an error; the source is not told.\<close>

definition source_event :: "src_event \<Rightarrow> src_run \<Rightarrow> cpp_error + src_run" where
  "source_event ev r =
     (case ev of
        EvStart \<Rightarrow> Inr (source_start r)
      | EvStop \<Rightarrow> source_stop r
      | EvConnected \<Rightarrow> source_on_connect r
      | EvConnLost \<Rightarrow> Inr ((fst r)\<lparr>src_conn := map_option (\<lambda>_. False) (src_conn (fst r))\<rparr>, snd r)
      | EvClosed \<Rightarrow> Inr (source_on_close r)
      | EvReconnect \<Rightarrow> Inr (source_on_reconnect_timer r)
      | EvRetry \<Rightarrow> Inr (source_on_retry_timer r)
      | EvFrame f \<Rightarrow> source_on_frame f r)"

fun source_run :: "src_event list \<Rightarrow> src_run \<Rightarrow> cpp_error + src_run" where
  "source_run [] r = Inr r"
| "source_run (ev # evs) r =
     (case source_event ev r of Inl e \<Rightarrow> Inl e | Inr r' \<Rightarrow> source_run evs r')"

inductive source_reachable :: "source \<Rightarrow> bool" where
  new: "source_reachable ((source_new url path)\<lparr>src_data_cb := cb\<rparr>)"
| step: "source_reachable s \<Longrightarrow> src_enabled ev s \<Longrightarrow> source_event ev (s, es) = Inr (s', es') \<Longrightarrow>
    source_reachable s'"

section \<open>The invariant of the handshake\<close>

text \<open>
  While a handshake is under way or done there is a connection and the source is not
  stopping, a stopped source has no client object, and \<open>CSeq\<close> counts the requests sent.
\<close>

fun handshake_cseq :: "src_state \<Rightarrow> u32 option" where
  "handshake_cseq SrcOptions = Some 1"
| "handshake_cseq SrcDescribe = Some 2"
| "handshake_cseq SrcSetup = Some 3"
| "handshake_cseq SrcPlaying = Some 4"
| "handshake_cseq _ = None"

definition src_inv :: "source \<Rightarrow> bool" where
  "src_inv s \<longleftrightarrow>
     (src_stopping s \<longrightarrow> \<not> src_client s) \<and>
     (handshake_cseq (src_state s) \<noteq> None \<longrightarrow>
       src_conn s \<noteq> None \<and> \<not> src_stopping s \<and> handshake_cseq (src_state s) = Some (src_cseq s))"

lemmas src_send_defs =
  send_options_def send_describe_def send_setup_def send_play_def src_next_cseq_def src_conn_send_def

lemma src_inv_new: "src_inv ((source_new url path)\<lparr>src_data_cb := cb\<rparr>)"
  by (simp add: src_inv_def source_new_def parse_upstream_url_def Let_def split: option.split)

lemma src_inv_stop [keeps_inv]: "\<exists>r'. source_stop r = Inr r' \<and> src_inv (fst r')"
  by (auto simp: source_stop_def send_teardown_def src_next_cseq_def src_conn_send_def src_inv_def Let_def)

lemma src_inv_response [keeps_inv]:
  assumes "src_inv s"
  shows "\<exists>s' es'. handle_response resp (s, es) = Inr (s', es') \<and> src_inv s'"
  using assms
  by (cases "src_state s"; cases "src_conn s")
    (simp_all add: handle_response_def src_inv_def src_send_defs Let_def)

lemma src_inv_frame [keeps_inv]:
  assumes "src_inv s"
  shows "\<exists>s' es'. source_on_frame f (s, es) = Inr (s', es') \<and> src_inv s'"
proof (cases f)
  case (Interleaved ch d)
  with assms show ?thesis
    by (simp add: source_on_frame_def source_handle_interleaved_def src_inv_def)
next
  case (Message m)
  with src_inv_response [OF assms] show ?thesis by (simp add: source_on_frame_def)
qed

lemma src_inv_event [keeps_inv]:
  assumes "src_inv (fst r)" "src_enabled ev (fst r)"
  shows "\<exists>r'. source_event ev r = Inr r' \<and> src_inv (fst r')"
proof (cases ev)
  case EvStop
  then show ?thesis using src_inv_stop [of r] by (simp add: source_event_def)
next
  case (EvFrame f)
  then show ?thesis
    using src_inv_frame [OF assms(1), of f "snd r"] by (auto simp: source_event_def)
qed (use assms in \<open>auto simp: source_event_def src_enabled_def source_start_def connect_to_upstream_def
    source_on_connect_def source_on_close_def source_on_reconnect_timer_def source_on_retry_timer_def
    src_inv_def src_send_defs Let_def split: src_state.splits\<close>)

lemma source_reachable_inv: "source_reachable s \<Longrightarrow> src_inv s"
proof (induction rule: source_reachable.induct)
  case (new url path cb)
  show ?case by (rule src_inv_new)
next
  case (step s ev es s' es')
  then show ?case using src_inv_event [of "(s, es)" ev] by auto
qed

text \<open>
  C21. A source never sends through an empty connection pointer: in every state reachable by
  starting, stopping, connecting, losing connections, timers and frames from the upstream, in
  any order, every event that can happen returns, and while the handshake is under way the
  sequence number of the last request is the one of its state.
\<close>

theorem source_never_null:
  assumes "source_reachable s" and "src_enabled ev s"
  shows "(\<exists>r'. source_event ev (s, es) = Inr r') \<and>
    (src_state s = SrcOptions \<longrightarrow> src_cseq s = 1) \<and> (src_state s = SrcDescribe \<longrightarrow> src_cseq s = 2) \<and>
    (src_state s = SrcSetup \<longrightarrow> src_cseq s = 3) \<and> (src_state s = SrcPlaying \<longrightarrow> src_cseq s = 4)"
  using source_reachable_inv [OF assms(1)] src_inv_event [of "(s, es)" ev] assms(2)
  by (cases "src_state s") (auto simp: src_inv_def)

lemma source_reachable_run:
  assumes "source_reachable s" "source_event ev (s, es) = Inr r" "src_enabled ev s"
  shows "source_reachable (fst r)"
  using assms source_reachable.step [of s ev es "fst r" "snd r"] by simp

theorem source_never_null_witness:
  "\<exists>r'. source_event (EvFrame (Message (response_new 200 ''OK'' 1)))
    (fst (source_start (source_new ''rtsp://h/c'' ''/c'', []))
      \<lparr>src_conn := Some True, src_state := SrcOptions, src_cseq := 1\<rparr>, []) = Inr r'"
proof -
  let ?s0 = "(source_new ''rtsp://h/c'' ''/c'')\<lparr>src_data_cb := False\<rparr>"
  let ?s1 = "fst (source_start (?s0, []))"
  have s0: "?s0 = source_new ''rtsp://h/c'' ''/c''" by code_simp
  have "source_reachable ?s0" by (rule source_reachable.new)
  then have s1: "source_reachable ?s1"
    by (rule source_reachable_run [of _ EvStart "[]"]) (simp_all add: source_event_def src_enabled_def)
  let ?s2 = "?s1\<lparr>src_conn := Some True, src_state := SrcOptions, src_cseq := 1\<rparr>"
  have "source_event EvConnected (?s1, []) = Inr (?s2, [SrcSend (rtsp_serialize (options_request ''rtsp://h/c'' 1))])"
    by code_simp
  then have "source_reachable (fst (?s2, [SrcSend (rtsp_serialize (options_request ''rtsp://h/c'' 1))]))"
    by (rule source_reachable_run [OF s1]) code_simp
  then have "source_reachable ?s2" by simp
  from source_never_null [OF this, of "EvFrame (Message (response_new 200 ''OK'' 1))" "[]"] show ?thesis
    by (simp add: src_enabled_def s0)
qed

section \<open>Handshake, stopping, addresses\<close>

lemma handle_response_200:
  assumes "msg_status_code resp = 200" "src_conn s \<noteq> None"
  shows "src_state s = SrcOptions \<Longrightarrow> handle_response resp (s, es) =
      send_describe (s\<lparr>src_session_id := (if msg_session_id resp \<noteq> [] then msg_session_id resp else src_session_id s),
                       src_state := SrcDescribe\<rparr>, es)"
    and "src_state s = SrcDescribe \<Longrightarrow> handle_response resp (s, es) =
      send_setup (s\<lparr>src_session_id := (if msg_session_id resp \<noteq> [] then msg_session_id resp else src_session_id s),
                    src_sdp := msg_sdp resp, src_state := SrcSetup\<rparr>, es)"
  using assms by (simp_all add: handle_response_def Let_def)

text \<open>
  The handshake: once connected, three responses with status 200 take the source through
  OPTIONS, DESCRIBE, SETUP and PLAY with sequence numbers 1 to 4. It then is playing with the
  description of the second response, the SETUP asks for TCP interleaved transport, and the
  session of the last response that names one is used.
\<close>

theorem source_handshake:
  assumes "msg_status_code r1 = 200" and "msg_status_code r2 = 200" and "msg_status_code r3 = 200"
    and "msg_session_id r1 = []" and "msg_session_id r2 = []" and "msg_session_id r3 = sid" and "sid \<noteq> []"
    and "src_session_id s = []"
  shows "\<exists>s'. source_run [EvConnected, EvFrame (Message r1), EvFrame (Message r2), EvFrame (Message r3)] (s, []) =
      Inr (s', map SrcSend
        [rtsp_serialize (options_request (src_upstream_url s) 1),
         rtsp_serialize (describe_request (src_upstream_url s) 2),
         rtsp_serialize (set_header ''Transport'' ''RTP/AVP/TCP;unicast;interleaved=0-1''
           (setup_request (src_upstream_url s) 3 0 0 [])),
         rtsp_serialize (play_request (src_upstream_url s) 4 sid)]) \<and>
    src_state s' = SrcPlaying \<and> src_sdp s' = msg_sdp r2 \<and> src_session_id s' = sid"
  using assms
  by (simp add: source_event_def source_on_connect_def source_on_frame_def handle_response_def
      src_send_defs source_setup_request_def Let_def)

theorem source_handshake_witness:
  "\<exists>s'. source_run
      [EvConnected, EvFrame (Message (response_new 200 ''OK'' 1)),
       EvFrame (Message (describe_response 2 ''v=0'' [])),
       EvFrame (Message ((response_new 200 ''OK'' 3)\<lparr>msg_session_id := ''ab''\<rparr>))]
      (source_new ''rtsp://h/c'' ''/c'', []) =
      Inr (s', map SrcSend
        [rtsp_serialize (options_request (src_upstream_url (source_new ''rtsp://h/c'' ''/c'')) 1),
         rtsp_serialize (describe_request (src_upstream_url (source_new ''rtsp://h/c'' ''/c'')) 2),
         rtsp_serialize (set_header ''Transport'' ''RTP/AVP/TCP;unicast;interleaved=0-1''
           (setup_request (src_upstream_url (source_new ''rtsp://h/c'' ''/c'')) 3 0 0 [])),
         rtsp_serialize (play_request (src_upstream_url (source_new ''rtsp://h/c'' ''/c'')) 4 ''ab'')]) \<and>
    src_state s' = SrcPlaying \<and>
    src_sdp s' = msg_sdp (describe_response 2 ''v=0'' []) \<and> src_session_id s' = ''ab''"
  by (rule source_handshake; code_simp)

text \<open>A stopped source starts nothing: the effect list only grows by effects of kinds other than connecting.\<close>

definition connects :: "src_effect list \<Rightarrow> bool" where
  "connects es \<longleftrightarrow> (\<exists>h p. SrcConnect h p \<in> set es)"

lemma connects_simps [simp]:
  "\<not> connects []" "connects (es @ es') \<longleftrightarrow> connects es \<or> connects es'"
  "\<not> connects [SrcSend d]" "\<not> connects [SrcReconnectTimer n]" "\<not> connects [SrcRetryTimer n]"
  "\<not> connects [SrcForward d]"
  by (auto simp: connects_def)

lemma stopped_event:
  assumes "src_inv (fst r)" "src_stopping (fst r)" "src_enabled ev (fst r)" "ev \<noteq> EvStart"
    "source_event ev r = Inr r'"
  shows "src_stopping (fst r') \<and> (connects (snd r') \<longleftrightarrow> connects (snd r))"
proof (cases ev)
  case (EvFrame f)
  then show ?thesis
    using assms
    by (cases f; cases "src_state (fst r)")
      (auto simp: source_event_def source_on_frame_def source_handle_interleaved_def
        handle_response_def src_inv_def Let_def split: if_splits)
next
  case EvStop
  then show ?thesis
    using assms
    by (auto simp: source_event_def source_stop_def send_teardown_def src_next_cseq_def
        src_conn_send_def Let_def split: if_splits)
qed (use assms in \<open>auto simp: source_event_def src_enabled_def src_inv_def connect_to_upstream_def
    source_on_reconnect_timer_def source_on_retry_timer_def Let_def\<close>)

fun src_run_enabled :: "src_event list \<Rightarrow> src_run \<Rightarrow> bool" where
  "src_run_enabled [] r = True"
| "src_run_enabled (ev # evs) r =
     (src_enabled ev (fst r) \<and>
      (case source_event ev r of Inl e \<Rightarrow> True | Inr r' \<Rightarrow> src_run_enabled evs r'))"

lemma stopped_run:
  "src_inv (fst r) \<Longrightarrow> src_stopping (fst r) \<Longrightarrow> src_run_enabled evs r \<Longrightarrow> EvStart \<notin> set evs \<Longrightarrow>
    source_run evs r = Inr r' \<Longrightarrow> src_stopping (fst r') \<and> (connects (snd r') \<longleftrightarrow> connects (snd r))"
proof (induction evs arbitrary: r)
  case (Cons ev evs)
  obtain r1 where r1: "source_event ev r = Inr r1" "src_inv (fst r1)"
    using src_inv_event [of r ev] Cons.prems by auto
  moreover have "src_stopping (fst r1) \<and> (connects (snd r1) \<longleftrightarrow> connects (snd r))"
    by (rule stopped_event [OF _ _ _ _ r1(1)]) (use Cons.prems in auto)
  ultimately show ?case using Cons.IH [of r1] Cons.prems by simp
qed simp

text \<open>
  Stopping is final: after \<open>stop()\<close>, as long as nobody calls \<open>start()\<close> again, no pending
  reconnect or retry timer, no late close callback and no late frame makes the source open a
  connection.
\<close>

theorem source_stop_final:
  assumes "source_reachable s" and "source_stop (s, []) = Inr r"
    and "src_run_enabled evs r" and "EvStart \<notin> set evs" and "source_run evs r = Inr r'"
  shows "\<not> connects (snd r')"
proof -
  obtain r0 where "source_stop (s, []) = Inr r0" "src_inv (fst r0)"
    using src_inv_stop [of "(s, [])"] by blast
  with assms(2) have "src_inv (fst r)" by simp
  moreover have "src_stopping (fst r) \<and> \<not> connects (snd r)"
    using assms(2)
    by (auto simp: source_stop_def send_teardown_def src_next_cseq_def src_conn_send_def Let_def
        split: if_splits)
  ultimately show ?thesis using stopped_run [of r evs r'] assms by blast
qed

theorem source_stop_final_witness:
  "\<not> connects (snd (source_on_retry_timer (source_on_reconnect_timer
     ((source_new ''rtsp://h/c'' ''/c'')\<lparr>src_stopping := True\<rparr>, []))))"
proof -
  let ?s = "(source_new ''rtsp://h/c'' ''/c'')\<lparr>src_data_cb := False\<rparr>"
  let ?r = "((source_new ''rtsp://h/c'' ''/c'')\<lparr>src_stopping := True\<rparr>, [] :: src_effect list)"
  have "source_stop (?s, []) = Inr ?r" by code_simp
  moreover have "src_run_enabled [EvReconnect, EvRetry] ?r" by code_simp
  moreover have "source_run [EvReconnect, EvRetry] ?r =
      Inr (source_on_retry_timer (source_on_reconnect_timer ?r))"
    by (simp add: source_event_def)
  ultimately show ?thesis
    using source_stop_final [OF source_reachable.new [where cb = False], where r = ?r and evs = "[EvReconnect, EvRetry]"] by simp
qed

lemma find_scheme:
  "COLON \<notin> set scheme \<Longrightarrow> str_find (scheme @ ''://'' @ rest) ''://'' 0 = Some (length scheme)"
  using find_sub_append_pattern [of COLON scheme "''//''" rest] by (simp add: str_find_def)

lemma authority_split:
  assumes "CHR ''/'' \<notin> set auth" "path = [] \<or> hd path = CHR ''/''"
  shows "find_char (auth @ path) (CHR ''/'') 0 = (if path = [] then None else Some (length auth))"
  using assms find_char_append [of "CHR ''/''" auth "tl path"]
  by (cases path) (simp_all add: find_char_None)

lemma parse_upstream_url_authority:
  assumes "COLON \<notin> set scheme" "CHR ''/'' \<notin> set auth" "path = [] \<or> hd path = CHR ''/''"
    "auth = before @ COLON # port" "COLON \<notin> set port"
  shows "src_upstream_host (source_new (scheme @ ''://'' @ auth @ path) sp) = before \<and>
    src_upstream_port (source_new (scheme @ ''://'' @ auth @ path) sp) = word_of_int (atoi port) \<and>
    src_upstream_path (source_new (scheme @ ''://'' @ auth @ path) sp) = (if path = [] then ''/'' else path)"
proof -
  have "drop (length scheme + 3) (scheme @ ''://'' @ auth @ path) = auth @ path" by simp
  with find_scheme [OF assms(1), of "auth @ path"] authority_split [OF assms(2,3)]
    rfind_char_append [OF assms(5), of before] assms(4)
  show ?thesis
    by (cases "path = []") (simp_all add: source_new_def parse_upstream_url_def Let_def substr_def)
qed

text \<open>
  An upstream URL \<open>scheme://host:port/path\<close> is taken apart as written, for every host
  without a slash (colons in it included, the last colon counts) and every 16-bit port; a
  missing path becomes the root.
\<close>

theorem upstream_url_parts:
  assumes "COLON \<notin> set scheme" and "CHR ''/'' \<notin> set host" and "path = [] \<or> hd path = CHR ''/''"
  shows "let s = source_new (scheme @ ''://'' @ host @ COLON # dec_nat (unat port) @ path) sp in
    src_upstream_host s = host \<and> src_upstream_port s = port \<and>
    src_upstream_path s = (if path = [] then ''/'' else path)"
proof -
  have digits: "\<forall>c \<in> set (dec_nat (unat port)). c_isdigit c"
    using dec_nat_digits digit_char_facts(1) by metis
  then have "COLON \<notin> set (dec_nat (unat port))" "CHR ''/'' \<notin> set (dec_nat (unat port))"
    by (auto simp: c_isdigit_def)
  moreover have "(word_of_int (atoi (dec_nat (unat port))) :: u16) = port"
  proof -
    have "unat port < 2 ^ 63" "uint port < 2 ^ 31" "- (2 ^ 31) \<le> uint port"
      using unsigned_less [of port, where 'a = nat] unsigned_less [of port, where 'a = int]
        order_trans [of "- (2 ^ 31)" 0 "uint port"] by simp_all
    then show ?thesis by (simp add: atoi_dec_nat signed_take_bit_int_eq_self)
  qed
  ultimately show ?thesis
    using parse_upstream_url_authority [of scheme "host @ COLON # dec_nat (unat port)" path host
        "dec_nat (unat port)" sp] assms
    by (simp add: Let_def)
qed

theorem upstream_url_parts_witness:
  "let s = source_new (''rtsp'' @ ''://'' @ ''10.0.0.2'' @ COLON # dec_nat (unat (8554 :: u16)) @ ''/live/1'') ''/c'' in
    src_upstream_host s = ''10.0.0.2'' \<and> src_upstream_port s = 8554 \<and>
    src_upstream_path s = (if ''/live/1'' = [] then ''/'' else ''/live/1'')"
  by (rule upstream_url_parts) simp_all

text \<open>
  A URL with credentials and no port is taken apart wrongly: the user name becomes the
  host to connect to, because the last colon before the path is the one inside
  \<open>user:password@host\<close>.
\<close>

theorem upstream_url_credentials:
  assumes "list_all (\<lambda>c. c \<noteq> COLON \<and> c \<noteq> CHR ''/'') (password @ host)"
    and "CHR ''/'' \<notin> set user" and "path = [] \<or> hd path = CHR ''/''"
  shows "src_upstream_host (source_new (''rtsp://'' @ user @ COLON # password @ CHR ''@'' # host @ path) sp)
    = user"
  using parse_upstream_url_authority [of "''rtsp''" "user @ COLON # password @ CHR ''@'' # host" path user
      "password @ CHR ''@'' # host" sp] assms
  by (auto simp: list_all_iff)

theorem upstream_url_credentials_witness:
  "src_upstream_host (source_new (''rtsp://'' @ ''admin'' @ COLON # ''pw'' @ CHR ''@'' # ''10.0.0.2'' @ ''/c'') ''/c'')
    = ''admin''"
  by (rule upstream_url_credentials) simp_all

text \<open>
  A session outlives its connection: when a playing source loses its connection and
  reconnects, and the new server names no session before SETUP, the SETUP request carries the
  session identifier of the lost connection.
\<close>

theorem source_stale_session:
  assumes "\<not> src_stopping s" and "src_session_id s = sid"
    and "msg_status_code r1 = 200" and "msg_status_code r2 = 200"
    and "msg_session_id r1 = []" and "msg_session_id r2 = []"
  shows "\<exists>s'. source_run [EvClosed, EvReconnect, EvConnected, EvFrame (Message r1), EvFrame (Message r2)] (s, []) =
    Inr (s', [SrcReconnectTimer 3000, SrcConnect (src_upstream_host s) (src_upstream_port s),
      SrcSend (rtsp_serialize (options_request (src_upstream_url s) 1)),
      SrcSend (rtsp_serialize (describe_request (src_upstream_url s) 2)),
      SrcSend (rtsp_serialize (set_header ''Transport'' ''RTP/AVP/TCP;unicast;interleaved=0-1''
        (setup_request (src_upstream_url s) 3 0 0 sid)))])"
  using assms
  by (simp add: source_event_def source_on_close_def source_on_reconnect_timer_def
      connect_to_upstream_def source_on_connect_def source_on_frame_def handle_response_def
      src_send_defs source_setup_request_def Let_def)

theorem source_stale_session_witness:
  "\<exists>s' es. source_run [EvClosed, EvReconnect, EvConnected,
      EvFrame (Message (response_new 200 ''OK'' 1)), EvFrame (Message (response_new 200 ''OK'' 2))]
      ((source_new ''rtsp://h/c'' ''/c'')\<lparr>src_session_id := ''old'', src_client := True\<rparr>, []) = Inr (s', es) \<and>
    last es = SrcSend (rtsp_serialize (set_header ''Transport'' ''RTP/AVP/TCP;unicast;interleaved=0-1''
        (setup_request ''rtsp://h/c'' 3 0 0 ''old'')))"
proof -
  let ?s = "(source_new ''rtsp://h/c'' ''/c'')\<lparr>src_session_id := ''old'', src_client := True\<rparr>"
  have "\<not> src_stopping ?s" "src_session_id ?s = ''old''" by code_simp+
  moreover have "src_upstream_url ?s = ''rtsp://h/c''" by code_simp
  ultimately show ?thesis
    using source_stale_session [of ?s "''old''" "response_new 200 ''OK'' 1" "response_new 200 ''OK'' 2"]
    by (auto simp: response_new_def rtsp_message_new_def)
qed

text \<open>What an answer with an error does, and a run of such answers and packets.\<close>

definition refusal :: "rtsp_frame \<Rightarrow> bool" where
  "refusal f \<longleftrightarrow> (case f of Interleaved ch d \<Rightarrow> True | Message m \<Rightarrow> msg_status_code m \<notin> {200, 404})"

definition only_forwards :: "src_effect list \<Rightarrow> bool" where
  "only_forwards es \<longleftrightarrow> (\<forall>e \<in> set es. \<exists>d. e = SrcForward d)"

lemma refusal_event:
  assumes "refusal f" "source_event (EvFrame f) r = Inr r'"
  shows "src_state (fst r') = src_state (fst r) \<and> src_cseq (fst r') = src_cseq (fst r) \<and>
    (\<exists>es. snd r' = snd r @ es \<and> only_forwards es)"
  using assms
  by (cases f) (auto simp: refusal_def only_forwards_def source_event_def source_on_frame_def
      source_handle_interleaved_def handle_response_def Let_def split: if_splits)

lemma refusal_event_total: "refusal f \<Longrightarrow> \<exists>r'. source_event (EvFrame f) r = Inr r'"
  by (cases f) (auto simp: refusal_def source_event_def source_on_frame_def handle_response_def)

text \<open>
  An upstream that answers with an error other than 404 stops the handshake for good: however
  many such answers and packets follow on the connection, the source stays in its state, sends no
  request, starts no timer and opens no connection; all it does is forward packets.
\<close>

theorem source_error_stuck:
  assumes "list_all refusal fs"
  shows "\<exists>r'. source_run (map EvFrame fs) r = Inr r' \<and> src_state (fst r') = src_state (fst r) \<and>
    src_cseq (fst r') = src_cseq (fst r) \<and> (\<exists>es. snd r' = snd r @ es \<and> only_forwards es)"
  using assms
proof (induction fs arbitrary: r)
  case Nil
  show ?case by (simp add: only_forwards_def)
next
  case (Cons f fs)
  obtain r1 where r1: "source_event (EvFrame f) r = Inr r1"
    using refusal_event_total Cons.prems by fastforce
  obtain es where 1: "src_state (fst r1) = src_state (fst r)" "src_cseq (fst r1) = src_cseq (fst r)"
    "snd r1 = snd r @ es" "only_forwards es"
    using refusal_event [OF _ r1] Cons.prems by auto
  obtain r' es' where "source_run (map EvFrame fs) r1 = Inr r'" "src_state (fst r') = src_state (fst r1)"
    "src_cseq (fst r') = src_cseq (fst r1)" "snd r' = snd r1 @ es'" "only_forwards es'"
    using Cons.IH [of r1] Cons.prems by (auto simp del: split_paired_Ex)
  with 1 r1 show ?case by (auto simp: only_forwards_def)
qed

theorem source_error_stuck_witness:
  "\<exists>r'. source_run (map EvFrame [Message (error_response 2 503 ''Service Unavailable''),
      Interleaved 0 ''x'', Message (error_response 3 401 ''Unauthorized'')])
     ((source_new ''rtsp://h/c'' ''/c'')\<lparr>src_state := SrcDescribe, src_data_cb := True\<rparr>, []) = Inr r' \<and>
     src_state (fst r') = SrcDescribe \<and> snd r' = [SrcForward ''x'']"
proof -
  let ?fs = "[Message (error_response 2 503 ''Service Unavailable''),
      Interleaved 0 ''x'', Message (error_response 3 401 ''Unauthorized'')]"
  let ?r = "((source_new ''rtsp://h/c'' ''/c'')\<lparr>src_state := SrcDescribe, src_data_cb := True\<rparr>, [])"
  have "list_all refusal ?fs" by code_simp
  then obtain r' where r': "source_run (map EvFrame ?fs) ?r = Inr r'" "src_state (fst r') = SrcDescribe"
    using source_error_stuck [of ?fs ?r] by auto
  moreover have "(case source_run (map EvFrame ?fs) ?r of Inl e \<Rightarrow> [] | Inr r' \<Rightarrow> snd r') = [SrcForward ''x'']"
    by code_simp
  ultimately show ?thesis by auto
qed

end
