(* ===== verification/Keyed_Store.thy ===== *)
theory Keyed_Store
  imports Relay_Prelude
begin

text \<open>
  The contract of the program's hash maps: the streams of \<open>RelayManager\<close>, the descriptor
  callbacks of \<open>EventLoop\<close> and the headers of a message are each a \<open>std::unordered_map\<close> whose
  keys are looked up, stored, erased and visited by a range-for. The order of the visit is not
  specified in C++; the locale promises only that it visits each key once. Each component that
  holds such a map interprets the locale on its own operations.
\<close>

locale keyed_store =
  fixes lookup :: "'s \<Rightarrow> 'k \<Rightarrow> 'v option"
    and store :: "'k \<Rightarrow> 'v \<Rightarrow> 's \<Rightarrow> 's"
    and erase :: "'k \<Rightarrow> 's \<Rightarrow> 's"
    and visit :: "'s \<Rightarrow> ('k \<times> 'v) list"
    and inv :: "'s \<Rightarrow> bool"
  assumes lookup_store: "inv s \<Longrightarrow> lookup (store k v s) = (lookup s)(k \<mapsto> v)"
    and lookup_erase: "inv s \<Longrightarrow> lookup (erase k s) = (lookup s)(k := None)"
    and inv_store: "inv s \<Longrightarrow> inv (store k v s)"
    and inv_erase: "inv s \<Longrightarrow> inv (erase k s)"
    and visit_once: "inv s \<Longrightarrow> distinct (map fst (visit s))"
    and visit_lookup: "inv s \<Longrightarrow> map_of (visit s) = lookup s"
begin

lemma visit_iff: "inv s \<Longrightarrow> (k, v) \<in> set (visit s) \<longleftrightarrow> lookup s k = Some v"
  using visit_once [of s] by (simp flip: visit_lookup)

lemma dom_visit: "inv s \<Longrightarrow> dom (lookup s) = fst ` set (visit s)"
  by (simp flip: visit_lookup add: dom_map_of_conv_image_fst)

lemma finite_dom: "inv s \<Longrightarrow> finite (dom (lookup s))"
  by (simp add: dom_visit)

lemma size_visit: "inv s \<Longrightarrow> length (visit s) = card (dom (lookup s))"
  using visit_once [of s] by (metis dom_visit distinct_card length_map set_map)

lemma size_store_new:
  assumes "inv s" "lookup s k = None"
  shows "length (visit (store k v s)) = Suc (length (visit s))"
proof -
  have "dom (lookup (store k v s)) = insert k (dom (lookup s))"
    using assms(1) by (simp add: lookup_store)
  moreover have "k \<notin> dom (lookup s)" using assms(2) by (simp add: domIff)
  ultimately show ?thesis using assms(1) finite_dom [of s] by (simp add: size_visit inv_store)
qed

lemma size_store_old:
  "inv s \<Longrightarrow> lookup s k = Some u \<Longrightarrow> length (visit (store k v s)) = length (visit s)"
  by (simp add: size_visit inv_store lookup_store insert_absorb domI)

lemma size_erase:
  assumes "inv s" "lookup s k = Some u"
  shows "length (visit s) = Suc (length (visit (erase k s)))"
proof -
  have "dom (lookup (erase k s)) = dom (lookup s) - {k}"
    using assms(1) by (simp add: lookup_erase)
  moreover have "k \<in> dom (lookup s)" using assms(2) by (simp add: domI)
  ultimately show ?thesis
    using assms(1) finite_dom [of s] card.remove [of "dom (lookup s)" k]
    by (simp add: size_visit inv_erase)
qed

text \<open>Erasing what was just stored under a new key is as if nothing had been stored.\<close>

lemma erase_store: "inv s \<Longrightarrow> lookup s k = None \<Longrightarrow> lookup (erase k (store k v s)) = lookup s"
  by (auto simp: inv_store lookup_store lookup_erase)

end

lemma alist_keyed:
  "distinct (map fst (xs :: ('k \<times> 'v) list)) \<Longrightarrow> distinct (map fst (AList.update k v xs))"
  "distinct (map fst xs) \<Longrightarrow> distinct (map fst (AList.delete k xs))"
  by (simp_all add: AList.distinct_update AList.distinct_delete)

interpretation alist: keyed_store map_of AList.update AList.delete "\<lambda>s. s" "\<lambda>s. distinct (map fst s)"
  by unfold_locales (simp_all add: alist_keyed AList.update_conv' AList.delete_conv')

end
