(* ===== verification/Relay_Manager.thy ===== *)
theory Relay_Manager
  imports Rtsp_Source Keyed_Store
begin

text \<open>
  \<open>RelayManager\<close> of \<open>src/src/relay_manager.h\<close> and \<open>relay_manager.cpp\<close>: the map from stream
  paths to one upstream source and the sinks that play it. \<open>streams_\<close> is the list of its pairs
  in the order a range-for visits them; a sink is the identity of its session object (a
  number), so that \<open>onRtpData\<close> here yields the sinks to push to, in order. Every operation
  runs under \<open>streams_mutex_\<close> and is one step. The effects are those of the sources, each with
  the path of its stream.
\<close>

record stream_relay =
  rel_source :: source
  rel_upstream_url :: bytes
  rel_sinks :: "nat list"

record relay_manager =
  rm_streams :: "(bytes \<times> stream_relay) list"
  rm_max_sources :: nat

type_synonym mgr_effect = "bytes \<times> src_effect"

record stream_info =
  info_stream_path :: bytes
  info_upstream_url :: bytes
  info_source_state :: bytes
  info_sink_count :: nat
  info_sdp :: bytes
  info_has_sdp :: bool

fun source_state_to_string :: "src_state \<Rightarrow> bytes" where
  "source_state_to_string SrcIdle = ''Idle''"
| "source_state_to_string SrcConnecting = ''Connecting''"
| "source_state_to_string SrcOptions = ''Options''"
| "source_state_to_string SrcDescribe = ''Describe''"
| "source_state_to_string SrcSetup = ''Setup''"
| "source_state_to_string SrcPlaying = ''Playing''"
| "source_state_to_string SrcError = ''Error''"

definition relay_manager_new :: relay_manager where
  "relay_manager_new = \<lparr>rm_streams = [], rm_max_sources = 500\<rparr>"

definition rm_find :: "relay_manager \<Rightarrow> bytes \<Rightarrow> stream_relay option" where
  "rm_find m = map_of (rm_streams m)"

definition rm_put :: "bytes \<Rightarrow> stream_relay \<Rightarrow> relay_manager \<Rightarrow> relay_manager" where
  "rm_put path rel m = m\<lparr>rm_streams := AList.update path rel (rm_streams m)\<rparr>"

definition rm_erase :: "bytes \<Rightarrow> relay_manager \<Rightarrow> relay_manager" where
  "rm_erase path m = m\<lparr>rm_streams := AList.delete path (rm_streams m)\<rparr>"

definition rm_inv :: "relay_manager \<Rightarrow> bool" where
  "rm_inv m \<longleftrightarrow> distinct (map fst (rm_streams m))"

interpretation rm: keyed_store rm_find rm_put rm_erase rm_streams rm_inv
  by unfold_locales
    (simp_all add: rm_find_def rm_put_def rm_erase_def rm_inv_def alist_keyed AList.update_conv'
      AList.delete_conv')

section \<open>Streams\<close>

text \<open>
  \<open>addStream\<close>: the relay is in the map before its source starts. The data callback is set by
  then, so every frame of the source is forwarded.
\<close>

definition add_stream ::
  "bytes \<Rightarrow> bytes \<Rightarrow> relay_manager \<Rightarrow> bool \<times> relay_manager \<times> mgr_effect list" where
  "add_stream stream_path upstream_url m =
     (if rm_find m stream_path \<noteq> None then (False, m, [])
      else if length (rm_streams m) \<ge> rm_max_sources m then (False, m, [])
      else
        let source = (source_new upstream_url stream_path)\<lparr>src_data_cb := True\<rparr>;
            (source, es) = source_start (source, [])
        in (True,
            rm_put stream_path
              \<lparr>rel_source = source, rel_upstream_url = upstream_url, rel_sinks = []\<rparr> m,
            map (Pair stream_path) es))"

definition remove_stream ::
  "bytes \<Rightarrow> relay_manager \<Rightarrow> cpp_error + (bool \<times> relay_manager \<times> mgr_effect list)" where
  "remove_stream stream_path m =
     (case rm_find m stream_path of
        None \<Rightarrow> Inr (False, m, [])
      | Some rel \<Rightarrow>
          (case source_stop (rel_source rel, []) of
             Inl e \<Rightarrow> Inl e
           | Inr (source, es) \<Rightarrow> Inr (True, rm_erase stream_path m, map (Pair stream_path) es)))"

text \<open>The destructor: every source is stopped, then the map is cleared.\<close>

fun stop_all ::
  "(bytes \<times> stream_relay) list \<Rightarrow> mgr_effect list \<Rightarrow> cpp_error + mgr_effect list" where
  "stop_all [] es = Inr es"
| "stop_all ((path, rel) # rels) es =
     (case source_stop (rel_source rel, []) of
        Inl e \<Rightarrow> Inl e
      | Inr (source, es') \<Rightarrow> stop_all rels (es @ map (Pair path) es'))"

definition relay_manager_destroy :: "relay_manager \<Rightarrow> cpp_error + (relay_manager \<times> mgr_effect list)" where
  "relay_manager_destroy m =
     (case stop_all (rm_streams m) [] of
        Inl e \<Rightarrow> Inl e
      | Inr es \<Rightarrow> Inr (m\<lparr>rm_streams := []\<rparr>, es))"

section \<open>Sinks\<close>

definition add_sink :: "bytes \<Rightarrow> nat \<Rightarrow> relay_manager \<Rightarrow> relay_manager" where
  "add_sink stream_path sink m =
     (case rm_find m stream_path of
        None \<Rightarrow> m
      | Some rel \<Rightarrow> rm_put stream_path (rel\<lparr>rel_sinks := rel_sinks rel @ [sink]\<rparr>) m)"

text \<open>The erase-remove idiom: every copy of the pointer goes.\<close>

definition remove_sink :: "bytes \<Rightarrow> nat \<Rightarrow> relay_manager \<Rightarrow> relay_manager" where
  "remove_sink stream_path sink m =
     (case rm_find m stream_path of
        None \<Rightarrow> m
      | Some rel \<Rightarrow>
          rm_put stream_path (rel\<lparr>rel_sinks := filter (\<lambda>s. s \<noteq> sink) (rel_sinks rel)\<rparr>) m)"

text \<open>The sinks that \<open>onRtpData\<close> pushes a packet of the stream to, in order.\<close>

definition fan_out_sinks :: "bytes \<Rightarrow> relay_manager \<Rightarrow> nat list" where
  "fan_out_sinks stream_path m =
     (case rm_find m stream_path of None \<Rightarrow> [] | Some rel \<Rightarrow> rel_sinks rel)"

section \<open>Queries\<close>

definition get_stream_sdp :: "bytes \<Rightarrow> relay_manager \<Rightarrow> bytes" where
  "get_stream_sdp stream_path m =
     (case rm_find m stream_path of None \<Rightarrow> [] | Some rel \<Rightarrow> src_sdp (rel_source rel))"

definition has_stream :: "bytes \<Rightarrow> relay_manager \<Rightarrow> bool" where
  "has_stream stream_path m \<longleftrightarrow> rm_find m stream_path \<noteq> None"

definition relay_info :: "bytes \<times> stream_relay \<Rightarrow> stream_info" where
  "relay_info pr =
     (let relay = snd pr in
      \<lparr>info_stream_path = fst pr, info_upstream_url = rel_upstream_url relay,
       info_source_state = source_state_to_string (src_state (rel_source relay)),
       info_sink_count = length (rel_sinks relay), info_sdp = src_sdp (rel_source relay),
       info_has_sdp = src_sdp (rel_source relay) \<noteq> []\<rparr>)"

definition get_stream_info :: "bytes \<Rightarrow> relay_manager \<Rightarrow> stream_info option" where
  "get_stream_info stream_path m =
     (case rm_find m stream_path of None \<Rightarrow> None | Some rel \<Rightarrow> Some (relay_info (stream_path, rel)))"

definition get_all_stream_info :: "relay_manager \<Rightarrow> stream_info list" where
  "get_all_stream_info m = map relay_info (rm_streams m)"

text \<open>\<open>snprintf(buf, n, ...)\<close> keeps the first \<open>n - 1\<close> bytes; \<open>%s\<close> prints up to a zero byte.\<close>

definition c_str :: "bytes \<Rightarrow> bytes" where
  "c_str s = takeWhile (\<lambda>c. c \<noteq> CHR 0x00) s"

definition stats_line :: "bytes \<times> stream_relay \<Rightarrow> bytes" where
  "stats_line pr =
     take 255 (''stream='' @ c_str (fst pr) @ '' sinks='' @ dec_nat (length (rel_sinks (snd pr))) @
       '' source_state='' @ source_state_to_string (src_state (rel_source (snd pr))))"

definition get_stats :: "relay_manager \<Rightarrow> bytes list" where
  "get_stats m = map stats_line (rm_streams m)"

definition total_sinks :: "relay_manager \<Rightarrow> nat" where
  "total_sinks m = foldl (\<lambda>total pr. total + length (rel_sinks (snd pr))) 0 (rm_streams m)"

definition stream_count :: "relay_manager \<Rightarrow> nat" where
  "stream_count m = length (rm_streams m)"

text \<open>A callback of a source (or a message of its connection) runs on the object in the map.\<close>

definition with_source ::
  "bytes \<Rightarrow> src_event \<Rightarrow> relay_manager \<Rightarrow> cpp_error + (relay_manager \<times> mgr_effect list)" where
  "with_source stream_path ev m =
     (case rm_find m stream_path of
        None \<Rightarrow> Inr (m, [])
      | Some rel \<Rightarrow>
          (case source_event ev (rel_source rel, []) of
             Inl e \<Rightarrow> Inl e
           | Inr (source, es) \<Rightarrow>
               Inr (rm_put stream_path (rel\<lparr>rel_source := source\<rparr>) m, map (Pair stream_path) es)))"

section \<open>Runs of the manager\<close>

datatype mgr_op =
  MgrAdd bytes bytes | MgrRemove bytes | MgrAddSink bytes nat | MgrRemoveSink bytes nat
| MgrSource bytes src_event

definition mgr_step :: "mgr_op \<Rightarrow> relay_manager \<Rightarrow> cpp_error + (relay_manager \<times> mgr_effect list)" where
  "mgr_step op m =
     (case op of
        MgrAdd path url \<Rightarrow> Inr (snd (add_stream path url m))
      | MgrRemove path \<Rightarrow>
          (case remove_stream path m of Inl e \<Rightarrow> Inl e | Inr r \<Rightarrow> Inr (snd r))
      | MgrAddSink path sink \<Rightarrow> Inr (add_sink path sink m, [])
      | MgrRemoveSink path sink \<Rightarrow> Inr (remove_sink path sink m, [])
      | MgrSource path ev \<Rightarrow> with_source path ev m)"

definition mgr_enabled :: "mgr_op \<Rightarrow> relay_manager \<Rightarrow> bool" where
  "mgr_enabled op m =
     (case op of
        MgrSource path ev \<Rightarrow>
          (case rm_find m path of None \<Rightarrow> True | Some rel \<Rightarrow> src_enabled ev (rel_source rel))
      | _ \<Rightarrow> True)"

fun mgr_run :: "mgr_op list \<Rightarrow> relay_manager \<Rightarrow> cpp_error + relay_manager" where
  "mgr_run [] m = Inr m"
| "mgr_run (op # ops) m = (case mgr_step op m of Inl e \<Rightarrow> Inl e | Inr (m', es) \<Rightarrow> mgr_run ops m')"

inductive mgr_reachable :: "relay_manager \<Rightarrow> bool" where
  new: "mgr_reachable (relay_manager_new\<lparr>rm_max_sources := n\<rparr>)"
| step: "mgr_reachable m \<Longrightarrow> mgr_enabled op m \<Longrightarrow> mgr_step op m = Inr (m', es) \<Longrightarrow> mgr_reachable m'"

text \<open>What holds of a stream in the map, and of the map.\<close>

definition relay_ok :: "bytes \<Rightarrow> stream_relay \<Rightarrow> bool" where
  "relay_ok path rel \<longleftrightarrow>
     src_inv (rel_source rel) \<and> src_data_cb (rel_source rel) \<and>
     src_stream_path (rel_source rel) = path \<and>
     src_upstream_url (rel_source rel) = rel_upstream_url rel"

definition mgr_inv :: "relay_manager \<Rightarrow> bool" where
  "mgr_inv m \<longleftrightarrow> rm_inv m \<and> stream_count m \<le> rm_max_sources m \<and>
     (\<forall>path rel. rm_find m path = Some rel \<longrightarrow> relay_ok path rel)"

lemma rm_frames [frame_simps]:
  "rm_max_sources (rm_put path rel m) = rm_max_sources m"
  "rm_max_sources (rm_erase path m) = rm_max_sources m"
  by (simp_all add: rm_put_def rm_erase_def)

lemma parse_upstream_url_frame [frame_simps]:
  "src_upstream_url (parse_upstream_url s) = src_upstream_url s"
  "src_stream_path (parse_upstream_url s) = src_stream_path s"
  "src_data_cb (parse_upstream_url s) = src_data_cb s"
  "src_stopping (parse_upstream_url s) = src_stopping s"
  "src_client (parse_upstream_url s) = src_client s"
  "src_conn (parse_upstream_url s) = src_conn s"
  "src_state (parse_upstream_url s) = src_state s"
  "src_sdp (parse_upstream_url s) = src_sdp s"
  by (simp_all add: parse_upstream_url_def Let_def split: option.split)

text \<open>No event of a source changes its name, its address or its data callback.\<close>

lemma source_event_frame [frame_simps]:
  assumes "source_event ev r = Inr r'"
  shows "src_upstream_url (fst r') = src_upstream_url (fst r)"
    and "src_stream_path (fst r') = src_stream_path (fst r)"
    and "src_data_cb (fst r') = src_data_cb (fst r)"
  using assms
  by (cases ev;
      auto simp: source_event_def source_start_def connect_to_upstream_def source_stop_def
        send_teardown_def source_on_connect_def source_on_close_def source_on_reconnect_timer_def
        source_on_retry_timer_def source_on_frame_def source_handle_interleaved_def
        handle_response_def src_send_defs Let_def
        split: if_splits option.splits rtsp_frame.splits src_state.splits)+

lemma mgr_inv_put:
  assumes "mgr_inv m" "relay_ok path rel" "rm_find m path \<noteq> None \<or> stream_count m < rm_max_sources m"
  shows "mgr_inv (rm_put path rel m)"
proof -
  have inv: "rm_inv m" using assms(1) by (simp add: mgr_inv_def)
  have "stream_count (rm_put path rel m) \<le> rm_max_sources m"
  proof (cases "rm_find m path")
    case None
    with assms(3) rm.size_store_new [OF inv None, of rel] show ?thesis by (simp add: stream_count_def)
  next
    case (Some old)
    with assms(1) rm.size_store_old [OF inv Some, of rel] show ?thesis
      by (simp add: stream_count_def mgr_inv_def)
  qed
  with assms inv show ?thesis
    by (simp add: mgr_inv_def rm.lookup_store rm.inv_store frame_simps)
qed

lemma mgr_inv_erase: "mgr_inv m \<Longrightarrow> rm_find m path = Some rel \<Longrightarrow> mgr_inv (rm_erase path m)"
  using rm.size_erase [of m path rel]
  by (auto simp: mgr_inv_def rm.lookup_erase rm.inv_erase frame_simps stream_count_def)

lemma mgr_inv_new: "mgr_inv (relay_manager_new\<lparr>rm_max_sources := n\<rparr>)"
  by (simp add: mgr_inv_def rm_inv_def relay_manager_new_def stream_count_def rm_find_def)

lemma relay_ok_new:
  "relay_ok path
    \<lparr>rel_source = fst (source_start ((source_new url path)\<lparr>src_data_cb := True\<rparr>, [])),
     rel_upstream_url = url, rel_sinks = []\<rparr>"
  using source_event_frame [of EvStart "((source_new url path)\<lparr>src_data_cb := True\<rparr>, [])"]
    src_inv_event [of "((source_new url path)\<lparr>src_data_cb := True\<rparr>, [])" EvStart] src_inv_new
  by (simp add: relay_ok_def source_event_def src_enabled_def source_new_def frame_simps)

lemma relay_ok_event:
  assumes "relay_ok path rel" "source_event ev (rel_source rel, es) = Inr r" "src_inv (fst r)"
  shows "relay_ok path (rel\<lparr>rel_source := fst r\<rparr>)"
  using assms source_event_frame [OF assms(2)] by (simp add: relay_ok_def)

lemma relay_ok_sinks [simp]: "relay_ok path (rel\<lparr>rel_sinks := ss\<rparr>) = relay_ok path rel"
  by (simp add: relay_ok_def)

lemma mgr_inv_relay: "mgr_inv m \<Longrightarrow> rm_find m path = Some rel \<Longrightarrow> relay_ok path rel"
  by (simp add: mgr_inv_def)

lemma mgr_inv_step [keeps_inv]:
  assumes "mgr_inv m" "mgr_enabled op m"
  shows "\<exists>m' es. mgr_step op m = Inr (m', es) \<and> mgr_inv m'"
proof (cases op)
  case (MgrAdd path url)
  with assms(1) show ?thesis
    using relay_ok_new [of path url] mgr_inv_put [of m path]
    by (auto simp: mgr_step_def add_stream_def Let_def stream_count_def split: prod.split)
next
  case (MgrRemove path)
  show ?thesis
  proof (cases "rm_find m path")
    case None
    with MgrRemove assms(1) show ?thesis by (simp add: mgr_step_def remove_stream_def)
  next
    case (Some rel)
    with MgrRemove assms(1) src_inv_stop [of "(rel_source rel, [])"] show ?thesis
      by (auto simp: mgr_step_def remove_stream_def mgr_inv_erase)
  qed
next
  case (MgrSource path ev)
  show ?thesis
  proof (cases "rm_find m path")
    case None
    with MgrSource assms(1) show ?thesis by (simp add: mgr_step_def with_source_def)
  next
    case (Some rel)
    with assms(1) have rel: "relay_ok path rel" by (simp add: mgr_inv_def)
    with MgrSource Some assms(2) obtain r where
      r: "source_event ev (rel_source rel, []) = Inr r" "src_inv (fst r)"
      using src_inv_event [of "(rel_source rel, [])" ev] by (auto simp: mgr_enabled_def relay_ok_def)
    from relay_ok_event [OF rel r] MgrSource Some assms(1) r(1) show ?thesis
      by (cases r) (simp add: mgr_step_def with_source_def mgr_inv_put)
  qed
qed (use assms in \<open>auto simp: mgr_step_def add_sink_def remove_sink_def mgr_inv_put mgr_inv_relay
    split: option.split\<close>)

lemma mgr_reachable_inv: "mgr_reachable m \<Longrightarrow> mgr_inv m"
proof (induction rule: mgr_reachable.induct)
  case (new n)
  show ?case by (rule mgr_inv_new)
next
  case (step m op m' es)
  then show ?case using mgr_inv_step [of m op] by auto
qed

text \<open>
  C23. The relay manager, with its sources: after any sequence of added and removed streams and
  sinks and of events of the sources, every further call returns; there are never more streams
  than \<open>maxSources\<close>; every stream is found under one path, and its source has that path and
  the upstream address that was asked for.
\<close>

theorem manager_safe:
  assumes "mgr_reachable m" and "mgr_enabled op m"
  shows "(\<exists>m' es. mgr_step op m = Inr (m', es)) \<and> stream_count m \<le> rm_max_sources m \<and>
    distinct (map info_stream_path (get_all_stream_info m)) \<and>
    (\<forall>path rel. rm_find m path = Some rel \<longrightarrow>
      src_stream_path (rel_source rel) = path \<and> src_upstream_url (rel_source rel) = rel_upstream_url rel)"
  using mgr_reachable_inv [OF assms(1)] mgr_inv_step [of m op] assms(2)
  by (auto simp: mgr_inv_def rm_inv_def relay_ok_def get_all_stream_info_def relay_info_def Let_def
      comp_def)

definition demo_manager :: relay_manager where
  "demo_manager = relay_manager_new\<lparr>rm_max_sources := 2\<rparr>"

lemma mgr_run_reachable:
  "mgr_run ops m = Inr m' \<Longrightarrow> mgr_reachable m \<Longrightarrow> \<forall>op \<in> set ops. \<forall>p ev. op \<noteq> MgrSource p ev \<Longrightarrow>
    mgr_reachable m'"
proof (induction ops arbitrary: m)
  case Nil
  then show ?case by simp
next
  case (Cons op ops)
  then obtain m1 es where m1: "mgr_step op m = Inr (m1, es)" "mgr_run ops m1 = Inr m'"
    by (auto split: sum.splits)
  have "mgr_enabled op m" using Cons.prems(3) by (auto simp: mgr_enabled_def split: mgr_op.split)
  with m1 Cons.prems have "mgr_reachable m1" by (blast intro: mgr_reachable.step)
  with m1 Cons show ?case by simp
qed

theorem manager_safe_witness:
  "\<exists>m. mgr_run [MgrAdd ''/a'' ''rtsp://h/a'', MgrAdd ''/a'' ''rtsp://h/b'', MgrAddSink ''/a'' 7] demo_manager
        = Inr m \<and> (\<exists>m' es. mgr_step (MgrSource ''/a'' EvConnected) m = Inr (m', es)) \<and> stream_count m \<le> 2"
proof -
  let ?ops = "[MgrAdd ''/a'' ''rtsp://h/a'', MgrAdd ''/a'' ''rtsp://h/b'', MgrAddSink ''/a'' 7]"
  obtain m where m: "mgr_run ?ops demo_manager = Inr m" "mgr_enabled (MgrSource ''/a'' EvConnected) m"
      "rm_max_sources m = 2"
    by (simp add: mgr_step_def add_stream_def demo_manager_def relay_manager_new_def Let_def
        rm_find_def rm_put_def add_sink_def mgr_enabled_def source_start_def
        connect_to_upstream_def src_enabled_def split_def source_new_def frame_simps)
  then have "mgr_reachable m"
    by (intro mgr_run_reachable [OF m(1)]) (simp_all add: demo_manager_def mgr_reachable.new)
  with m manager_safe [of m "MgrSource ''/a'' EvConnected"] show ?thesis by auto
qed

section \<open>The registry a manager implements\<close>

text \<open>
  The abstract state: for each path, the address of the upstream and the sinks in the order
  they were added. The events of a source do not show.
\<close>

type_synonym registry = "bytes \<Rightarrow> (bytes \<times> nat list) option"

definition registry_of :: "relay_manager \<Rightarrow> registry" where
  "registry_of m = (\<lambda>path. map_option (\<lambda>rel. (rel_upstream_url rel, rel_sinks rel)) (rm_find m path))"

definition registry_step :: "nat \<Rightarrow> mgr_op \<Rightarrow> registry \<Rightarrow> registry" where
  "registry_step limit op g =
     (case op of
        MgrAdd path url \<Rightarrow>
          if g path = None \<and> card (dom g) < limit then g(path \<mapsto> (url, [])) else g
      | MgrRemove path \<Rightarrow> g(path := None)
      | MgrAddSink path sink \<Rightarrow>
          (case g path of None \<Rightarrow> g | Some (url, ss) \<Rightarrow> g(path \<mapsto> (url, ss @ [sink])))
      | MgrRemoveSink path sink \<Rightarrow>
          (case g path of None \<Rightarrow> g | Some (url, ss) \<Rightarrow> g(path \<mapsto> (url, removeAll sink ss)))
      | MgrSource path ev \<Rightarrow> g)"

lemma dom_registry: "dom (registry_of m) = dom (rm_find m)"
  by (auto simp: registry_of_def)

lemma registry_count: "rm_inv m \<Longrightarrow> card (dom (registry_of m)) = stream_count m"
  by (simp add: dom_registry stream_count_def rm.size_visit)

lemma registry_put:
  "rm_inv m \<Longrightarrow> registry_of (rm_put path rel m) = (registry_of m)(path \<mapsto> (rel_upstream_url rel, rel_sinks rel))"
  by (auto simp: registry_of_def rm.lookup_store)

lemma registry_put_same:
  "rm_inv m \<Longrightarrow> rm_find m path = Some rel \<Longrightarrow>
    registry_of (rm_put path (rel\<lparr>rel_source := s\<rparr>) m) = registry_of m"
  by (auto simp: registry_of_def rm.lookup_store)

lemma registry_erase: "rm_inv m \<Longrightarrow> registry_of (rm_erase path m) = (registry_of m)(path := None)"
  by (auto simp: registry_of_def rm.lookup_erase)

lemma registry_lookup [simp]:
  "rm_find m path = None \<Longrightarrow> registry_of m path = None"
  "rm_find m path = Some rel \<Longrightarrow> registry_of m path = Some (rel_upstream_url rel, rel_sinks rel)"
  by (simp_all add: registry_of_def)

lemma mgr_step_registry:
  assumes "rm_inv m" and "mgr_step op m = Inr (m', es)"
  shows "registry_of m' = registry_step (rm_max_sources m) op (registry_of m) \<and> rm_inv m' \<and>
    rm_max_sources m' = rm_max_sources m"
proof (cases op)
  case (MgrAdd path url)
  with assms show ?thesis
    by (cases "rm_find m path")
      (auto simp: mgr_step_def add_stream_def Let_def registry_step_def registry_put registry_count
        rm.inv_store frame_simps stream_count_def split: if_splits prod.splits)
next
  case (MgrRemove path)
  with assms show ?thesis
    by (cases "rm_find m path")
      (auto simp: mgr_step_def remove_stream_def registry_step_def registry_erase rm.inv_erase
        frame_simps fun_upd_idem split: sum.splits)
next
  case (MgrAddSink path sink)
  with assms show ?thesis
    by (cases "rm_find m path")
      (auto simp: mgr_step_def add_sink_def registry_step_def registry_put rm.inv_store frame_simps)
next
  case (MgrRemoveSink path sink)
  with assms show ?thesis
    by (cases "rm_find m path")
      (auto simp: mgr_step_def remove_sink_def registry_step_def registry_put rm.inv_store frame_simps
        removeAll_filter_not_eq intro!: ext arg_cong [where f = "\<lambda>p. filter p _"])
next
  case (MgrSource path ev)
  with assms show ?thesis
    by (cases "rm_find m path")
      (auto simp: mgr_step_def with_source_def registry_step_def registry_put_same rm.inv_store
        frame_simps split: sum.splits)
qed

text \<open>
  C22. The relay manager refines the registry: \<open>addStream\<close> adds a path that is new while there
  is room and changes nothing otherwise, \<open>removeStream\<close> removes the path, \<open>addSink\<close> appends the
  sink, \<open>removeSink\<close> removes every copy of it, calls on an unknown path change nothing, and no
  event of a source touches the registry.
\<close>

theorem manager_refines_registry:
  assumes "rm_inv m" and "mgr_step op m = Inr (m', es)"
  shows "registry_of m' = registry_step (rm_max_sources m) op (registry_of m) \<and> rm_inv m' \<and>
    rm_max_sources m' = rm_max_sources m"
  using assms by (rule mgr_step_registry)

theorem manager_refines_registry_witness:
  "\<exists>m es. mgr_step (MgrAdd ''/a'' ''rtsp://h/a'') demo_manager = Inr (m, es) \<and>
     registry_of m = registry_step 2 (MgrAdd ''/a'' ''rtsp://h/a'') (registry_of demo_manager)"
proof -
  have inv: "rm_inv demo_manager" "rm_max_sources demo_manager = 2"
    by (simp_all add: demo_manager_def rm_inv_def relay_manager_new_def)
  obtain m es where m: "mgr_step (MgrAdd ''/a'' ''rtsp://h/a'') demo_manager = Inr (m, es)"
    by (cases "snd (add_stream ''/a'' ''rtsp://h/a'' demo_manager)") (simp add: mgr_step_def)
  with manager_refines_registry [OF inv(1) m] inv(2) show ?thesis by auto
qed

lemma fan_out_registry:
  "fan_out_sinks path m = (case registry_of m path of None \<Rightarrow> [] | Some (url, ss) \<Rightarrow> ss)"
  by (cases "rm_find m path") (simp_all add: fan_out_sinks_def)

lemma fan_out_simps [simp]:
  assumes "rm_inv m"
  shows "fan_out_sinks path' (add_sink path sink m) =
      (if path' = path \<and> has_stream path m then fan_out_sinks path m @ [sink] else fan_out_sinks path' m)"
    and "fan_out_sinks path' (remove_sink path sink m) =
      (if path' = path then filter (\<lambda>s. s \<noteq> sink) (fan_out_sinks path m) else fan_out_sinks path' m)"
  using assms by (auto simp: fan_out_sinks_def add_sink_def remove_sink_def has_stream_def rm.lookup_store
      split: option.split)

lemma sink_ops_frame [simp]:
  "rm_inv m \<Longrightarrow> rm_inv (add_sink path sink m)" "rm_inv m \<Longrightarrow> rm_inv (remove_sink path sink m)"
  "rm_inv m \<Longrightarrow> has_stream path' (add_sink path sink m) = has_stream path' m"
  "rm_inv m \<Longrightarrow> has_stream path' (remove_sink path sink m) = has_stream path' m"
  by (auto simp: add_sink_def remove_sink_def has_stream_def rm.lookup_store rm.inv_store
      split: option.split)

text \<open>Nobody else registers a sink, and streams come into being without one.\<close>

lemma mgr_step_fan_out:
  assumes "rm_inv m" "mgr_step op m = Inr (m', es)" "\<forall>path. op \<noteq> MgrAddSink path sink"
    "sink \<in> set (fan_out_sinks path m')"
  shows "sink \<in> set (fan_out_sinks path m)"
  using mgr_step_registry [OF assms(1,2)] assms(3,4)
  by (cases "registry_of m path")
    (auto simp: fan_out_registry registry_step_def split: mgr_op.splits if_splits option.splits)

lemma mgr_step_has_stream:
  assumes "rm_inv m" "mgr_step op m = Inr (m', es)" "\<forall>url. op \<noteq> MgrAdd path url"
    "has_stream path m'"
  shows "has_stream path m"
proof -
  have has: "has_stream path n \<longleftrightarrow> registry_of n path \<noteq> None" for n
    by (simp add: has_stream_def registry_of_def)
  show ?thesis
    using mgr_step_registry [OF assms(1,2)] assms(3,4) unfolding has
    by (auto simp: registry_step_def split: mgr_op.splits if_splits option.splits)
qed

end
