(* ===== verification/Rtsp_Session.thy ===== *)
theory Rtsp_Session
  imports Relay_Manager
begin

text \<open>
  \<open>RtspSession\<close> of \<open>src/src/rtsp_session.h\<close> and \<open>rtsp_session.cpp\<close>: the downstream player. A
  handler works on the session, the relay manager it calls, the outcomes the system still has
  for its next \<open>socket\<close> calls, and the list of the calls it made so far that can be seen from
  outside, in order. The connection is never null here; what the connection does with
  a \<open>send\<close> is the subject of the theory of \<open>TcpConnection\<close>.
\<close>

datatype ses_state = SesIdle | SesDescribe | SesSetup | SesPlaying | SesTeardown

datatype ses_transport = TcpInterleaved | Udp

record sockaddr_in =
  sin_port :: u16
  sin_addr :: "u8 list"

definition sockaddr_zero :: sockaddr_in where
  "sockaddr_zero = \<lparr>sin_port = 0, sin_addr = [0, 0, 0, 0]\<rparr>"

record session =
  ses_id :: nat                  \<comment> \<open>the identity of the object\<close>
  ses_conn_up :: bool            \<comment> \<open>\<open>conn_->connected()\<close>\<close>
  ses_peer_addr :: bytes         \<comment> \<open>\<open>conn_->peerAddr()\<close>\<close>
  ses_stream_path :: bytes
  ses_session_id :: bytes
  ses_state :: ses_state
  ses_cseq :: u32
  ses_transport :: ses_transport
  ses_rtp_channel :: u8
  ses_rtcp_channel :: u8
  ses_udp_rtp_fd :: int
  ses_udp_rtcp_fd :: int
  ses_server_rtp_port :: u16
  ses_server_rtcp_port :: u16
  ses_client_rtp_addr :: sockaddr_in
  ses_client_rtcp_addr :: sockaddr_in
  ses_bytes_sent :: u64
  ses_pkts_sent :: u64

text \<open>
  What the system answers to one \<open>createUdpSocket\<close>: no socket, a socket that cannot be bound,
  or a bound socket and the port that \<open>getsockname\<close> reports.
\<close>

datatype udp_socket = SocketFails | BindFails int | Bound int u16

datatype ses_effect =
  SesSend bytes                    \<comment> \<open>\<open>conn_->send\<close>\<close>
| SesSendTo int sockaddr_in bytes  \<comment> \<open>\<open>sendto\<close> on a UDP descriptor\<close>
| SesOpen int                      \<comment> \<open>a descriptor returned by \<open>socket\<close>\<close>
| SesClose int                     \<comment> \<open>\<open>::close(fd)\<close>\<close>

record session_env =
  env_ses :: session
  env_mgr :: relay_manager
  env_udp :: "udp_socket list"
  env_out :: "ses_effect list"

definition session_new :: "nat \<Rightarrow> bytes \<Rightarrow> u32 \<Rightarrow> session" where
  "session_new self peer rng =
     \<lparr>ses_id = self, ses_conn_up = True, ses_peer_addr = peer, ses_stream_path = [],
      ses_session_id = generate_session_id rng, ses_state = SesIdle, ses_cseq = 0,
      ses_transport = TcpInterleaved, ses_rtp_channel = 0, ses_rtcp_channel = 1,
      ses_udp_rtp_fd = - 1, ses_udp_rtcp_fd = - 1, ses_server_rtp_port = 0,
      ses_server_rtcp_port = 0, ses_client_rtp_addr = sockaddr_zero,
      ses_client_rtcp_addr = sockaddr_zero, ses_bytes_sent = 0, ses_pkts_sent = 0\<rparr>"

text \<open>Changing the session, and recording a call.\<close>

definition on_ses :: "(session \<Rightarrow> session) \<Rightarrow> session_env \<Rightarrow> session_env" where
  "on_ses f e = e\<lparr>env_ses := f (env_ses e)\<rparr>"

definition emit :: "ses_effect \<Rightarrow> session_env \<Rightarrow> session_env" where
  "emit x e = e\<lparr>env_out := env_out e @ [x]\<rparr>"

definition send_response :: "rtsp_message \<Rightarrow> session_env \<Rightarrow> session_env" where
  "send_response resp e = emit (SesSend (rtsp_serialize resp)) e"

definition extract_stream_path :: "bytes \<Rightarrow> bytes" where
  "extract_stream_path url =
     (case str_find url ''://'' 0 of
        None \<Rightarrow> url
      | Some pos \<Rightarrow>
          (case find_char url (CHR ''/'') (pos + 3) of
             None \<Rightarrow> ''/''
           | Some slash \<Rightarrow> substr_from url slash))"

section \<open>UDP sockets\<close>

text \<open>\<open>createUdpSocket(port)\<close>: the descriptor or -1; \<open>port\<close> is assigned on success only.\<close>

definition create_udp_socket :: "u16 \<Rightarrow> session_env \<Rightarrow> int \<times> u16 \<times> session_env" where
  "create_udp_socket port e =
     (let rest = e\<lparr>env_udp := tl (env_udp e)\<rparr> in
      case (if env_udp e = [] then SocketFails else hd (env_udp e)) of
        SocketFails \<Rightarrow> (- 1, port, rest)
      | BindFails fd \<Rightarrow> (- 1, port, emit (SesClose fd) (emit (SesOpen fd) rest))
      | Bound fd port' \<Rightarrow> (fd, port', emit (SesOpen fd) rest))"

definition close_udp_sockets :: "session_env \<Rightarrow> session_env" where
  "close_udp_sockets e =
     (let e = (if ses_udp_rtp_fd (env_ses e) \<ge> 0
               then on_ses (\<lambda>s. s\<lparr>ses_udp_rtp_fd := - 1\<rparr>) (emit (SesClose (ses_udp_rtp_fd (env_ses e))) e)
               else e)
      in if ses_udp_rtcp_fd (env_ses e) \<ge> 0
         then on_ses (\<lambda>s. s\<lparr>ses_udp_rtcp_fd := - 1\<rparr>) (emit (SesClose (ses_udp_rtcp_fd (env_ses e))) e)
         else e)"

text \<open>
  \<open>inet_pton(AF_INET, ...)\<close>: four decimal numbers up to 255, without leading zeros, separated
  by dots; anything else leaves the address as it was.
\<close>

function split_dots :: "bytes \<Rightarrow> bytes list" where
  "split_dots s =
     (case find_char s (CHR ''.'') 0 of
        None \<Rightarrow> [s]
      | Some i \<Rightarrow> substr s 0 i # split_dots (substr_from s (i + 1)))"
  by pat_completeness auto
termination
  by (relation "measure length") (auto dest: find_char_bounds)

declare split_dots.simps [simp del]

definition octet :: "bytes \<Rightarrow> u8 option" where
  "octet p =
     (if p \<noteq> [] \<and> list_all c_isdigit p \<and> length p \<le> 3 \<and> digits_value 0 p \<le> 255 \<and>
         (hd p = CHR ''0'' \<longrightarrow> p = ''0'')
      then Some (word_of_nat (digits_value 0 p)) else None)"

definition inet_pton :: "bytes \<Rightarrow> u8 list \<Rightarrow> u8 list" where
  "inet_pton text old =
     (let parts = map octet (split_dots text)
      in if length parts = 4 \<and> None \<notin> set parts then map the parts else old)"

section \<open>Requests\<close>

definition handle_options :: "rtsp_message \<Rightarrow> session_env \<Rightarrow> session_env" where
  "handle_options req e =
     send_response (set_header ''Session'' (ses_session_id (env_ses e)) (options_response (msg_cseq req))) e"

definition handle_describe :: "rtsp_message \<Rightarrow> session_env \<Rightarrow> session_env" where
  "handle_describe req e =
     (let e = on_ses (\<lambda>s. s\<lparr>ses_stream_path := extract_stream_path (msg_url req), ses_state := SesDescribe\<rparr>) e;
          sdp = get_stream_sdp (ses_stream_path (env_ses e)) (env_mgr e)
      in if sdp = [] then send_response (error_response (msg_cseq req) 404 ''Stream Not Found'') e
         else
           send_response (set_header ''Content-Base'' (msg_url req @ ''/'')
             (describe_response (msg_cseq req) sdp (ses_session_id (env_ses e)))) e)"

text \<open>The ports of a \<open>client_port=a-b\<close>; zero and zero when they are not there.\<close>

definition client_ports :: "bytes \<Rightarrow> u16 \<times> u16" where
  "client_ports tp =
     (case str_find tp ''client_port='' 0 of
        None \<Rightarrow> (0, 0)
      | Some cpos \<Rightarrow>
          (case find_char tp (CHR ''-'') (cpos + 12) of
             None \<Rightarrow> (0, 0)
           | Some dash \<Rightarrow>
               (word_of_int (atoi (drop (cpos + 12) tp)), word_of_int (atoi (drop (dash + 1) tp)))))"

definition setup_tcp :: "rtsp_message \<Rightarrow> bytes \<Rightarrow> session_env \<Rightarrow> session_env" where
  "setup_tcp req tp e =
     (let s = env_ses e;
          chans = interleaved_channels tp (ses_rtp_channel s, ses_rtcp_channel s);
          e = on_ses (\<lambda>s. s\<lparr>ses_transport := TcpInterleaved, ses_rtp_channel := fst chans,
                ses_rtcp_channel := snd chans\<rparr>) e
      in send_response (set_header ''Transport''
           (''RTP/AVP/TCP;unicast;interleaved='' @ dec_int (uint (fst chans)) @ ''-'' @
             dec_int (uint (snd chans)))
           (setup_response (msg_cseq req) (ses_session_id s) 0 0)) e)"

text \<open>The address of the client: the peer address of the connection up to its last colon.\<close>

definition client_ip :: "bytes \<Rightarrow> bytes" where
  "client_ip peer = (case rfind_char peer COLON of None \<Rightarrow> peer | Some colon \<Rightarrow> substr peer 0 colon)"

definition setup_udp :: "rtsp_message \<Rightarrow> bytes \<Rightarrow> session_env \<Rightarrow> session_env" where
  "setup_udp req tp e =
     (let e = on_ses (\<lambda>s. s\<lparr>ses_transport := Udp\<rparr>) e;
          ports = client_ports tp
      in if fst ports = 0 then send_response (error_response (msg_cseq req) 461 ''Bad Transport'') e
         else
           let (fd1, port1, e) = create_udp_socket (ses_server_rtp_port (env_ses e)) e;
               e = on_ses (\<lambda>s. s\<lparr>ses_server_rtp_port := port1, ses_udp_rtp_fd := fd1\<rparr>) e;
               (fd2, port2, e) = create_udp_socket (ses_server_rtcp_port (env_ses e)) e;
               e = on_ses (\<lambda>s. s\<lparr>ses_server_rtcp_port := port2, ses_udp_rtcp_fd := fd2\<rparr>) e
           in if ses_udp_rtp_fd (env_ses e) < 0 \<or> ses_udp_rtcp_fd (env_ses e) < 0
              then send_response (error_response (msg_cseq req) 500 ''UDP socket creation failed'')
                     (close_udp_sockets e)
              else
                let ip = inet_pton (client_ip (ses_peer_addr (env_ses e))) (sin_addr sockaddr_zero);
                    e = on_ses (\<lambda>s. s\<lparr>ses_client_rtp_addr := \<lparr>sin_port = fst ports, sin_addr = ip\<rparr>,
                          ses_client_rtcp_addr := \<lparr>sin_port = snd ports, sin_addr = ip\<rparr>\<rparr>) e
                in send_response (setup_response (msg_cseq req) (ses_session_id (env_ses e))
                     (uint (ses_server_rtp_port (env_ses e))) (uint (ses_server_rtcp_port (env_ses e)))) e)"

definition handle_setup :: "rtsp_message \<Rightarrow> session_env \<Rightarrow> session_env" where
  "handle_setup req e =
     (let e = (if ses_stream_path (env_ses e) = []
               then on_ses (\<lambda>s. s\<lparr>ses_stream_path := extract_stream_path (msg_url req)\<rparr>) e else e);
          e = on_ses (\<lambda>s. s\<lparr>ses_state := SesSetup\<rparr>) e
      in case map_of (msg_headers req) ''Transport'' of
           None \<Rightarrow> send_response (error_response (msg_cseq req) 461 ''Transport header required'') e
         | Some tp \<Rightarrow>
             if str_find tp ''interleaved='' 0 \<noteq> None then setup_tcp req tp e
             else if str_find tp ''client_port='' 0 \<noteq> None then setup_udp req tp e
             else send_response (error_response (msg_cseq req) 461 ''Unsupported Transport'') e)"

definition handle_play :: "rtsp_message \<Rightarrow> session_env \<Rightarrow> session_env" where
  "handle_play req e =
     (let e = on_ses (\<lambda>s. s\<lparr>ses_state := SesPlaying\<rparr>) e;
          s = env_ses e;
          e = e\<lparr>env_mgr := add_sink (ses_stream_path s) (ses_id s) (env_mgr e)\<rparr>
      in send_response (set_header ''RTP-Info'' (''url='' @ msg_url req @ '';seq=0;rtptime=0'')
           (play_response (msg_cseq req) (ses_session_id s))) e)"

definition session_close :: "session_env \<Rightarrow> session_env" where
  "session_close e =
     (if ses_state (env_ses e) = SesTeardown then e
      else
        let old = ses_state (env_ses e);
            e = on_ses (\<lambda>s. s\<lparr>ses_state := SesTeardown\<rparr>) e;
            s = env_ses e;
            e = (if old = SesPlaying \<and> ses_stream_path s \<noteq> []
                 then e\<lparr>env_mgr := remove_sink (ses_stream_path s) (ses_id s) (env_mgr e)\<rparr> else e)
        in close_udp_sockets e)"

definition handle_teardown :: "rtsp_message \<Rightarrow> session_env \<Rightarrow> session_env" where
  "handle_teardown req e =
     session_close (send_response (teardown_response (msg_cseq req) (ses_session_id (env_ses e))) e)"

definition handle_get_parameter :: "rtsp_message \<Rightarrow> session_env \<Rightarrow> session_env" where
  "handle_get_parameter req e =
     send_response (ok_response (msg_cseq req) (ses_session_id (env_ses e))) e"

definition process_request :: "rtsp_message \<Rightarrow> session_env \<Rightarrow> session_env" where
  "process_request req e =
     (if msg_type req = KRequest then
        let e = on_ses (\<lambda>s. s\<lparr>ses_cseq := msg_cseq req\<rparr>) e
        in case msg_method req of
             KOptions \<Rightarrow> handle_options req e
           | KDescribe \<Rightarrow> handle_describe req e
           | KSetup \<Rightarrow> handle_setup req e
           | KPlay \<Rightarrow> handle_play req e
           | KTeardown \<Rightarrow> handle_teardown req e
           | KGetParameter \<Rightarrow> handle_get_parameter req e
           | _ \<Rightarrow> send_response (error_response (msg_cseq req) 461 ''Not Implemented'') e
      else e)"

definition session_on_frame :: "rtsp_frame \<Rightarrow> session_env \<Rightarrow> cpp_error + session_env" where
  "session_on_frame f e =
     (case f of Interleaved channel data \<Rightarrow> Inr e | Message msg \<Rightarrow> Inr (process_request msg e))"

definition handle_rtsp_message ::
  "byte_buffer \<Rightarrow> session_env \<Rightarrow> (cpp_error + byte_buffer \<times> session_env) option" where
  "handle_rtsp_message b e = message_loop rtsp_next_frame session_on_frame b e"

section \<open>Media\<close>

text \<open>\<open>onRtpData\<close>; \<open>n\<close> is what \<open>sendto\<close> returns when it is called.\<close>

definition ses_on_rtp_data :: "int \<Rightarrow> bytes \<Rightarrow> session \<Rightarrow> session \<times> ses_effect list" where
  "ses_on_rtp_data n data s =
     (if ses_state s \<noteq> SesPlaying then (s, [])
      else if ses_transport s = Udp then
        if ses_udp_rtp_fd s \<ge> 0 then
          (if n > 0 then s\<lparr>ses_bytes_sent := ses_bytes_sent s + word_of_int n,
                           ses_pkts_sent := ses_pkts_sent s + 1\<rparr> else s,
           [SesSendTo (ses_udp_rtp_fd s) (ses_client_rtp_addr s) data])
        else (s, [])
      else if \<not> ses_conn_up s then (s, [])
      else
        (s\<lparr>ses_bytes_sent := ses_bytes_sent s + word_of_nat (length data + 4),
           ses_pkts_sent := ses_pkts_sent s + 1\<rparr>,
         [SesSend (interleaved_header (ses_rtp_channel s) (length data)), SesSend data]))"

section \<open>What an operation leaves alone\<close>

lemma env_simps [simp]:
  "env_ses (on_ses f e) = f (env_ses e)" "env_mgr (on_ses f e) = env_mgr e"
  "env_udp (on_ses f e) = env_udp e" "env_out (on_ses f e) = env_out e"
  "env_ses (emit x e) = env_ses e" "env_mgr (emit x e) = env_mgr e"
  "env_udp (emit x e) = env_udp e" "env_out (emit x e) = env_out e @ [x]"
  "env_ses (send_response r e) = env_ses e" "env_mgr (send_response r e) = env_mgr e"
  "env_udp (send_response r e) = env_udp e"
  "env_out (send_response r e) = env_out e @ [SesSend (rtsp_serialize r)]"
  by (simp_all add: on_ses_def emit_def send_response_def)

lemma close_udp_frame [frame_simps]:
  "env_ses (close_udp_sockets e) =
    (env_ses e)\<lparr>ses_udp_rtp_fd := min (- 1) (ses_udp_rtp_fd (env_ses e)),
      ses_udp_rtcp_fd := min (- 1) (ses_udp_rtcp_fd (env_ses e))\<rparr>"
  "env_mgr (close_udp_sockets e) = env_mgr e"
  "env_out (close_udp_sockets e) = env_out e @ map SesClose
     (filter (\<lambda>fd. fd \<ge> 0) [ses_udp_rtp_fd (env_ses e), ses_udp_rtcp_fd (env_ses e)])"
  by (simp_all add: close_udp_sockets_def Let_def min_def)

lemma create_udp_frame [frame_simps]:
  assumes "create_udp_socket port e = (fd, port', e')"
  shows "env_ses e' = env_ses e" "env_mgr e' = env_mgr e"
    and "\<exists>out. env_out e' = env_out e @ out \<and> set out \<subseteq> range SesOpen \<union> range SesClose"
  using assms
  by (auto simp: create_udp_socket_def Let_def split: if_splits udp_socket.splits)

section \<open>Every request is answered once\<close>

fun ses_sent :: "ses_effect list \<Rightarrow> bytes list" where
  "ses_sent [] = []"
| "ses_sent (SesSend d # es) = d # ses_sent es"
| "ses_sent (_ # es) = ses_sent es"

lemma ses_sent_append [simp]: "ses_sent (es @ fs) = ses_sent es @ ses_sent fs"
  by (induction es rule: ses_sent.induct) simp_all

lemma ses_sent_none: "set es \<subseteq> range SesOpen \<union> range SesClose \<Longrightarrow> ses_sent es = []"
  by (induction es rule: ses_sent.induct) auto

lemma ses_sent_closes [simp]: "ses_sent (map SesClose fds) = []"
  by (induction fds) simp_all

lemma create_udp_sends_nothing:
  "create_udp_socket port e = (fd, port', e') \<Longrightarrow> ses_sent (env_out e') = ses_sent (env_out e)"
  using create_udp_frame(3) [of port e fd port' e'] by (auto simp: ses_sent_none)

text \<open>One answer, with the sequence number of the request and a status out of a set.\<close>

definition answers :: "rtsp_message \<Rightarrow> int set \<Rightarrow> session_env \<Rightarrow> session_env \<Rightarrow> bool" where
  "answers req codes e e' \<longleftrightarrow>
     (\<exists>resp. ses_sent (env_out e') = ses_sent (env_out e) @ [rtsp_serialize resp] \<and>
        msg_type resp = KResponse \<and> msg_cseq resp = msg_cseq req \<and> msg_status_code resp \<in> codes)"

lemma response_fields [simp]:
  "msg_type (set_header k v m) = msg_type m" "msg_cseq (set_header k v m) = msg_cseq m"
  "msg_status_code (set_header k v m) = msg_status_code m"
  "msg_body (set_header k v m) = msg_body m"
  "msg_type (response_new st rs c) = KResponse" "msg_cseq (response_new st rs c) = c"
  "msg_status_code (response_new st rs c) = st" "msg_body (response_new st rs c) = []"
  by (simp_all add: set_header_def response_new_def rtsp_message_new_def)

lemmas response_defs =
  options_response_def describe_response_def setup_response_def play_response_def
  teardown_response_def ok_response_def error_response_def

lemma answers_send [intro]:
  assumes "msg_type resp = KResponse" "msg_cseq resp = msg_cseq req" "msg_status_code resp \<in> codes"
    "ses_sent (env_out e0) = ses_sent (env_out e)"
  shows "answers req codes e (send_response resp e0)"
  using assms by (auto simp: answers_def)

lemma answers_setup_udp: "answers req {200, 461, 500} e (setup_udp req tp e)"
proof -
  obtain fd1 p1 e1 where 1: "create_udp_socket (ses_server_rtp_port (env_ses e))
      (on_ses (\<lambda>s. s\<lparr>ses_transport := Udp\<rparr>) e) = (fd1, p1, e1)"
    by (metis prod_cases3)
  define e1' where "e1' = on_ses (\<lambda>s. s\<lparr>ses_server_rtp_port := p1, ses_udp_rtp_fd := fd1\<rparr>) e1"
  obtain fd2 p2 e2 where 2: "create_udp_socket (ses_server_rtcp_port (env_ses e1')) e1' = (fd2, p2, e2)"
    by (metis prod_cases3)
  have "ses_sent (env_out e2) = ses_sent (env_out e)"
    using create_udp_sends_nothing [OF 1] create_udp_sends_nothing [OF 2] by (simp add: e1'_def)
  then show ?thesis
    using 1 2 unfolding e1'_def
    by (auto simp: setup_udp_def Let_def response_defs frame_simps intro!: answers_send)
qed

lemma answers_cong: "ses_sent (env_out e0) = ses_sent (env_out e) \<Longrightarrow>
    answers req codes e e' \<longleftrightarrow> answers req codes e0 e'"
  by (simp add: answers_def)

lemma answers_setup_udp_from:
  "ses_sent (env_out e) = ses_sent (env_out e0) \<Longrightarrow> answers req {200, 461, 500} e0 (setup_udp req tp e)"
  using answers_setup_udp [of req e tp] by (simp add: answers_def)

lemma answers_setup: "answers req {200, 461, 500} e (handle_setup req e)"
  by (auto simp: handle_setup_def setup_tcp_def Let_def response_defs split: option.split
      intro!: answers_send answers_setup_udp_from)

lemma answers_teardown: "answers req {200} e (handle_teardown req e)"
  by (auto simp: handle_teardown_def session_close_def answers_def Let_def frame_simps response_defs)

text \<open>The statuses a request can be answered with.\<close>

definition reply_codes :: "rtsp_message \<Rightarrow> session_env \<Rightarrow> int set" where
  "reply_codes req e =
     (case msg_method req of
        KDescribe \<Rightarrow>
          if get_stream_sdp (extract_stream_path (msg_url req)) (env_mgr e) = [] then {404} else {200}
      | KSetup \<Rightarrow> {200, 461, 500}
      | KOptions \<Rightarrow> {200} | KPlay \<Rightarrow> {200} | KTeardown \<Rightarrow> {200} | KGetParameter \<Rightarrow> {200}
      | _ \<Rightarrow> {461})"

lemma answers_request:
  assumes "msg_type req = KRequest"
  shows "answers req (reply_codes req e) e (process_request req e)"
proof -
  let ?e = "on_ses (\<lambda>s. s\<lparr>ses_cseq := msg_cseq req\<rparr>) e"
  have "ses_sent (env_out ?e) = ses_sent (env_out e)" by simp
  note same = answers_cong [OF this, of req]
  have "answers req (reply_codes req e) ?e (process_request req e)"
    using assms answers_setup [of req ?e] answers_teardown [of req ?e]
    by (cases "msg_method req")
      (auto simp: process_request_def reply_codes_def handle_options_def handle_describe_def
        handle_play_def handle_get_parameter_def Let_def response_defs intro!: answers_send)
  with same show ?thesis by simp
qed

text \<open>
  A session answers every request exactly once, whatever its state: the one message sent
  is a response with the \<open>CSeq\<close> of the request; the status is 200 for OPTIONS, PLAY,
  TEARDOWN and GET_PARAMETER, 200 or 404 for DESCRIBE according to whether the stream has an
  SDP, 461 for the methods that are not implemented. A message that is not a request is not
  answered.
\<close>

theorem session_answers_once:
  "if msg_type req = KRequest then answers req (reply_codes req e) e (process_request req e)
   else process_request req e = e"
  by (simp add: answers_request) (simp add: process_request_def)

section \<open>A concrete session\<close>

definition demo_relay :: relay_manager where
  "demo_relay = rm_put ''/cam''
     \<lparr>rel_source = (source_new ''rtsp://10.0.0.2/live'' ''/cam'')\<lparr>src_sdp := ''v=0''\<rparr>,
      rel_upstream_url = ''rtsp://10.0.0.2/live'', rel_sinks = []\<rparr> relay_manager_new"

definition demo_session :: session_env where
  "demo_session =
     \<lparr>env_ses = session_new 7 (''10.0.0.5'' @ COLON # ''40000'') 0x0a1b2c3d, env_mgr = demo_relay,
      env_udp = [Bound 9 5000, Bound 10 5001], env_out = []\<rparr>"

definition demo_request :: "rtsp_method \<Rightarrow> u32 \<Rightarrow> headers \<Rightarrow> rtsp_message" where
  "demo_request meth cseq hs =
     (request_new meth ''rtsp://relay:554/cam'' cseq)\<lparr>msg_headers := hs\<rparr>"

section \<open>Negotiation and media\<close>

lemma wire_ok_describe_response:
  assumes "LF \<notin> set url" "hd (url @ ''/'') \<noteq> SPACE" "length url + length sdp < 2 ^ 30"
    "sid = generate_session_id rng"
  shows "wire_ok (set_header ''Content-Base'' (url @ ''/'') (describe_response cseq sdp sid))" (is "wire_ok ?r")
proof -
  have "unat cseq < 10 ^ 10" using unsigned_less [of cseq, where 'a = nat] by simp
  then have "length (dec_nat (unat cseq)) \<le> 10" by (rule length_dec_nat) simp
  moreover have "length (dec_nat (length sdp)) \<le> 10" using assms(3) by (intro length_dec_nat) simp_all
  moreover have "dec_int 200 = ''200''" by code_simp
  ultimately have "length (rtsp_serialize ?r) < 2 ^ 31"
    using assms(3,4)
    by (simp add: rtsp_serialize_def describe_response_def start_line_def set_header_def response_new_def
        rtsp_message_new_def Let_def)
  then show ?thesis
    using assms
    by (simp add: wire_ok_def describe_response_def set_header_def response_new_def rtsp_message_new_def
        header_ok_def Let_def)
qed

text \<open>
  The SDP of the upstream reaches the player: DESCRIBE on the URL of a stream whose source
  holds an SDP is answered by one message that parses, whatever follows it in the player's
  buffer, to a 200 response with the \<open>CSeq\<close> of the request, the session's identifier and
  exactly that SDP.
\<close>

theorem describe_delivers_sdp:
  assumes "msg_type req = KRequest" and "msg_method req = KDescribe"
    and "LF \<notin> set (msg_url req)" and "SPACE \<notin> set (msg_url req)"
    and "get_stream_sdp (extract_stream_path (msg_url req)) (env_mgr e) = sdp" and "sdp \<noteq> []"
    and "ses_session_id (env_ses e) = generate_session_id rng"
    and "length (msg_url req) + length sdp < 2 ^ 30"
  shows "\<exists>data m. ses_sent (env_out (process_request req e)) = ses_sent (env_out e) @ [data] \<and>
    rtsp_parse (data @ rest) rtsp_message_new = Inr (True, m, length data) \<and>
    msg_status_code m = 200 \<and> msg_cseq m = msg_cseq req \<and>
    msg_session_id m = ses_session_id (env_ses e) \<and> msg_sdp m = sdp"
proof -
  let ?sid = "ses_session_id (env_ses e)"
  let ?r = "set_header ''Content-Base'' (msg_url req @ ''/'') (describe_response (msg_cseq req) sdp ?sid)"
  have "hd (msg_url req @ ''/'') \<noteq> SPACE" using assms(4) by (cases "msg_url req") auto
  then have ok: "wire_ok ?r" using assms(3,7,8) by (intro wire_ok_describe_response) simp_all
  have sent: "ses_sent (env_out (process_request req e)) = ses_sent (env_out e) @ [rtsp_serialize ?r]"
    using assms(1,2,5,6) by (simp add: process_request_def handle_describe_def Let_def)
  have sdp: "says_sdp (msg_headers ?r)"
    by (auto simp: says_sdp_def describe_response_def set_header_def response_new_def
        rtsp_message_new_def Let_def str_find_def)
  have "msg_status_code (rtsp_received ?r) = 200 \<and> msg_cseq (rtsp_received ?r) = msg_cseq req \<and>
      msg_session_id (rtsp_received ?r) = ?sid \<and> msg_sdp (rtsp_received ?r) = sdp"
    using sdp assms(7)
    by (simp add: rtsp_received_def describe_response_def set_header_def response_new_def
        rtsp_message_new_def Let_def)
  with rtsp_parse_serialize [OF ok, of rest] sent show ?thesis by blast
qed

theorem describe_delivers_sdp_witness:
  "\<exists>data m. ses_sent (env_out (process_request (demo_request KDescribe 2 []) demo_session)) = [data] \<and>
    rtsp_parse (data @ ''$'') rtsp_message_new = Inr (True, m, length data) \<and> msg_sdp m = ''v=0''"
proof -
  let ?req = "demo_request KDescribe 2 []"
  have "msg_type ?req = KRequest" "msg_method ?req = KDescribe" "LF \<notin> set (msg_url ?req)"
    "SPACE \<notin> set (msg_url ?req)"
    "get_stream_sdp (extract_stream_path (msg_url ?req)) (env_mgr demo_session) = ''v=0''"
    "''v=0'' \<noteq> []" "ses_session_id (env_ses demo_session) = generate_session_id 0x0a1b2c3d"
    "length (msg_url ?req) + length ''v=0'' < 2 ^ 30"
    by code_simp+
  from describe_delivers_sdp [OF this, of "''$''"]
  show ?thesis by (auto simp: demo_session_def)
qed

text \<open>A player that has asked for TCP, and the packet it gets.\<close>

lemma setup_tcp_channels:
  assumes "msg_type req = KRequest" "msg_method req = KSetup"
    "map_of (msg_headers req) ''Transport'' =
      Some (''RTP/AVP/TCP;unicast;interleaved='' @ dec_nat (unat a) @ CHR ''-'' # dec_nat (unat b))"
  shows "env_ses (process_request req e) =
    (env_ses e)\<lparr>ses_cseq := msg_cseq req, ses_state := SesSetup, ses_transport := TcpInterleaved,
      ses_rtp_channel := a, ses_rtcp_channel := b,
      ses_stream_path := (if ses_stream_path (env_ses e) = [] then extract_stream_path (msg_url req)
                          else ses_stream_path (env_ses e))\<rparr>"
proof -
  let ?tp = "''RTP/AVP/TCP;unicast;interleaved='' @ dec_nat (unat a) @ CHR ''-'' # dec_nat (unat b)"
  have found: "str_find ?tp ''interleaved='' 0 = Some 20" by (simp add: str_find_def)
  then have "interleaved_channels ?tp c = (a, b)" for c
    using interleaved_channels_printed [of "''RTP/AVP/TCP;unicast;interleaved=''" a b "[]" c] by simp
  with assms found show ?thesis
    by (simp add: process_request_def handle_setup_def setup_tcp_def Let_def)
qed

lemma on_rtp_data_tcp:
  assumes "ses_state s = SesPlaying" "ses_transport s = TcpInterleaved" "ses_conn_up s"
  shows "ses_sent (snd (ses_on_rtp_data n d s)) = [interleaved_header (ses_rtp_channel s) (length d), d]"
  using assms by (simp add: ses_on_rtp_data_def)

text \<open>
  A player that negotiated interleaved channels \<open>a-b\<close> and then sent PLAY is in the sink
  list of its stream, and every packet (below 64 KiB) pushed to it leaves as bytes that its
  own receive loop cuts into one interleaved frame on channel \<open>a\<close> with exactly the payload.
\<close>

theorem tcp_player_receives:
  fixes a b :: u8
  assumes "msg_type req = KRequest" and "msg_method req = KSetup"
    and "map_of (msg_headers req) ''Transport'' =
      Some (''RTP/AVP/TCP;unicast;interleaved='' @ dec_nat (unat a) @ CHR ''-'' # dec_nat (unat b))"
    and "msg_type req' = KRequest" and "msg_method req' = KPlay"
    and "ses_conn_up (env_ses e)" and "length d < 65536"
  shows "let e' = process_request req' (process_request req e);
             bytes = concat (ses_sent (snd (ses_on_rtp_data n d (env_ses e'))))
         in rtsp_next_frame (bytes @ rest) = Item (Interleaved a d) (length bytes) \<and>
            (has_stream (ses_stream_path (env_ses e')) (env_mgr e') \<longrightarrow>
              ses_id (env_ses e') \<in> set (fan_out_sinks (ses_stream_path (env_ses e')) (env_mgr e')))"
proof -
  define e1 where "e1 = process_request req e"
  have s1: "ses_transport (env_ses e1) = TcpInterleaved" "ses_rtp_channel (env_ses e1) = a"
    "ses_conn_up (env_ses e1)"
    using setup_tcp_channels [OF assms(1-3), of e] assms(6) by (simp_all add: e1_def)
  have s2: "env_ses (process_request req' e1) =
      (env_ses e1)\<lparr>ses_cseq := msg_cseq req', ses_state := SesPlaying\<rparr>"
    "env_mgr (process_request req' e1) = add_sink (ses_stream_path (env_ses e1)) (ses_id (env_ses e1)) (env_mgr e1)"
    using assms(4,5) by (simp_all add: process_request_def handle_play_def Let_def)
  have "rtsp_next_frame ((interleaved_header a (length d) @ d) @ rest) =
      Item (Interleaved a d) (length (interleaved_header a (length d) @ d))"
    using next_frame_interleaved [OF assms(7), of a rest] by (simp add: interleaved_header_def)
  then show ?thesis
    using s1 s2 by (simp add: e1_def [symmetric] on_rtp_data_tcp Let_def has_stream_def add_sink_def
        fan_out_sinks_def rm_find_def rm_put_def AList.update_conv' split: option.split)
qed

theorem tcp_player_receives_witness:
  "let sreq = demo_request KSetup 3
         [(''Transport'', ''RTP/AVP/TCP;unicast;interleaved='' @ dec_nat (unat (4 :: u8)) @ CHR ''-'' # dec_nat (unat (5 :: u8)))];
       e' = process_request (demo_request KPlay 4 []) (process_request sreq demo_session);
       bytes = concat (ses_sent (snd (ses_on_rtp_data 0 ''abc'' (env_ses e'))))
   in rtsp_next_frame (bytes @ ''x'') = Item (Interleaved 4 ''abc'') (length bytes) \<and>
      (has_stream (ses_stream_path (env_ses e')) (env_mgr e') \<longrightarrow>
        ses_id (env_ses e') \<in> set (fan_out_sinks (ses_stream_path (env_ses e')) (env_mgr e')))"
  unfolding Let_def
  by (rule tcp_player_receives [unfolded Let_def, where b = 5])
    (simp_all add: demo_request_def request_new_def rtsp_message_new_def demo_session_def session_new_def)

section \<open>A player that asked for UDP\<close>

text \<open>\<open>inet_ntop(AF_INET, ...)\<close>, as \<open>TcpServer\<close> prints the address of the peer.\<close>

fun inet_ntop :: "u8 list \<Rightarrow> bytes" where
  "inet_ntop [] = []"
| "inet_ntop [b] = dec_nat (unat b)"
| "inet_ntop (b # bs) = dec_nat (unat b) @ CHR ''.'' # inet_ntop bs"

lemma dec_nat_no_dot:
  "CHR ''.'' \<notin> set (dec_nat n)" "COLON \<notin> set (dec_nat n)" "CHR ''='' \<notin> set (dec_nat n)"
proof -
  have "\<forall>c \<in> set (dec_nat n). c_isdigit c" using dec_nat_digits digit_char_facts(1) by metis
  then show "CHR ''.'' \<notin> set (dec_nat n)" "COLON \<notin> set (dec_nat n)" "CHR ''='' \<notin> set (dec_nat n)" by (auto simp: c_isdigit_def)
qed

lemma split_dots_last: "CHR ''.'' \<notin> set s \<Longrightarrow> split_dots s = [s]"
  using find_char_None [of s "CHR ''.''"] by (simp add: split_dots.simps [of s])

lemma split_dots_append: "CHR ''.'' \<notin> set s \<Longrightarrow> split_dots (s @ CHR ''.'' # rest) = s # split_dots rest"
  by (subst split_dots.simps) (simp add: find_char_append substr_def)

lemma dec_nat_leading_zero: "0 < n \<Longrightarrow> hd (dec_nat n) \<noteq> CHR ''0''"
proof (induction n rule: dec_nat.induct)
  case (1 n)
  show ?case
  proof (cases "n < 10")
    case True
    with 1 have "n \<in> {1, 2, 3, 4, 5, 6, 7, 8, 9}" by auto
    then show ?thesis by (auto simp: dec_nat.simps [of n] digit_char_def)
  next
    case False
    with 1 show ?thesis by (simp add: dec_nat.simps [of n])
  qed
qed

lemma octet_dec [simp]: "octet (dec_nat (unat b)) = Some b"
proof -
  have b: "unat b < 256" using unsigned_less [of b, where 'a = nat] by simp
  have "dec_nat 0 = ''0''" by code_simp
  then have "hd (dec_nat (unat b)) = CHR ''0'' \<longrightarrow> dec_nat (unat b) = ''0''"
    using dec_nat_leading_zero [of "unat b"] by (cases "unat b = 0") auto
  moreover have "length (dec_nat (unat b)) \<le> 3" using b by (intro length_dec_nat) simp_all
  moreover have "list_all c_isdigit (dec_nat (unat b))"
    using dec_nat_digits digit_char_facts(1) unfolding list_all_iff by metis
  ultimately show ?thesis using b by (simp add: octet_def digits_value_dec_nat)
qed

lemma inet_pton_ntop: "inet_pton (inet_ntop [a, b, c, d]) old = [a, b, c, d]"
  by (simp add: inet_pton_def split_dots_append split_dots_last dec_nat_no_dot)

lemma client_ip_printed: "client_ip (inet_ntop [a, b, c, d] @ COLON # dec_nat port) = inet_ntop [a, b, c, d]"
  by (simp add: client_ip_def rfind_char_append dec_nat_no_dot substr_def del: inet_ntop.simps)

lemma client_ports_printed_at:
  fixes p q :: u16
  assumes "str_find (pre @ dec_nat (unat p) @ CHR ''-'' # dec_nat (unat q)) ''client_port='' 0 =
      Some (length pre - 12)" "12 \<le> length pre"
  shows "client_ports (pre @ dec_nat (unat p) @ CHR ''-'' # dec_nat (unat q)) = (p, q)"
proof -
  have small: "unat w < 2 ^ 31" for w :: u16
    using unsigned_less [of w, where 'a = nat] by simp
  have "atoi (dec_nat (unat p) @ CHR ''-'' # dec_nat (unat q)) = int (unat p)"
    by (rule atoi_dec_nat_before [OF small]) (simp add: c_isdigit_def)
  moreover have "atoi (dec_nat (unat q)) = int (unat q)"
    using atoi_dec_nat_before [OF small, of "[]" q] by simp
  ultimately show ?thesis
    using assms dash_after_dec [of pre "unat p" "dec_nat (unat q)"] by (simp add: client_ports_def)
qed

lemma client_ports_printed:
  fixes p q :: u16
  shows "client_ports (''RTP/AVP;unicast;client_port='' @ dec_nat (unat p) @ CHR ''-'' # dec_nat (unat q)) = (p, q)"
  by (rule client_ports_printed_at) (simp_all add: str_find_def)

lemma setup_udp_opens:
  assumes "fst (client_ports tp) \<noteq> 0" "env_udp e = [Bound fd1 p1, Bound fd2 p2]" "0 \<le> fd1" "0 \<le> fd2"
  shows "env_ses (setup_udp req tp e) =
      (let ip = inet_pton (client_ip (ses_peer_addr (env_ses e))) (sin_addr sockaddr_zero)
       in (env_ses e)\<lparr>ses_transport := Udp, ses_server_rtp_port := p1, ses_udp_rtp_fd := fd1,
            ses_server_rtcp_port := p2, ses_udp_rtcp_fd := fd2,
            ses_client_rtp_addr := \<lparr>sin_port = fst (client_ports tp), sin_addr = ip\<rparr>,
            ses_client_rtcp_addr := \<lparr>sin_port = snd (client_ports tp), sin_addr = ip\<rparr>\<rparr>)"
    and "env_out (setup_udp req tp e) = env_out e @ [SesOpen fd1, SesOpen fd2,
      SesSend (rtsp_serialize (setup_response (msg_cseq req) (ses_session_id (env_ses e)) (uint p1) (uint p2)))]"
  using assms by (simp_all add: setup_udp_def create_udp_socket_def Let_def)

text \<open>
  A player that asked for UDP with ports \<open>p-q\<close> and then sent PLAY gets each packet as one
  datagram to port \<open>p\<close> of the address its own connection comes from, out of the socket whose
  port SETUP announced.
\<close>

theorem udp_player_receives:
  fixes p q :: u16
  assumes "msg_type req = KRequest" and "msg_method req = KSetup"
    and "map_of (msg_headers req) ''Transport'' =
      Some (''RTP/AVP;unicast;client_port='' @ dec_nat (unat p) @ CHR ''-'' # dec_nat (unat q))"
    and "p \<noteq> 0" and "ses_peer_addr (env_ses e) = inet_ntop [i1, i2, i3, i4] @ COLON # dec_nat port"
    and "env_udp e = [Bound fd1 p1, Bound fd2 p2]" and "0 \<le> fd1" and "0 \<le> fd2"
    and "msg_type req' = KRequest" and "msg_method req' = KPlay"
  shows "let e1 = process_request req e; s = env_ses (process_request req' e1)
    in env_out e1 = env_out e @ [SesOpen fd1, SesOpen fd2, SesSend (rtsp_serialize
         (setup_response (msg_cseq req) (ses_session_id (env_ses e)) (uint p1) (uint p2)))] \<and>
       snd (ses_on_rtp_data n d s) = [SesSendTo fd1 \<lparr>sin_port = p, sin_addr = [i1, i2, i3, i4]\<rparr> d]"
proof -
  let ?tp = "''RTP/AVP;unicast;client_port='' @ dec_nat (unat p) @ CHR ''-'' # dec_nat (unat q)"
  have "str_find ?tp ''client_port='' 0 = Some 16" by (simp add: str_find_def)
  moreover have "str_find ?tp ''interleaved='' 0 = None"
  proof -
    have eq: "drop 28 ?tp = dec_nat (unat p) @ CHR ''-'' # dec_nat (unat q)"
      "CHR ''='' \<notin> set (drop 28 ?tp)" by (simp_all add: dec_nat_no_dot)
    have none: "CHR ''='' \<notin> set xs \<Longrightarrow> find_sub ''interleaved='' xs = None" for xs
      by (induction xs) (auto simp: prefix_def)
    show ?thesis using none [OF eq(2)] eq(1) by (simp add: str_find_def)
  qed
  moreover note client_ports_printed [of p q]
  ultimately show ?thesis
    using assms client_ip_printed [of i1 i2 i3 i4 port] inet_pton_ntop [of i1 i2 i3 i4]
    by (simp add: process_request_def handle_setup_def handle_play_def ses_on_rtp_data_def Let_def
        setup_udp_opens [where ?fd1.0 = fd1 and ?fd2.0 = fd2 and ?p1.0 = p1 and ?p2.0 = p2]
        del: inet_ntop.simps)
qed

theorem udp_player_receives_witness:
  "let sreq = demo_request KSetup 3
         [(''Transport'', ''RTP/AVP;unicast;client_port='' @ dec_nat (unat (6000 :: u16)) @ CHR ''-'' # dec_nat (unat (6001 :: u16)))];
       e1 = process_request sreq demo_session;
       s = env_ses (process_request (demo_request KPlay 4 []) e1)
   in env_out e1 = [SesOpen 9, SesOpen 10, SesSend (rtsp_serialize
        (setup_response 3 (ses_session_id (env_ses demo_session)) (uint (5000 :: u16)) (uint (5001 :: u16))))] \<and>
      snd (ses_on_rtp_data 3 ''abc'' s) = [SesSendTo 9 \<lparr>sin_port = 6000, sin_addr = [10, 0, 0, 5]\<rparr> ''abc'']"
proof -
  let ?sreq = "demo_request KSetup 3
    [(''Transport'', ''RTP/AVP;unicast;client_port='' @ dec_nat (unat (6000 :: u16)) @ CHR ''-'' # dec_nat (unat (6001 :: u16)))]"
  let ?play = "demo_request KPlay 4 []"
  have fields: "msg_type ?sreq = KRequest" "msg_method ?sreq = KSetup"
    "map_of (msg_headers ?sreq) ''Transport'' =
      Some (''RTP/AVP;unicast;client_port='' @ dec_nat (unat (6000 :: u16)) @ CHR ''-'' # dec_nat (unat (6001 :: u16)))"
    "(6000 :: u16) \<noteq> 0"
    by (simp_all add: demo_request_def request_new_def rtsp_message_new_def)
  have peer: "ses_peer_addr (env_ses demo_session) = inet_ntop [10, 0, 0, 5] @ COLON # dec_nat 40000"
    by code_simp
  have more: "env_udp demo_session = [Bound 9 5000, Bound 10 5001]" "(0 :: int) \<le> 9" "(0 :: int) \<le> 10"
    "msg_type ?play = KRequest" "msg_method ?play = KPlay"
    by (simp_all add: demo_session_def demo_request_def request_new_def rtsp_message_new_def)
  have "env_out demo_session = []" "msg_cseq ?sreq = 3"
    by (simp_all add: demo_session_def demo_request_def request_new_def rtsp_message_new_def)
  with udp_player_receives [OF fields peer more, of 3 "''abc''"] show ?thesis by simp
qed

end
