(* ===== verification/Session_Lifecycle.thy ===== *)
theory Session_Lifecycle
  imports Rtsp_Session
begin

text \<open>
  The life of a session (\<open>src/src/rtsp_session.cpp\<close>) as a sequence of events: requests of the
  player, packets pushed to it, the loss and the close of its connection, and what others do to
  the relay manager in between. Two resources have to be given back by \<open>close\<close>: the entry in the
  sink list of a stream, and the UDP descriptors. They are, for a player that does
  not negotiate again while it plays or holds descriptors; two theorems show what happens to
  one that does.
\<close>

datatype ses_event =
  SesRequest rtsp_message "udp_socket list"  \<comment> \<open>with what the system answers to its \<open>socket\<close> calls\<close>
| SesMedia int bytes
| SesLost
| SesClosed
| SesElsewhere mgr_op

definition ses_step :: "ses_event \<Rightarrow> session_env \<Rightarrow> session_env" where
  "ses_step ev e =
     (case ev of
        SesRequest req results \<Rightarrow> process_request req (e\<lparr>env_udp := results\<rparr>)
      | SesMedia n d \<Rightarrow>
          (case ses_on_rtp_data n d (env_ses e) of (s, out) \<Rightarrow> e\<lparr>env_ses := s, env_out := env_out e @ out\<rparr>)
      | SesLost \<Rightarrow> on_ses (\<lambda>s. s\<lparr>ses_conn_up := False\<rparr>) e
      | SesClosed \<Rightarrow> session_close e
      | SesElsewhere op \<Rightarrow>
          (case mgr_step op (env_mgr e) of Inl err \<Rightarrow> e | Inr (m, es) \<Rightarrow> e\<lparr>env_mgr := m\<rparr>))"

fun ses_run :: "ses_event list \<Rightarrow> session_env \<Rightarrow> session_env" where
  "ses_run [] e = e"
| "ses_run (ev # evs) e = ses_run evs (ses_step ev e)"

section \<open>Descriptors\<close>

text \<open>The descriptors that a list of calls leaves open.\<close>

fun open_fds :: "int set \<Rightarrow> ses_effect list \<Rightarrow> int set" where
  "open_fds S [] = S"
| "open_fds S (SesOpen fd # es) = open_fds (insert fd S) es"
| "open_fds S (SesClose fd # es) = open_fds (S - {fd}) es"
| "open_fds S (_ # es) = open_fds S es"

lemma open_fds_append [simp]: "open_fds S (es @ fs) = open_fds (open_fds S es) fs"
  by (induction S es rule: open_fds.induct) simp_all

text \<open>What \<open>socket\<close> promises: a descriptor is not negative and not one that is open.\<close>

fun os_ok :: "int set \<Rightarrow> udp_socket list \<Rightarrow> bool" where
  "os_ok S [] = True"
| "os_ok S (SocketFails # rs) = os_ok S rs"
| "os_ok S (BindFails fd # rs) = (0 \<le> fd \<and> fd \<notin> S \<and> os_ok S rs)"
| "os_ok S (Bound fd port # rs) = (0 \<le> fd \<and> fd \<notin> S \<and> os_ok (insert fd S) rs)"

definition ses_fds :: "session \<Rightarrow> int set" where
  "ses_fds s = set (filter (\<lambda>fd. fd \<ge> 0) [ses_udp_rtp_fd s, ses_udp_rtcp_fd s])"

definition fds_match :: "session_env \<Rightarrow> bool" where
  "fds_match e \<longleftrightarrow> open_fds {} (env_out e) = ses_fds (env_ses e)"

lemma create_udp_opens:
  assumes "create_udp_socket port e = (fd, port', e')" "open_fds {} (env_out e) = S" "os_ok S (env_udp e)"
  shows "open_fds {} (env_out e') = S \<union> set (filter (\<lambda>fd. fd \<ge> 0) [fd]) \<and>
    os_ok (S \<union> set (filter (\<lambda>fd. fd \<ge> 0) [fd])) (env_udp e')"
proof (cases "env_udp e")
  case Nil
  with assms show ?thesis by (auto simp: create_udp_socket_def)
next
  case (Cons r rs)
  from Cons assms show ?thesis
    by (cases r) (auto simp: create_udp_socket_def)
qed

lemma fds_match_simps [simp]:
  "fds_match (send_response r e) = fds_match e"
  "(\<And>s. ses_fds (f s) = ses_fds s) \<Longrightarrow> fds_match (on_ses f e) = fds_match e"
  "fds_match (e\<lparr>env_mgr := m\<rparr>) = fds_match e"
  "fds_match (e\<lparr>env_udp := rs\<rparr>) = fds_match e"
  by (simp_all add: fds_match_def)

lemma ses_fds_simps [simp]:
  "ses_fds (s\<lparr>ses_state := st\<rparr>) = ses_fds s" "ses_fds (s\<lparr>ses_transport := tr\<rparr>) = ses_fds s"
  "ses_fds (s\<lparr>ses_cseq := c\<rparr>) = ses_fds s" "ses_fds (s\<lparr>ses_stream_path := p\<rparr>) = ses_fds s"
  "ses_fds (s\<lparr>ses_rtp_channel := a\<rparr>) = ses_fds s" "ses_fds (s\<lparr>ses_rtcp_channel := b\<rparr>) = ses_fds s"
  "ses_fds (s\<lparr>ses_client_rtp_addr := x\<rparr>) = ses_fds s"
  "ses_fds (s\<lparr>ses_client_rtcp_addr := y\<rparr>) = ses_fds s"
  "ses_fds (s\<lparr>ses_conn_up := u\<rparr>) = ses_fds s"
  by (simp_all add: ses_fds_def)

lemma fds_match_close [simp]:
  "fds_match e \<Longrightarrow> fds_match (close_udp_sockets e)" "ses_fds (env_ses (close_udp_sockets e)) = {}"
  by (simp_all add: fds_match_def frame_simps ses_fds_def min_def)

lemma fds_match_setup_udp:
  assumes "fds_match e" "ses_fds (env_ses e) = {}" "os_ok {} (env_udp e)"
  shows "fds_match (setup_udp req tp e)"
proof (cases "fst (client_ports tp) = 0")
  case True
  with assms(1) show ?thesis by (simp add: setup_udp_def)
next
  case False
  obtain fd1 p1 e1 where 1: "create_udp_socket (ses_server_rtp_port (env_ses e))
      (on_ses (\<lambda>s. s\<lparr>ses_transport := Udp\<rparr>) e) = (fd1, p1, e1)"
    by (metis prod_cases3)
  define e1' where "e1' = on_ses (\<lambda>s. s\<lparr>ses_server_rtp_port := p1, ses_udp_rtp_fd := fd1\<rparr>) e1"
  obtain fd2 p2 e2 where 2: "create_udp_socket (ses_server_rtcp_port (env_ses e1')) e1' = (fd2, p2, e2)"
    by (metis prod_cases3)
  define e3 where "e3 = on_ses (\<lambda>s. s\<lparr>ses_server_rtcp_port := p2, ses_udp_rtcp_fd := fd2\<rparr>) e2"
  have o1: "open_fds {} (env_out e1') = set (filter (\<lambda>fd. fd \<ge> 0) [fd1])"
    "os_ok (set (filter (\<lambda>fd. fd \<ge> 0) [fd1])) (env_udp e1')"
    using create_udp_opens [OF 1, of "{}"] assms by (simp_all add: e1'_def fds_match_def)
  have "ses_udp_rtp_fd (env_ses e3) = fd1" "ses_udp_rtcp_fd (env_ses e3) = fd2"
    using create_udp_frame(1) [OF 2] by (simp_all add: e3_def e1'_def)
  then have "fds_match e3"
    using create_udp_opens [OF 2 o1] by (auto simp: fds_match_def ses_fds_def e3_def)
  with 1 2 False show ?thesis
    unfolding e1'_def e3_def by (simp add: setup_udp_def Let_def)
qed

lemma fds_match_request:
  assumes "fds_match e" "os_ok (ses_fds (env_ses e)) (env_udp e)"
    "msg_method req = KSetup \<Longrightarrow> ses_fds (env_ses e) = {}"
  shows "fds_match (process_request req e)"
  using assms
  by (cases "msg_method req")
    (auto simp: process_request_def handle_options_def handle_describe_def handle_play_def
      handle_get_parameter_def handle_teardown_def session_close_def handle_setup_def setup_tcp_def
      Let_def split: option.split intro!: fds_match_setup_udp)

section \<open>Sinks\<close>

definition registered :: "session_env \<Rightarrow> bytes \<Rightarrow> bool" where
  "registered e path \<longleftrightarrow> ses_id (env_ses e) \<in> set (fan_out_sinks path (env_mgr e))"

definition sink_inv :: "session_env \<Rightarrow> bool" where
  "sink_inv e \<longleftrightarrow> rm_inv (env_mgr e) \<and> \<not> has_stream [] (env_mgr e) \<and>
     (\<forall>path. registered e path \<longrightarrow> ses_state (env_ses e) = SesPlaying \<and> path = ses_stream_path (env_ses e))"

lemma registered_has_stream: "registered e path \<Longrightarrow> has_stream path (env_mgr e)"
  by (cases "rm_find (env_mgr e) path") (auto simp: registered_def fan_out_sinks_def has_stream_def)

text \<open>An answer, or a change of fields the invariant does not read, keeps it.\<close>

lemma sink_inv_simps [simp]:
  "sink_inv (send_response r e) = sink_inv e" "sink_inv (e\<lparr>env_udp := rs\<rparr>) = sink_inv e"
  by (simp_all add: sink_inv_def registered_def)

lemma sink_inv_idle:
  assumes "sink_inv e" "ses_state (env_ses e) \<noteq> SesPlaying" "env_mgr e' = env_mgr e"
    "ses_id (env_ses e') = ses_id (env_ses e)"
  shows "sink_inv e'"
  using assms by (auto simp: sink_inv_def registered_def)

lemma sink_inv_same:
  assumes "sink_inv e" "env_mgr e' = env_mgr e" "ses_id (env_ses e') = ses_id (env_ses e)"
    "ses_state (env_ses e') = ses_state (env_ses e)" "ses_stream_path (env_ses e') = ses_stream_path (env_ses e)"
  shows "sink_inv e'"
  using assms by (auto simp: sink_inv_def registered_def)

lemma setup_udp_frame [frame_simps]:
  "env_mgr (setup_udp req tp e) = env_mgr e" "ses_id (env_ses (setup_udp req tp e)) = ses_id (env_ses e)"
  by (auto simp: setup_udp_def Let_def frame_simps split: prod.split)

lemma handle_setup_frame [frame_simps]:
  "env_mgr (handle_setup req e) = env_mgr e" "ses_id (env_ses (handle_setup req e)) = ses_id (env_ses e)"
  by (auto simp: handle_setup_def setup_tcp_def Let_def frame_simps split: option.split)

lemma handle_describe_frame [frame_simps]:
  "env_mgr (handle_describe req e) = env_mgr e"
  "ses_id (env_ses (handle_describe req e)) = ses_id (env_ses e)"
  by (simp_all add: handle_describe_def Let_def)

lemma sink_inv_play: "sink_inv e \<Longrightarrow> sink_inv (handle_play req e)"
  by (auto simp: sink_inv_def registered_def handle_play_def Let_def split: if_splits)

lemma session_close_frame [frame_simps]:
  "env_mgr (session_close e) =
    (if ses_state (env_ses e) = SesPlaying \<and> ses_stream_path (env_ses e) \<noteq> []
     then remove_sink (ses_stream_path (env_ses e)) (ses_id (env_ses e)) (env_mgr e) else env_mgr e)"
  "ses_id (env_ses (session_close e)) = ses_id (env_ses e)"
  "ses_state (env_ses (session_close e)) = SesTeardown"
  by (simp_all add: session_close_def Let_def frame_simps)

lemma sink_inv_close:
  assumes "sink_inv e"
  shows "sink_inv (session_close e)" "\<not> registered (session_close e) path"
proof -
  let ?s = "env_ses e"
  have inv: "rm_inv (env_mgr e)" using assms by (simp add: sink_inv_def)
  have path: "registered e p \<Longrightarrow> ses_state ?s = SesPlaying \<and> p = ses_stream_path ?s \<and> p \<noteq> []" for p
    using assms registered_has_stream [of e p] by (auto simp: sink_inv_def)
  show none: "\<not> registered (session_close e) path" for path
  proof
    assume "registered (session_close e) path"
    then have r: "ses_id ?s \<in> set (fan_out_sinks path (env_mgr (session_close e)))"
      by (simp add: registered_def frame_simps)
    then have "registered e path"
      using inv by (auto simp: registered_def frame_simps split: if_splits)
    with path [of path] r inv show False by (auto simp: frame_simps)
  qed
  have "rm_inv (env_mgr (session_close e)) \<and> \<not> has_stream [] (env_mgr (session_close e))"
    using assms by (simp add: sink_inv_def frame_simps)
  with none show "sink_inv (session_close e)" by (simp add: sink_inv_def)
qed

lemma sink_inv_request:
  assumes "sink_inv e" "ses_state (env_ses e) = SesPlaying \<Longrightarrow> msg_method req \<notin> {KDescribe, KSetup}"
  shows "sink_inv (process_request req e)"
proof (cases "msg_type req = KRequest")
  case True
  define e0 where "e0 = on_ses (\<lambda>s. s\<lparr>ses_cseq := msg_cseq req\<rparr>) e"
  have e0: "sink_inv e0" using assms(1) by (rule sink_inv_same) (simp_all add: e0_def)
  have st: "ses_state (env_ses e0) = ses_state (env_ses e)" by (simp add: e0_def)
  show ?thesis
  proof (cases "msg_method req")
    case KDescribe
    with True e0 st assms(2) show ?thesis
      by (auto simp: process_request_def e0_def [symmetric] frame_simps intro: sink_inv_idle)
  next
    case KSetup
    with True e0 st assms(2) show ?thesis
      by (auto simp: process_request_def e0_def [symmetric] frame_simps intro: sink_inv_idle)
  qed (use True e0 in \<open>simp_all add: process_request_def e0_def [symmetric] handle_options_def
        handle_get_parameter_def handle_teardown_def sink_inv_play sink_inv_close\<close>)
qed (use assms in \<open>simp add: process_request_def\<close>)

section \<open>A whole life\<close>

text \<open>
  The player does not negotiate again while it plays, nor ask for a transport while it holds
  descriptors; the system keeps its promise about descriptors; nobody else
  registers this session, and no stream has the empty path.
\<close>

definition orderly :: "ses_event \<Rightarrow> session_env \<Rightarrow> bool" where
  "orderly ev e =
     (case ev of
        SesRequest req results \<Rightarrow>
          (ses_state (env_ses e) = SesPlaying \<longrightarrow> msg_method req \<notin> {KDescribe, KSetup}) \<and>
          (msg_method req = KSetup \<longrightarrow> ses_fds (env_ses e) = {}) \<and>
          os_ok (ses_fds (env_ses e)) results
      | SesElsewhere op \<Rightarrow>
          (case op of MgrAdd path url \<Rightarrow> path \<noteq> []
                    | MgrAddSink path sink \<Rightarrow> sink \<noteq> ses_id (env_ses e)
                    | _ \<Rightarrow> True)
      | _ \<Rightarrow> True)"

fun orderly_run :: "ses_event list \<Rightarrow> session_env \<Rightarrow> bool" where
  "orderly_run [] e = True"
| "orderly_run (ev # evs) e = (orderly ev e \<and> orderly_run evs (ses_step ev e))"

definition ses_inv :: "session_env \<Rightarrow> bool" where
  "ses_inv e \<longleftrightarrow> sink_inv e \<and> fds_match e \<and>
     (ses_state (env_ses e) = SesTeardown \<longrightarrow> ses_fds (env_ses e) = {})"

lemma open_fds_sends [simp]: "\<forall>x \<in> set es. case x of SesSend d \<Rightarrow> True | SesSendTo fd a d \<Rightarrow> True | _ \<Rightarrow> False \<Longrightarrow>
    open_fds S es = S"
  by (induction S es rule: open_fds.induct) auto

lemma on_rtp_data_frame [frame_simps]:
  assumes "ses_on_rtp_data n d s = (s', out)"
  shows "ses_id s' = ses_id s" "ses_state s' = ses_state s" "ses_stream_path s' = ses_stream_path s"
    "ses_fds s' = ses_fds s" "open_fds S out = S"
  using assms by (auto simp: ses_on_rtp_data_def ses_fds_def split: if_splits)

lemma setup_udp_state: "ses_state (env_ses (setup_udp req tp x)) = ses_state (env_ses x)"
  by (auto simp: setup_udp_def Let_def frame_simps split: prod.split)

lemma handle_setup_state: "ses_state (env_ses (handle_setup req e)) = SesSetup"
  by (auto simp: handle_setup_def setup_tcp_def Let_def setup_udp_state split: option.split)

lemma handle_describe_state: "ses_state (env_ses (handle_describe req e)) = SesDescribe"
  by (simp add: handle_describe_def Let_def)

text \<open>The state a request leads to depends on its method only.\<close>

definition state_after :: "rtsp_message \<Rightarrow> ses_state \<Rightarrow> ses_state" where
  "state_after req st =
     (if msg_type req \<noteq> KRequest then st
      else case msg_method req of
             KDescribe \<Rightarrow> SesDescribe | KSetup \<Rightarrow> SesSetup | KPlay \<Rightarrow> SesPlaying
           | KTeardown \<Rightarrow> SesTeardown | _ \<Rightarrow> st)"

lemma process_request_state:
  "ses_state (env_ses (process_request req e)) = state_after req (ses_state (env_ses e))"
  by (cases "msg_method req")
    (simp_all add: state_after_def process_request_def handle_options_def handle_describe_state
      handle_setup_state handle_play_def handle_get_parameter_def handle_teardown_def
      session_close_frame(3) Let_def)

lemma session_close_fds:
  "ses_fds (env_ses (session_close e)) = (if ses_state (env_ses e) = SesTeardown then ses_fds (env_ses e) else {})"
  by (simp add: session_close_def Let_def)

lemma teardown_fds:
  assumes "ses_state (env_ses e) = SesTeardown \<Longrightarrow> ses_fds (env_ses e) = {}"
    and "ses_state (env_ses (process_request req e)) = SesTeardown"
  shows "ses_fds (env_ses (process_request req e)) = {}"
  using assms unfolding process_request_state
  by (cases "msg_method req")
    (simp_all add: state_after_def process_request_def handle_options_def
      handle_get_parameter_def handle_teardown_def session_close_fds Let_def split: if_splits)

lemma fds_match_session_close: "fds_match e \<Longrightarrow> fds_match (session_close e)"
  by (simp add: session_close_def Let_def)

lemma ses_inv_close: "ses_inv e \<Longrightarrow> ses_inv (session_close e) \<and> ses_fds (env_ses (session_close e)) = {}"
  using sink_inv_close [of e]
  by (auto simp: ses_inv_def session_close_fds fds_match_session_close)

text \<open>What others do on the manager.\<close>

lemma sink_inv_elsewhere:
  assumes "sink_inv e" "orderly (SesElsewhere op) e" and m: "mgr_step op (env_mgr e) = Inr (m, es)"
  shows "sink_inv (e\<lparr>env_mgr := m\<rparr>)"
proof -
  have inv: "rm_inv (env_mgr e)" using assms(1) by (simp add: sink_inv_def)
  have ops: "op \<noteq> MgrAdd [] url" "op \<noteq> MgrAddSink path (ses_id (env_ses e))" for url path
    using assms(2) by (auto simp: orderly_def)
  have "rm_inv m" using mgr_step_registry [OF inv m] by simp
  moreover have "\<not> has_stream [] m"
    using mgr_step_has_stream [OF inv m, of "[]"] assms(1) ops(1) by (auto simp: sink_inv_def)
  moreover have "ses_id (env_ses e) \<in> set (fan_out_sinks path m) \<Longrightarrow> registered e path" for path
    using mgr_step_fan_out [OF inv m] ops(2) by (auto simp: registered_def)
  ultimately show ?thesis using assms(1) by (auto simp: sink_inv_def registered_def)
qed

lemma ses_inv_step [keeps_inv]:
  assumes "ses_inv e" "orderly ev e"
  shows "ses_inv (ses_step ev e)"
proof (cases ev)
  case (SesRequest req results)
  let ?e = "e\<lparr>env_udp := results\<rparr>"
  have "sink_inv (process_request req ?e)"
    using assms SesRequest by (intro sink_inv_request) (auto simp: ses_inv_def orderly_def)
  moreover have "fds_match (process_request req ?e)"
    using assms SesRequest by (intro fds_match_request) (auto simp: ses_inv_def orderly_def)
  moreover have "ses_state (env_ses (process_request req ?e)) = SesTeardown \<longrightarrow>
      ses_fds (env_ses (process_request req ?e)) = {}"
    using assms(1) teardown_fds [of ?e req] by (auto simp: ses_inv_def)
  ultimately show ?thesis by (simp add: ses_inv_def ses_step_def SesRequest)
next
  case (SesMedia n d)
  obtain s' out where r: "ses_on_rtp_data n d (env_ses e) = (s', out)" by (cases "ses_on_rtp_data n d (env_ses e)")
  note frame = on_rtp_data_frame [OF r]
  have "sink_inv (e\<lparr>env_ses := s', env_out := env_out e @ out\<rparr>)"
    using frame(1-3) assms(1) by - (rule sink_inv_same [of e], simp_all add: ses_inv_def)
  with assms(1) frame show ?thesis
    by (simp add: ses_step_def SesMedia r ses_inv_def fds_match_def)
next
  case SesLost
  have "sink_inv (ses_step ev e)"
    using assms(1) by - (rule sink_inv_same [of e], simp_all add: ses_inv_def ses_step_def SesLost)
  with assms(1) show ?thesis by (simp add: ses_inv_def ses_step_def SesLost)
next
  case SesClosed
  with assms(1) ses_inv_close show ?thesis by (simp add: ses_step_def)
next
  case (SesElsewhere op)
  show ?thesis
  proof (cases "mgr_step op (env_mgr e)")
    case (Inl err)
    with SesElsewhere assms(1) show ?thesis by (simp add: ses_step_def)
  next
    case (Inr r)
    obtain m es where m: "mgr_step op (env_mgr e) = Inr (m, es)" using Inr by (cases r) simp
    have "sink_inv (e\<lparr>env_mgr := m\<rparr>)"
      using sink_inv_elsewhere [OF _ _ m] assms SesElsewhere by (simp add: ses_inv_def)
    with assms(1) m show ?thesis by (simp add: ses_step_def SesElsewhere ses_inv_def)
  qed
qed

lemma ses_inv_run: "ses_inv e \<Longrightarrow> orderly_run evs e \<Longrightarrow> ses_inv (ses_run evs e)"
  by (induction evs arbitrary: e) (auto intro: ses_inv_step)

definition session_env_new :: "nat \<Rightarrow> bytes \<Rightarrow> u32 \<Rightarrow> relay_manager \<Rightarrow> session_env" where
  "session_env_new self peer rng m =
     \<lparr>env_ses = session_new self peer rng, env_mgr = m, env_udp = [], env_out = []\<rparr>"

lemma ses_inv_new:
  "rm_inv m \<Longrightarrow> \<not> has_stream [] m \<Longrightarrow> \<forall>path. self \<notin> set (fan_out_sinks path m) \<Longrightarrow>
    ses_inv (session_env_new self peer rng m)"
  by (simp add: ses_inv_def sink_inv_def session_env_new_def registered_def session_new_def
      fds_match_def ses_fds_def)

text \<open>
  C15. A session gives back what it took: after any orderly sequence of requests, packets, loss
  of the connection and actions of others on the relay manager, closing the session leaves it in
  no stream's sink list and leaves no UDP descriptor open; all along, it is in a sink list
  only while it is playing, and then only in that of its own stream.
\<close>

theorem session_releases:
  assumes "rm_inv m" and "\<not> has_stream [] m" and "\<forall>path. self \<notin> set (fan_out_sinks path m)"
    and "orderly_run evs (session_env_new self peer rng m)"
  shows "let e = ses_run evs (session_env_new self peer rng m); e' = ses_step SesClosed e in
    (\<forall>path. registered e path \<longrightarrow> ses_state (env_ses e) = SesPlaying \<and> path = ses_stream_path (env_ses e)) \<and>
    (\<forall>path. \<not> registered e' path) \<and> open_fds {} (env_out e') = {} \<and> ses_state (env_ses e') = SesTeardown"
proof -
  let ?e = "ses_run evs (session_env_new self peer rng m)"
  have inv: "ses_inv ?e" using assms by (intro ses_inv_run ses_inv_new)
  then have "sink_inv ?e" by (simp add: ses_inv_def)
  moreover have "open_fds {} (env_out (session_close ?e)) = {}"
    using ses_inv_close [OF inv] by (simp add: ses_inv_def fds_match_def)
  moreover have "\<forall>path. \<not> registered (session_close ?e) path"
    using sink_inv_close(2) [OF \<open>sink_inv ?e\<close>] by blast
  ultimately show ?thesis
    unfolding ses_step_def ses_event.case Let_def sink_inv_def session_close_frame(3) by blast
qed

definition udp_setup :: rtsp_message where
  "udp_setup = demo_request KSetup 3 [(''Transport'', ''RTP/AVP;unicast;client_port=6000-6001'')]"

definition demo_life :: "ses_event list" where
  "demo_life =
     [SesRequest (demo_request KOptions 1 []) [],
      SesElsewhere (MgrAdd ''/b'' ''rtsp://h/b''), SesElsewhere (MgrAddSink ''/cam'' 8),
      SesRequest (demo_request KDescribe 2 []) [],
      SesRequest udp_setup [BindFails 9, Bound 9 5000],
      SesRequest udp_setup [Bound 9 5000, Bound 10 5001],
      SesRequest (demo_request KPlay 4 []) [], SesMedia 3 ''abc'', SesLost]"

theorem session_releases_witness:
  "let e = ses_run demo_life (session_env_new 7 ''10.0.0.5:40000'' 1 demo_relay)
   in registered e ''/cam'' \<and> open_fds {} (env_out e) = {9, 10} \<and>
      (\<forall>path. \<not> registered (ses_step SesClosed e) path) \<and>
      open_fds {} (env_out (ses_step SesClosed e)) = {}"
proof -
  let ?e0 = "session_env_new 7 ''10.0.0.5:40000'' 1 demo_relay"
  have "rm_inv demo_relay" "\<not> has_stream [] demo_relay" by code_simp+
  moreover have "\<forall>path. 7 \<notin> set (fan_out_sinks path demo_relay)"
    by (simp add: fan_out_sinks_def demo_relay_def rm_find_def rm_put_def relay_manager_new_def)
  moreover have "orderly_run demo_life ?e0" by code_simp
  moreover have "registered (ses_run demo_life ?e0) ''/cam''"
    "open_fds {} (env_out (ses_run demo_life ?e0)) = {9, 10}" by code_simp+
  ultimately show ?thesis
    using session_releases [of demo_relay 7 demo_life "''10.0.0.5:40000''" 1] unfolding Let_def by blast
qed

section \<open>Players that do negotiate again\<close>

lemma closed_stays:
  "ses_state (env_ses e) = SesTeardown \<Longrightarrow> ses_run (replicate n SesClosed) e = e"
  by (induction n) (simp_all add: ses_step_def session_close_def)

text \<open>
  A player that sends SETUP or DESCRIBE while it plays and then closes its connection stays
  in the sink list for good: the state is no longer playing, so \<open>close\<close> does not remove it, and
  every later \<open>close\<close> returns at once.
\<close>

theorem session_sink_leak:
  assumes "registered e path" and "msg_type req = KRequest" and "msg_method req \<in> {KDescribe, KSetup}"
  shows "let e' = ses_run (SesRequest req results # replicate (Suc n) SesClosed) e
    in registered e' path \<and> ses_state (env_ses e') = SesTeardown"
proof -
  let ?e1 = "process_request req (e\<lparr>env_udp := results\<rparr>)"
  have st: "ses_state (env_ses ?e1) \<noteq> SesPlaying"
    using assms(2,3) by (auto simp: process_request_state state_after_def)
  have r1: "registered ?e1 path"
    using assms by (auto simp: registered_def process_request_def frame_simps)
  have "ses_run (replicate n SesClosed) (session_close ?e1) = session_close ?e1"
    by (rule closed_stays) (simp add: frame_simps)
  moreover have "registered (session_close ?e1) path"
    using st r1 by (simp add: registered_def frame_simps)
  ultimately show ?thesis by (simp add: ses_step_def frame_simps)
qed

theorem session_sink_leak_witness:
  "let e = ses_run [SesRequest (demo_request KDescribe 2 []) [], SesRequest (demo_request KPlay 4 []) []] demo_session;
       e' = ses_run (SesRequest udp_setup [] # replicate (Suc 1) SesClosed) e
   in registered e' ''/cam'' \<and> ses_state (env_ses e') = SesTeardown"
proof -
  let ?e = "ses_run [SesRequest (demo_request KDescribe 2 []) [], SesRequest (demo_request KPlay 4 []) []] demo_session"
  have "registered ?e ''/cam''" "msg_type udp_setup = KRequest" "msg_method udp_setup \<in> {KDescribe, KSetup}"
    by code_simp+
  from session_sink_leak [OF this] show ?thesis unfolding Let_def by blast
qed

text \<open>
  A player that asks for UDP a second time loses the first pair of descriptors: the fields
  are overwritten, \<open>close\<close> closes the second pair only, and the first stays open as long as the
  process runs.
\<close>

theorem udp_setup_twice_leaks:
  assumes "msg_type req = KRequest" and "msg_method req = KSetup"
    and "map_of (msg_headers req) ''Transport'' = Some tp" and "str_find tp ''interleaved='' 0 = None"
    and "str_find tp ''client_port='' 0 \<noteq> None" and "fst (client_ports tp) \<noteq> 0"
    and "open_fds {} (env_out e) = {}" and "distinct [a, b, c, d]" and "\<forall>fd \<in> {a, b, c, d}. 0 \<le> fd"
  shows "open_fds {} (env_out (ses_run
      [SesRequest req [Bound a p1, Bound b p2], SesRequest req [Bound c p3, Bound d p4], SesClosed] e)) = {a, b}"
proof -
  have one: "env_out (process_request req (x\<lparr>env_udp := [Bound fd1 q1, Bound fd2 q2]\<rparr>)) =
        env_out x @ [SesOpen fd1, SesOpen fd2, SesSend (rtsp_serialize
          (setup_response (msg_cseq req) (ses_session_id (env_ses x)) (uint q1) (uint q2)))] \<and>
      ses_udp_rtp_fd (env_ses (process_request req (x\<lparr>env_udp := [Bound fd1 q1, Bound fd2 q2]\<rparr>))) = fd1 \<and>
      ses_udp_rtcp_fd (env_ses (process_request req (x\<lparr>env_udp := [Bound fd1 q1, Bound fd2 q2]\<rparr>))) = fd2"
    if "0 \<le> fd1" "0 \<le> fd2" for x fd1 fd2 q1 q2
    using assms(1-6) that
    by (simp add: process_request_def handle_setup_def Let_def
        setup_udp_opens [where ?fd1.0 = fd1 and ?fd2.0 = fd2 and ?p1.0 = q1 and ?p2.0 = q2])
  let ?e1 = "process_request req (e\<lparr>env_udp := [Bound a p1, Bound b p2]\<rparr>)"
  let ?e2 = "process_request req (?e1\<lparr>env_udp := [Bound c p3, Bound d p4]\<rparr>)"
  have nonneg: "0 \<le> a" "0 \<le> b" "0 \<le> c" "0 \<le> d" using assms(9) by simp_all
  note 1 = one [OF nonneg(1,2), where x = e and ?q1.0 = p1 and ?q2.0 = p2]
    and 2 = one [OF nonneg(3,4), where x = ?e1 and ?q1.0 = p3 and ?q2.0 = p4]
  have "ses_state (env_ses ?e2) \<noteq> SesTeardown"
    using assms(1,2) by (simp add: process_request_state state_after_def)
  then have "env_out (session_close ?e2) = env_out ?e2 @ [SesClose c, SesClose d]"
    using 2 nonneg by (simp add: session_close_def Let_def frame_simps)
  then show ?thesis
    using 1 2 assms(7,8) by (auto simp: ses_step_def)
qed

theorem udp_setup_twice_leaks_witness:
  "open_fds {} (env_out (ses_run
      [SesRequest udp_setup [Bound 9 5000, Bound 10 5001], SesRequest udp_setup [Bound 11 5002, Bound 12 5003],
       SesClosed] demo_session)) = {9, 10}"
proof -
  let ?tp = "''RTP/AVP;unicast;client_port=6000-6001''"
  have "msg_type udp_setup = KRequest" "msg_method udp_setup = KSetup"
    "map_of (msg_headers udp_setup) ''Transport'' = Some ?tp" "str_find ?tp ''interleaved='' 0 = None"
    "str_find ?tp ''client_port='' 0 \<noteq> None" "fst (client_ports ?tp) \<noteq> 0"
    "open_fds {} (env_out demo_session) = {}" "distinct [9, 10, 11, 12 :: int]"
    "\<forall>fd \<in> {9, 10, 11, 12 :: int}. 0 \<le> fd"
    by code_simp+
  from udp_setup_twice_leaks [OF this] show ?thesis .
qed

text \<open>
  A second PLAY registers the session a second time: from then on it is pushed every packet
  twice, one copy per entry of the sink list, until \<open>close\<close> removes all entries at once.
\<close>

theorem play_twice_duplicates:
  assumes "rm_inv (env_mgr e)" and "has_stream (ses_stream_path (env_ses e)) (env_mgr e)"
    and "ses_stream_path (env_ses e) \<noteq> []"
    and "msg_type req = KRequest" and "msg_method req = KPlay"
  shows "let path = ses_stream_path (env_ses e); self = ses_id (env_ses e);
             e2 = process_request req (process_request req e)
         in count_list (fan_out_sinks path (env_mgr e2)) self = count_list (fan_out_sinks path (env_mgr e)) self + 2 \<and>
            count_list (fan_out_sinks path (env_mgr (session_close e2))) self = 0"
  using assms by (simp add: process_request_def handle_play_def Let_def frame_simps count_list_0_iff)

theorem play_twice_duplicates_witness:
  "let e = process_request (demo_request KDescribe 2 []) demo_session;
       e2 = process_request (demo_request KPlay 4 []) (process_request (demo_request KPlay 4 []) e)
   in count_list (fan_out_sinks ''/cam'' (env_mgr e2)) 7 = 2"
proof -
  let ?e = "process_request (demo_request KDescribe 2 []) demo_session"
  have facts: "rm_inv (env_mgr ?e)" "has_stream (ses_stream_path (env_ses ?e)) (env_mgr ?e)"
    "ses_stream_path (env_ses ?e) \<noteq> []" "msg_type (demo_request KPlay 4 []) = KRequest"
    "msg_method (demo_request KPlay 4 []) = KPlay" by code_simp+
  have "ses_stream_path (env_ses ?e) = ''/cam''" "ses_id (env_ses ?e) = 7"
    "count_list (fan_out_sinks ''/cam'' (env_mgr ?e)) 7 = 0" by code_simp+
  with play_twice_duplicates [OF facts] show ?thesis unfolding Let_def by simp
qed

end
