(* ===== verification/Relay_System.thy ===== *)
theory Relay_System
  imports Session_Lifecycle
begin

text \<open>
  The relay as a whole: the manager with its sources, and the sessions of all players.
  \<open>RelayManager::onRtpData\<close> pushes a packet to every sink of the stream; the bytes of an upstream
  connection go through the receive loop, the source and the fan-out to the players'
  connections. The theorems follow a packet from the upstream's bytes to the player's frames.
\<close>

record world =
  w_mgr :: relay_manager
  w_sessions :: "nat \<Rightarrow> session option"
  w_out :: "(nat \<times> ses_effect) list"    \<comment> \<open>calls made by sessions, in order\<close>
  w_up :: "mgr_effect list"              \<comment> \<open>calls made by sources, other than forwarding\<close>

section \<open>Fan-out\<close>

text \<open>
  The loop over the sinks; \<open>n i\<close> is what \<open>sendto\<close> returns for the session \<open>i\<close>. A sink always
  has its object: the list owns it.
\<close>

fun push_sinks :: "(nat \<Rightarrow> int) \<Rightarrow> bytes \<Rightarrow> nat list \<Rightarrow> world \<Rightarrow> world" where
  "push_sinks n d [] w = w"
| "push_sinks n d (i # is) w =
     (case w_sessions w i of
        None \<Rightarrow> push_sinks n d is w
      | Some s \<Rightarrow>
          (case ses_on_rtp_data (n i) d s of
             (s', out) \<Rightarrow>
               push_sinks n d is
                 (w\<lparr>w_sessions := (w_sessions w)(i \<mapsto> s'), w_out := w_out w @ map (Pair i) out\<rparr>)))"

definition mgr_on_rtp_data :: "(nat \<Rightarrow> int) \<Rightarrow> bytes \<Rightarrow> bytes \<Rightarrow> world \<Rightarrow> world" where
  "mgr_on_rtp_data n stream_path d w = push_sinks n d (fan_out_sinks stream_path (w_mgr w)) w"

text \<open>The calls of a source, in order: forwarded packets go to the manager.\<close>

fun deliver :: "(nat \<Rightarrow> int) \<Rightarrow> mgr_effect list \<Rightarrow> world \<Rightarrow> world" where
  "deliver n [] w = w"
| "deliver n ((path, SrcForward d) # es) w = deliver n es (mgr_on_rtp_data n path d w)"
| "deliver n (pe # es) w = deliver n es (w\<lparr>w_up := w_up w @ [pe]\<rparr>)"

text \<open>An event of the source of a stream, with what it leads to.\<close>

definition relay_source_event ::
  "(nat \<Rightarrow> int) \<Rightarrow> bytes \<Rightarrow> src_event \<Rightarrow> world \<Rightarrow> cpp_error + world" where
  "relay_source_event n path ev w =
     (case with_source path ev (w_mgr w) of
        Inl e \<Rightarrow> Inl e
      | Inr (m, es) \<Rightarrow> Inr (deliver n es (w\<lparr>w_mgr := m\<rparr>)))"

definition relay_on_frame :: "(nat \<Rightarrow> int) \<Rightarrow> bytes \<Rightarrow> rtsp_frame \<Rightarrow> world \<Rightarrow> cpp_error + world" where
  "relay_on_frame n path f w = relay_source_event n path (EvFrame f) w"

text \<open>The calls of a session so far, and what it handed to its connection.\<close>

definition calls_of :: "nat \<Rightarrow> world \<Rightarrow> ses_effect list" where
  "calls_of i w = map snd (filter (\<lambda>p. fst p = i) (w_out w))"

definition sent_to :: "nat \<Rightarrow> world \<Rightarrow> bytes list" where
  "sent_to i w = ses_sent (calls_of i w)"

section \<open>What a player is sent\<close>

text \<open>A player that gets media over its RTSP connection, and one that gets it over UDP.\<close>

definition tcp_player :: "u8 \<Rightarrow> session option \<Rightarrow> bool" where
  "tcp_player ch so \<longleftrightarrow>
     (case so of None \<Rightarrow> False
      | Some s \<Rightarrow> ses_state s = SesPlaying \<and> ses_transport s = TcpInterleaved \<and> ses_conn_up s \<and>
          ses_rtp_channel s = ch)"

definition udp_player :: "int \<Rightarrow> sockaddr_in \<Rightarrow> session option \<Rightarrow> bool" where
  "udp_player fd addr so \<longleftrightarrow>
     (case so of None \<Rightarrow> False
      | Some s \<Rightarrow> ses_state s = SesPlaying \<and> ses_transport s = Udp \<and> 0 \<le> fd \<and> ses_udp_rtp_fd s = fd \<and>
          ses_client_rtp_addr s = addr)"

lemma filter_Pair [simp]:
  "filter (\<lambda>p. fst p = i) (map (Pair j) out) = (if i = j then map (Pair j) out else [])"
  by (induction out) auto

lemma calls_of_simps [simp]:
  "calls_of i (w\<lparr>w_sessions := ss, w_out := w_out w @ map (Pair j) out\<rparr>) = calls_of i w @ (if i = j then out else [])"
  "calls_of i (w\<lparr>w_mgr := m\<rparr>) = calls_of i w" "calls_of i (w\<lparr>w_up := up\<rparr>) = calls_of i w"
  by (simp_all add: calls_of_def comp_def)

lemma push_sinks_mgr [simp]: "w_mgr (push_sinks n d is w) = w_mgr w"
  by (induction "is" arbitrary: w) (simp_all split: option.split prod.split)

text \<open>Who is not among the sinks is left alone.\<close>

lemma push_sinks_others: "j \<notin> set is \<Longrightarrow> calls_of j (push_sinks n d is w) = calls_of j w"
  by (induction "is" arbitrary: w) (simp_all split: option.split prod.split)

lemma deliver_others:
  "j \<notin> set (fan_out_sinks path (w_mgr w)) \<Longrightarrow> calls_of j (deliver n (map (Pair path) es) w) = calls_of j w"
proof (induction es arbitrary: w)
  case (Cons e es)
  then show ?case by (cases e) (simp_all add: mgr_on_rtp_data_def push_sinks_others)
qed simp

section \<open>From the upstream's bytes to the player's frames\<close>

text \<open>The packets among a list of frames.\<close>

fun media_of :: "rtsp_frame list \<Rightarrow> bytes list" where
  "media_of [] = []"
| "media_of (Interleaved ch d # fs) = d # media_of fs"
| "media_of (Message m # fs) = media_of fs"

lemma media_of_received [simp]: "media_of (map received_frame fs) = media_of fs"
  by (induction fs rule: media_of.induct) simp_all

lemma media_small: "list_all frame_ok fs \<Longrightarrow> \<forall>d \<in> set (media_of fs). length d < 65536"
  by (induction fs rule: media_of.induct) auto

text \<open>The packets a list of calls of a source forwards.\<close>

fun forwards :: "src_effect list \<Rightarrow> bytes list" where
  "forwards [] = []"
| "forwards (SrcForward d # es) = d # forwards es"
| "forwards (_ # es) = forwards es"

lemma forwards_append [simp]: "forwards (es @ es') = forwards es @ forwards es'"
  by (induction es rule: forwards.induct) simp_all

text \<open>What a frame makes a source do: a packet is forwarded once, a message never.\<close>

lemma source_frame_effects:
  assumes "src_inv s" "src_data_cb s"
  shows "\<exists>s' es. source_event (EvFrame f) (s, []) = Inr (s', es) \<and>
    forwards es = media_of [f]"
proof (cases f)
  case (Interleaved ch d)
  with assms show ?thesis
    by (simp add: source_event_def source_on_frame_def source_handle_interleaved_def)
next
  case (Message m)
  obtain s' es where r: "handle_response m (s, []) = Inr (s', es)" "src_inv s'"
    using src_inv_response [OF assms(1)] by blast
  moreover from r(1) have "forwards es = []"
    by (auto simp: handle_response_def src_send_defs Let_def split: if_splits src_state.splits option.splits)
  ultimately show ?thesis using Message by (simp add: source_event_def source_on_frame_def)
qed

text \<open>A kind of player: it stays one under packets, and each packet makes it do the same calls.\<close>

locale relay_player =
  fixes player :: "session option \<Rightarrow> bool" and calls :: "bytes \<Rightarrow> ses_effect list"
  assumes absent: "\<not> player None"
    and pushed: "player (Some s) \<Longrightarrow> ses_on_rtp_data n d s = (s', out) \<Longrightarrow> player (Some s') \<and> out = calls d"
begin

lemma push:
  "player (w_sessions w i) \<Longrightarrow> player (w_sessions (push_sinks n d is w) i) \<and>
    calls_of i (push_sinks n d is w) = calls_of i w @ concat (replicate (count_list is i) (calls d))"
proof (induction "is" arbitrary: w)
  case (Cons j js)
  show ?case
  proof (cases "w_sessions w j")
    case None
    with Cons.prems absent have "j \<noteq> i" by auto
    with Cons None show ?thesis by simp
  next
    case (Some s)
    obtain s' out where r: "ses_on_rtp_data (n j) d s = (s', out)" by (cases "ses_on_rtp_data (n j) d s")
    let ?w = "w\<lparr>w_sessions := (w_sessions w)(j \<mapsto> s'), w_out := w_out w @ map (Pair j) out\<rparr>"
    have "player (w_sessions ?w i) \<and> calls_of i ?w = calls_of i w @ (if i = j then calls d else [])"
      using Cons.prems Some pushed [OF _ r] by auto
    with Cons.IH [of ?w] Some r show ?thesis by simp
  qed
qed simp

text \<open>Sources' other calls reach no player.\<close>

lemma delivered:
  "player (w_sessions w i) \<Longrightarrow> count_list (fan_out_sinks path (w_mgr w)) i = 1 \<Longrightarrow>
    player (w_sessions (deliver n (map (Pair path) es) w) i) \<and> w_mgr (deliver n (map (Pair path) es) w) = w_mgr w \<and>
    calls_of i (deliver n (map (Pair path) es) w) = calls_of i w @ concat (map calls (forwards es))"
proof (induction es arbitrary: w)
  case (Cons e es)
  show ?case
  proof (cases e)
    case (SrcForward d)
    let ?w = "mgr_on_rtp_data n path d w"
    have "player (w_sessions ?w i)" "w_mgr ?w = w_mgr w" "calls_of i ?w = calls_of i w @ calls d"
      using push [OF Cons.prems(1), of n d "fan_out_sinks path (w_mgr w)"] Cons.prems(2)
      by (simp_all add: mgr_on_rtp_data_def)
    with Cons.IH [of ?w] Cons.prems SrcForward show ?thesis by simp
  qed (use Cons.IH [of "w\<lparr>w_up := w_up w @ [(path, e)]\<rparr>"] Cons.prems in simp_all)
qed simp

end

text \<open>What stays true of a stream with a playing sink while frames come in.\<close>

definition relaying :: "(session option \<Rightarrow> bool) \<Rightarrow> bytes \<Rightarrow> nat \<Rightarrow> world \<Rightarrow> bool" where
  "relaying player path i w \<longleftrightarrow> mgr_inv (w_mgr w) \<and> has_stream path (w_mgr w) \<and>
     player (w_sessions w i) \<and> count_list (fan_out_sinks path (w_mgr w)) i = 1"

text \<open>A frame of the upstream makes the source call, and changes no sink list.\<close>

lemma frame_delivered:
  assumes "mgr_inv (w_mgr w)" "has_stream path (w_mgr w)"
  shows "\<exists>m es. relay_on_frame n path f w = Inr (deliver n (map (Pair path) es) (w\<lparr>w_mgr := m\<rparr>)) \<and>
    forwards es = media_of [f] \<and> mgr_inv m \<and> has_stream path m \<and> fan_out_sinks path m = fan_out_sinks path (w_mgr w)"
proof -
  obtain rel where rel: "rm_find (w_mgr w) path = Some rel"
    using assms(2) by (auto simp: has_stream_def)
  have ok: "relay_ok path rel" "rm_inv (w_mgr w)"
    using assms(1) rel mgr_inv_relay by (auto simp: mgr_inv_def)
  obtain s' es where ev: "source_event (EvFrame f) (rel_source rel, []) = Inr (s', es)"
      "forwards es = media_of [f]"
    using source_frame_effects [of "rel_source rel" f] ok(1) by (auto simp: relay_ok_def)
  have "src_inv s'"
    using src_inv_event [of "(rel_source rel, [])" "EvFrame f"] ev(1) ok(1)
    by (simp add: relay_ok_def src_enabled_def)
  then have rel': "relay_ok path (rel\<lparr>rel_source := s'\<rparr>)"
    using relay_ok_event [OF ok(1) ev(1)] by simp
  let ?m = "rm_put path (rel\<lparr>rel_source := s'\<rparr>) (w_mgr w)"
  have m: "mgr_inv ?m" using assms(1) rel rel' by (intro mgr_inv_put) simp_all
  have find: "rm_find ?m path = Some (rel\<lparr>rel_source := s'\<rparr>)" using ok(2) by (simp add: rm.lookup_store)
  have "relay_on_frame n path f w = Inr (deliver n (map (Pair path) es) (w\<lparr>w_mgr := ?m\<rparr>))"
    using rel ev(1) by (simp add: relay_on_frame_def relay_source_event_def with_source_def)
  moreover have "has_stream path ?m" "fan_out_sinks path ?m = fan_out_sinks path (w_mgr w)"
    using rel find by (simp_all add: has_stream_def fan_out_sinks_def)
  ultimately show ?thesis using m ev(2) by blast
qed

context relay_player
begin

lemma frame:
  assumes "relaying player path i w"
  shows "\<exists>w'. relay_on_frame n path f w = Inr w' \<and> relaying player path i w' \<and>
    fan_out_sinks path (w_mgr w') = fan_out_sinks path (w_mgr w) \<and>
    calls_of i w' = calls_of i w @ concat (map calls (media_of [f])) \<and>
    (\<forall>j. j \<notin> set (fan_out_sinks path (w_mgr w)) \<longrightarrow> calls_of j w' = calls_of j w)"
proof -
  obtain m es where step: "relay_on_frame n path f w = Inr (deliver n (map (Pair path) es) (w\<lparr>w_mgr := m\<rparr>))"
    and es: "forwards es = media_of [f]" and m: "mgr_inv m" "has_stream path m"
    and fan: "fan_out_sinks path m = fan_out_sinks path (w_mgr w)"
    using frame_delivered assms unfolding relaying_def by blast
  note d = delivered [of "w\<lparr>w_mgr := m\<rparr>" i path n es]
  show ?thesis
    using step es m fan d assms deliver_others [of _ path "w\<lparr>w_mgr := m\<rparr>" n es] by (simp add: relaying_def)
qed

lemma frames:
  "relaying player path i w \<Longrightarrow>
    \<exists>w'. act_all (relay_on_frame n path) fs w = Inr w' \<and> relaying player path i w' \<and>
      calls_of i w' = calls_of i w @ concat (map calls (media_of fs)) \<and>
      (\<forall>j. j \<notin> set (fan_out_sinks path (w_mgr w)) \<longrightarrow> calls_of j w' = calls_of j w)"
proof (induction fs arbitrary: w)
  case (Cons f fs)
  obtain w1 where w1: "relay_on_frame n path f w = Inr w1" "relaying player path i w1"
    "fan_out_sinks path (w_mgr w1) = fan_out_sinks path (w_mgr w)"
    "calls_of i w1 = calls_of i w @ concat (map calls (media_of [f]))"
    "\<forall>j. j \<notin> set (fan_out_sinks path (w_mgr w)) \<longrightarrow> calls_of j w1 = calls_of j w"
    using frame [OF Cons.prems] by blast
  have "media_of (f # fs) = media_of [f] @ media_of fs" by (cases f) simp_all
  with Cons.IH [OF w1(2)] w1 show ?case by auto
qed simp

end

interpretation to_tcp: relay_player "tcp_player ch" "\<lambda>d. [SesSend (interleaved_header ch (length d)), SesSend d]" for ch
  by unfold_locales (auto simp: tcp_player_def ses_on_rtp_data_def)

interpretation to_udp: relay_player "udp_player fd addr" "\<lambda>d. [SesSendTo fd addr d]" for fd addr
  by unfold_locales (auto simp: udp_player_def ses_on_rtp_data_def)

lemma ses_sent_media: "ses_sent (concat (map (\<lambda>d. [SesSend (h d), SesSend d]) ds)) = concat (map (\<lambda>d. [h d, d]) ds)"
  by (induction ds) simp_all

lemma relay_frames:
  "relaying (tcp_player ch) path i w \<Longrightarrow>
    \<exists>w'. act_all (relay_on_frame n path) fs w = Inr w' \<and>
      sent_to i w' = sent_to i w @ concat (map (\<lambda>d. [interleaved_header ch (length d), d]) (media_of fs))"
  using to_tcp.frames [of ch path i w n fs] by (auto simp: sent_to_def ses_sent_media)

lemma player_bytes:
  "concat (concat (map (\<lambda>d. [interleaved_header ch (length d), d]) ds)) =
    concat (map print_frame (map (Interleaved ch) ds))"
  by (induction ds) simp_all

text \<open>
  C1. The relay is transparent: the upstream of a stream sends any sequence of RTSP messages and
  interleaved packets, and TCP cuts it into any chunks. The receive loop returns after every
  chunk, and a player in the stream's sink list that plays over its RTSP connection on channel
  \<open>ch\<close> has then been sent bytes that its own receive loop, whatever chunks it gets them in,
  cuts into exactly the payloads of those packets, in order, each once, on channel \<open>ch\<close>.
\<close>

theorem relay_end_to_end:
  assumes "mgr_reachable (w_mgr w)" and "has_stream path (w_mgr w)"
    and "tcp_player ch (w_sessions w i)" and "count_list (fan_out_sinks path (w_mgr w)) i = 1"
    and "sent_to i w = []"
    and "list_all frame_ok fs" and "concat chunks = concat (map print_frame fs)" and "chunks \<noteq> []"
    and "length (concat chunks) < 2 ^ 31"
    and "concat (map print_frame (map (Interleaved ch) (media_of fs))) = concat chunks'" and "chunks' \<noteq> []"
    and "length (concat chunks') < 2 ^ 31"
  shows "\<exists>b w' b'. feed_chunks rtsp_next_frame (relay_on_frame n path) chunks (byte_buffer_new cap) w = Some (Inr (b, w')) \<and>
    concat (sent_to i w') = concat chunks' \<and>
    feed_chunks rtsp_next_frame (\<lambda>f acc. Inr (acc @ [f])) chunks' (byte_buffer_new cap') [] =
      Some (Inr (b', map (Interleaved ch) (media_of fs)))"
proof -
  have "relaying (tcp_player ch) path i w" using assms(1-4) mgr_reachable_inv by (simp add: relaying_def)
  then obtain w' where w': "act_all (relay_on_frame n path) (map received_frame fs) w = Inr w'"
    "sent_to i w' = concat (map (\<lambda>d. [interleaved_header ch (length d), d]) (media_of fs))"
    using relay_frames [of ch path i w n "map received_frame fs"] assms(5) by auto
  have same: "map received_frame (map (Interleaved ch) ds) = map (Interleaved ch) ds" for ds
    by (induction ds) simp_all
  have ok: "list_all frame_ok (map (Interleaved ch) (media_of fs))"
    using media_small [OF assms(6)] by (simp add: list_all_iff)
  obtain b where "feed_chunks rtsp_next_frame (relay_on_frame n path) chunks (byte_buffer_new cap) w = Some (Inr (b, w'))"
    using rtsp_feed_printed [OF assms(6-9) w'(1)] by blast
  moreover have "concat (sent_to i w') = concat chunks'"
    unfolding w'(2) player_bytes assms(10) by (rule refl)
  moreover have "\<exists>b'. feed_chunks rtsp_next_frame (\<lambda>f acc. Inr (acc @ [f])) chunks' (byte_buffer_new cap') [] =
      Some (Inr (b', map (Interleaved ch) (media_of fs))) \<and> bb_contents b' = []"
    by (rule rtsp_feed_printed [OF ok assms(10) [symmetric] assms(11,12)], unfold same act_all_collect) simp
  ultimately show ?thesis by blast
qed

definition demo_world :: world where
  "demo_world =
     \<lparr>w_mgr = (case mgr_run [MgrAdd ''/cam'' ''rtsp://10.0.0.2/live'', MgrAddSink ''/cam'' 8, MgrAddSink ''/cam'' 7]
                 demo_manager of Inl e \<Rightarrow> demo_manager | Inr m \<Rightarrow> m),
      w_sessions = [7 \<mapsto> (session_new 7 ''10.0.0.5:40000'' 1)\<lparr>ses_stream_path := ''/cam'', ses_state := SesPlaying,
                     ses_rtp_channel := 4\<rparr>],
      w_out = [], w_up = []\<rparr>"

theorem relay_end_to_end_witness:
  "let fs = [Interleaved 0 ''abc'', Message (response_new 200 ''OK'' 4), Interleaved 1 ''d''];
       wire = concat (map print_frame fs)
   in \<exists>b w' b'. feed_chunks rtsp_next_frame (relay_on_frame (\<lambda>_. 0) ''/cam'') [take 3 wire, drop 3 wire]
        (byte_buffer_new 8) demo_world = Some (Inr (b, w')) \<and>
     feed_chunks rtsp_next_frame (\<lambda>f acc. Inr (acc @ [f])) [concat (sent_to 7 w')] (byte_buffer_new 8) [] =
       Some (Inr (b', [Interleaved 4 ''abc'', Interleaved 4 ''d'']))"
proof -
  let ?fs = "[Interleaved 0 ''abc'', Message (response_new 200 ''OK'' 4), Interleaved 1 ''d'']"
  let ?wire = "concat (map print_frame ?fs)"
  let ?out = "concat (map print_frame (map (Interleaved 4) (media_of ?fs)))"
  let ?ops = "[MgrAdd ''/cam'' ''rtsp://10.0.0.2/live'', MgrAddSink ''/cam'' 8, MgrAddSink ''/cam'' 7]"
  have "mgr_run ?ops demo_manager = Inr (w_mgr demo_world)" by code_simp
  then have "mgr_reachable (w_mgr demo_world)"
    by (rule mgr_run_reachable) (simp_all add: demo_manager_def mgr_reachable.new)
  moreover have "has_stream ''/cam'' (w_mgr demo_world)" "tcp_player 4 (w_sessions demo_world 7)"
    "count_list (fan_out_sinks ''/cam'' (w_mgr demo_world)) 7 = 1" "sent_to 7 demo_world = []"
    "list_all frame_ok ?fs" by code_simp+
  moreover have "concat [take 3 ?wire, drop 3 ?wire] = ?wire" "[take 3 ?wire, drop 3 ?wire] \<noteq> []"
    by (simp_all only: concat.simps append_Nil2 append_take_drop_id list.distinct not_False_eq_True)
  moreover have "length (concat [take 3 ?wire, drop 3 ?wire]) < 2 ^ 31" by code_simp
  moreover have "?out = concat [?out]" "[?out] \<noteq> []" by simp_all
  moreover have "length (concat [?out]) < 2 ^ 31" by code_simp
  ultimately obtain b w' b' where
    "feed_chunks rtsp_next_frame (relay_on_frame (\<lambda>_. 0) ''/cam'') [take 3 ?wire, drop 3 ?wire]
      (byte_buffer_new 8) demo_world = Some (Inr (b, w'))"
    "concat (sent_to 7 w') = concat [?out]"
    "feed_chunks rtsp_next_frame (\<lambda>f acc. Inr (acc @ [f])) [?out] (byte_buffer_new 8) [] =
      Some (Inr (b', map (Interleaved 4) (media_of ?fs)))"
    using relay_end_to_end [of demo_world "''/cam''" 4 7 ?fs "[take 3 ?wire, drop 3 ?wire]" "[?out]"
        "\<lambda>_. 0" 8 8] by blast
  moreover have "map (Interleaved 4) (media_of ?fs) = [Interleaved 4 ''abc'', Interleaved 4 ''d'']" by simp
  ultimately show ?thesis unfolding Let_def by (metis append_Nil2 concat.simps)
qed

section \<open>UDP players\<close>

text \<open>
  C10. The relay over UDP: the same upstream, and a player in the stream's sink list that asked for UDP.
  Whatever \<open>sendto\<close> returns, the calls made for it are one datagram for each packet, to its
  address, with exactly the payload, in order; and no call at all is made for a session that is not in
  the sink list of the stream.
\<close>

theorem relay_to_udp_player:
  assumes "mgr_reachable (w_mgr w)" and "has_stream path (w_mgr w)"
    and "udp_player fd addr (w_sessions w i)" and "count_list (fan_out_sinks path (w_mgr w)) i = 1"
    and "list_all frame_ok fs" and "concat chunks = concat (map print_frame fs)" and "chunks \<noteq> []"
    and "length (concat chunks) < 2 ^ 31"
  shows "\<exists>b w'. feed_chunks rtsp_next_frame (relay_on_frame n path) chunks (byte_buffer_new cap) w = Some (Inr (b, w')) \<and>
    calls_of i w' = calls_of i w @ map (SesSendTo fd addr) (media_of fs) \<and>
    (\<forall>j. j \<notin> set (fan_out_sinks path (w_mgr w)) \<longrightarrow> calls_of j w' = calls_of j w)"
proof -
  have "relaying (udp_player fd addr) path i w" using assms(1-4) mgr_reachable_inv by (simp add: relaying_def)
  from to_udp.frames [OF this, of n "map received_frame fs"] obtain w' where
    w': "act_all (relay_on_frame n path) (map received_frame fs) w = Inr w'"
    "calls_of i w' = calls_of i w @ map (SesSendTo fd addr) (media_of fs)"
    "\<forall>j. j \<notin> set (fan_out_sinks path (w_mgr w)) \<longrightarrow> calls_of j w' = calls_of j w"
    by (auto simp: concat_map_singleton)
  obtain b where "feed_chunks rtsp_next_frame (relay_on_frame n path) chunks (byte_buffer_new cap) w = Some (Inr (b, w'))"
    using rtsp_feed_printed [OF assms(5-8) w'(1)] by blast
  with w' show ?thesis by blast
qed

definition demo_udp_world :: world where
  "demo_udp_world = demo_world\<lparr>w_sessions :=
     [7 \<mapsto> (session_new 7 ''10.0.0.5:40000'' 1)\<lparr>ses_stream_path := ''/cam'', ses_state := SesPlaying,
        ses_transport := Udp, ses_udp_rtp_fd := 9, ses_client_rtp_addr := \<lparr>sin_port = 6000, sin_addr = [10, 0, 0, 5]\<rparr>\<rparr>]\<rparr>"

theorem relay_to_udp_player_witness:
  "let wire = concat (map print_frame [Interleaved 0 ''abc'', Message (response_new 200 ''OK'' 4), Interleaved 1 ''d''])
   in \<exists>b w'. feed_chunks rtsp_next_frame (relay_on_frame (\<lambda>_. - 1) ''/cam'') [take 3 wire, drop 3 wire]
        (byte_buffer_new 8) demo_udp_world = Some (Inr (b, w')) \<and>
      calls_of 7 w' = [SesSendTo 9 \<lparr>sin_port = 6000, sin_addr = [10, 0, 0, 5]\<rparr> ''abc'', SesSendTo 9 \<lparr>sin_port = 6000, sin_addr = [10, 0, 0, 5]\<rparr> ''d''] \<and> calls_of 6 w' = []"
proof -
  let ?fs = "[Interleaved 0 ''abc'', Message (response_new 200 ''OK'' 4), Interleaved 1 ''d'']"
  let ?wire = "concat (map print_frame ?fs)"
  let ?addr = "\<lparr>sin_port = 6000, sin_addr = [10, 0, 0, 5]\<rparr>"
  let ?ops = "[MgrAdd ''/cam'' ''rtsp://10.0.0.2/live'', MgrAddSink ''/cam'' 8, MgrAddSink ''/cam'' 7]"
  have "mgr_run ?ops demo_manager = Inr (w_mgr demo_udp_world)" by code_simp
  then have m: "mgr_reachable (w_mgr demo_udp_world)"
    by (rule mgr_run_reachable) (simp_all add: demo_manager_def mgr_reachable.new)
  have w: "has_stream ''/cam'' (w_mgr demo_udp_world)" "udp_player 9 ?addr (w_sessions demo_udp_world 7)"
    "count_list (fan_out_sinks ''/cam'' (w_mgr demo_udp_world)) 7 = 1" "list_all frame_ok ?fs" by code_simp+
  have chunks: "concat [take 3 ?wire, drop 3 ?wire] = ?wire" "[take 3 ?wire, drop 3 ?wire] \<noteq> []"
    by (simp_all only: concat.simps append_Nil2 append_take_drop_id list.distinct not_False_eq_True)
  have len: "length (concat [take 3 ?wire, drop 3 ?wire]) < 2 ^ 31" by code_simp
  have "6 \<notin> set (fan_out_sinks ''/cam'' (w_mgr demo_udp_world))" by code_simp
  moreover have "calls_of 7 demo_udp_world = []" "calls_of 6 demo_udp_world = []" by code_simp+
  moreover have "map (SesSendTo 9 ?addr) (media_of ?fs) = [SesSendTo 9 ?addr ''abc'', SesSendTo 9 ?addr ''d'']" by simp
  ultimately show ?thesis
    using relay_to_udp_player [OF m w chunks len, of "\<lambda>_. - 1" 8] unfolding Let_def by (metis append_Nil)
qed

end
