(* ===== verification/Event_Loop.thy ===== *)
theory Event_Loop
  imports Keyed_Store "HOL-Library.Multiset"
begin

unbundle bit_operations_syntax

text \<open>
  \<open>EventLoop\<close> of \<open>src/src/event_loop.h\<close> and \<open>event_loop.cpp\<close>, the Linux branch: descriptors
  and their callbacks, tasks posted by any thread, timers, and the loop itself. A callback is a
  closure of the client, of type \<open>'c\<close>; what running one does to the client's state and to the
  loop is the argument \<open>exec\<close>. The clock is an argument of every function that reads it, and so is
  what \<open>epoll_wait\<close> returns; the calls of \<open>epoll_ctl\<close> are recorded.
\<close>

section \<open>State\<close>

definition kEventRead :: u32 where "kEventRead = 1"
definition kEventWrite :: u32 where "kEventWrite = 2"
definition kEventError :: u32 where "kEventError = 4"

definition EPOLLIN :: u32 where "EPOLLIN = 0x001"
definition EPOLLOUT :: u32 where "EPOLLOUT = 0x004"
definition EPOLLERR :: u32 where "EPOLLERR = 0x008"
definition EPOLLHUP :: u32 where "EPOLLHUP = 0x010"

abbreviation has_event :: "u32 \<Rightarrow> u32 \<Rightarrow> bool" where
  "has_event ev m \<equiv> ev AND m \<noteq> 0"

text \<open>The callback the constructor registers itself, and the client's.\<close>

datatype 'c loop_cb = LoopWakeup | LoopClient 'c

text \<open>
  \<open>fe_node\<close> is the identity of the map node: an iterator to an entry that was erased is dangling,
  whatever is stored under the same descriptor later.
\<close>

record 'c fd_entry =
  fe_events :: u32
  fe_read_cb :: "'c loop_cb option"
  fe_write_cb :: "'c loop_cb option"
  fe_error_cb :: "'c loop_cb option"
  fe_node :: nat

record 'c loop_timer =
  tm_id :: int
  tm_expire_ms :: int
  tm_interval_ms :: int
  tm_cb :: "'c option"

text \<open>
  The calls to the kernel's poller: \<open>epoll_ctl\<close> with its operation and mask, and, on macOS, a change
  of one filter in the change list of \<open>kevent\<close>.
\<close>

datatype kev_filter = KevRead | KevWrite

datatype poll_request =
    CtlAdd int u32 | CtlMod int u32 | CtlDel int
  | KevChanges "(int \<times> kev_filter \<times> bool) list"

record 'c event_loop =
  el_quit :: bool
  el_thread :: nat
  el_wakeup :: nat
  el_pending :: "'c list"
  el_fds :: "(int \<times> 'c fd_entry) list"
  el_nodes :: nat
  el_timers :: "'c loop_timer list"
  el_next_timer_id :: int
  el_ctl :: "poll_request list"

section \<open>Operations\<close>

definition epoll_mask :: "u32 \<Rightarrow> u32" where
  "epoll_mask events =
     (if has_event events kEventRead then EPOLLIN else 0) OR
     (if has_event events kEventWrite then EPOLLOUT else 0)"

definition poll_call :: "poll_request \<Rightarrow> 'c event_loop \<Rightarrow> 'c event_loop" where
  "poll_call call el = el\<lparr>el_ctl := el_ctl el @ [call]\<rparr>"

text \<open>The part of \<open>addFd\<close> and \<open>modFd\<close> that both platforms share: the entry.\<close>

definition add_entry :: "int \<Rightarrow> u32 \<Rightarrow> 'c loop_cb \<Rightarrow> 'c event_loop \<Rightarrow> 'c event_loop" where
  "add_entry fd events cb el =
     (let old = map_of (el_fds el) fd;
          entry = \<lparr>fe_events = events,
            fe_read_cb = (if has_event events kEventRead then Some cb else None),
            fe_write_cb = (if has_event events kEventWrite then Some cb else None),
            fe_error_cb = (if has_event events kEventError then Some cb else None),
            fe_node = (case old of Some e \<Rightarrow> fe_node e | None \<Rightarrow> el_nodes el)\<rparr>
      in el\<lparr>el_fds := AList.update fd entry (el_fds el),
            el_nodes := (if old = None then Suc (el_nodes el) else el_nodes el)\<rparr>)"

definition mod_entry :: "int \<Rightarrow> u32 \<Rightarrow> 'c event_loop \<Rightarrow> 'c event_loop option" where
  "mod_entry fd events el =
     (case map_of (el_fds el) fd of
        None \<Rightarrow> None
      | Some e \<Rightarrow>
          (let e = e\<lparr>fe_events := events\<rparr>;
               e = (if has_event events kEventRead \<and> fe_read_cb e = None
                    then e\<lparr>fe_read_cb := fe_error_cb e\<rparr> else e)
           in Some (el\<lparr>el_fds := AList.update fd e (el_fds el)\<rparr>)))"

definition del_entry :: "int \<Rightarrow> 'c event_loop \<Rightarrow> 'c event_loop" where
  "del_entry fd el = el\<lparr>el_fds := AList.delete fd (el_fds el)\<rparr>"

definition add_fd :: "int \<Rightarrow> u32 \<Rightarrow> 'c loop_cb \<Rightarrow> 'c event_loop \<Rightarrow> 'c event_loop" where
  "add_fd fd events cb el = poll_call (CtlAdd fd (epoll_mask events)) (add_entry fd events cb el)"

definition mod_fd :: "int \<Rightarrow> u32 \<Rightarrow> 'c event_loop \<Rightarrow> 'c event_loop" where
  "mod_fd fd events el =
     (case mod_entry fd events el of
        None \<Rightarrow> el
      | Some el \<Rightarrow> poll_call (CtlMod fd (epoll_mask events)) el)"

definition del_fd :: "int \<Rightarrow> 'c event_loop \<Rightarrow> 'c event_loop" where
  "del_fd fd el = poll_call (CtlDel fd) (del_entry fd el)"

text \<open>The three operations in one equation each.\<close>

lemma fd_op_eqs:
  shows add_fd_eq: "add_fd fd events cb el =
     (let old = map_of (el_fds el) fd;
          entry = \<lparr>fe_events = events,
            fe_read_cb = (if has_event events kEventRead then Some cb else None),
            fe_write_cb = (if has_event events kEventWrite then Some cb else None),
            fe_error_cb = (if has_event events kEventError then Some cb else None),
            fe_node = (case old of Some e \<Rightarrow> fe_node e | None \<Rightarrow> el_nodes el)\<rparr>
      in el\<lparr>el_fds := AList.update fd entry (el_fds el),
            el_nodes := (if old = None then Suc (el_nodes el) else el_nodes el),
            el_ctl := el_ctl el @ [CtlAdd fd (epoll_mask events)]\<rparr>)"
    and mod_fd_eq: "mod_fd fd events el =
     (case map_of (el_fds el) fd of
        None \<Rightarrow> el
      | Some e \<Rightarrow>
          (let e = e\<lparr>fe_events := events\<rparr>;
               e = (if has_event events kEventRead \<and> fe_read_cb e = None
                    then e\<lparr>fe_read_cb := fe_error_cb e\<rparr> else e)
           in el\<lparr>el_fds := AList.update fd e (el_fds el),
                 el_ctl := el_ctl el @ [CtlMod fd (epoll_mask events)]\<rparr>))"
    and del_fd_eq: "del_fd fd el = el\<lparr>el_fds := AList.delete fd (el_fds el), el_ctl := el_ctl el @ [CtlDel fd]\<rparr>"
  by (simp_all add: add_fd_def add_entry_def mod_fd_def mod_entry_def del_fd_def del_entry_def poll_call_def Let_def
      split: option.split)

definition wakeup :: "'c event_loop \<Rightarrow> 'c event_loop" where
  "wakeup el = el\<lparr>el_wakeup := Suc (el_wakeup el)\<rparr>"

text \<open>The first read takes the whole counter of the eventfd, the second fails and ends the loop.\<close>

definition handle_wakeup :: "'c event_loop \<Rightarrow> 'c event_loop" where
  "handle_wakeup el = el\<lparr>el_wakeup := 0\<rparr>"

definition push_task :: "'c \<Rightarrow> 'c event_loop \<Rightarrow> 'c event_loop" where
  "push_task task el = el\<lparr>el_pending := el_pending el @ [task]\<rparr>"

definition run_in_loop :: "'c \<Rightarrow> 'c event_loop \<Rightarrow> 'c event_loop" where
  "run_in_loop task el = wakeup (push_task task el)"

definition loop_quit :: "'c event_loop \<Rightarrow> 'c event_loop" where
  "loop_quit el = wakeup (el\<lparr>el_quit := True\<rparr>)"

definition is_in_loop_thread :: "nat \<Rightarrow> 'c event_loop \<Rightarrow> bool" where
  "is_in_loop_thread self el \<longleftrightarrow> self = el_thread el"

definition event_loop_new :: "nat \<Rightarrow> int \<Rightarrow> 'c event_loop" where
  "event_loop_new self efd =
     add_fd efd kEventRead LoopWakeup
       \<lparr>el_quit = False, el_thread = self, el_wakeup = 0, el_pending = [], el_fds = [], el_nodes = 0,
        el_timers = [], el_next_timer_id = 1, el_ctl = []\<rparr>"

text \<open>The constructor ends the process when \<open>epoll_create1\<close> or \<open>eventfd\<close> fails.\<close>

definition event_loop_open :: "int \<Rightarrow> int \<Rightarrow> nat \<Rightarrow> cpp_error + 'c event_loop" where
  "event_loop_open poll_fd efd self =
     (if poll_fd < 0 then Inl Aborted
      else if efd < 0 then Inl Aborted
      else Inr (event_loop_new self efd))"

subsection \<open>Timers\<close>

definition add_timer :: "int \<Rightarrow> int \<Rightarrow> 'c \<Rightarrow> bool \<Rightarrow> 'c event_loop \<Rightarrow> int \<times> 'c event_loop" where
  "add_timer now delay_ms cb repeat el =
     (let t = \<lparr>tm_id = el_next_timer_id el, tm_expire_ms = now + delay_ms,
               tm_interval_ms = (if repeat then delay_ms else 0), tm_cb = Some cb\<rparr>
      in (tm_id t, el\<lparr>el_next_timer_id := el_next_timer_id el + 1, el_timers := el_timers el @ [t]\<rparr>))"

definition cancel_timer :: "int \<Rightarrow> 'c event_loop \<Rightarrow> 'c event_loop" where
  "cancel_timer timer_id el = el\<lparr>el_timers := filter (\<lambda>t. tm_id t \<noteq> timer_id) (el_timers el)\<rparr>"

definition nearest_expiry :: "'c loop_timer list \<Rightarrow> int" where
  "nearest_expiry ts =
     foldl (\<lambda>nearest t. if tm_expire_ms t < nearest then tm_expire_ms t else nearest) (tm_expire_ms (hd ts)) ts"

definition calc_timeout :: "int \<Rightarrow> 'c event_loop \<Rightarrow> int" where
  "calc_timeout now el =
     (if el_timers el = [] then 100
      else let diff = nearest_expiry (el_timers el) - now
           in if diff \<le> 0 then 0 else if diff > 1000 then 1000 else diff)"

section \<open>The loop\<close>

text \<open>Running a closure: as a task, as a timer, or for an event on a descriptor.\<close>

datatype 'c call = RunTask 'c | RunTimer 'c | RunEvent 'c int u32

type_synonym ('s, 'c) loop_exec = "'c call \<Rightarrow> 's \<times> 'c event_loop \<Rightarrow> 's \<times> 'c event_loop"

definition process_tasks :: "('s, 'c) loop_exec \<Rightarrow> 's \<times> 'c event_loop \<Rightarrow> 's \<times> 'c event_loop" where
  "process_tasks exec w =
     (let tasks = el_pending (snd w)
      in fold (\<lambda>t. exec (RunTask t)) tasks (fst w, (snd w)\<lparr>el_pending := []\<rparr>))"

definition run_timer ::
  "('s, 'c) loop_exec \<Rightarrow> int \<Rightarrow> 'c loop_timer \<Rightarrow> 's \<times> 'c event_loop \<Rightarrow> 's \<times> 'c event_loop" where
  "run_timer exec now t w =
     (let w = (case tm_cb t of Some c \<Rightarrow> exec (RunTimer c) w | None \<Rightarrow> w)
      in if tm_interval_ms t > 0 then
           (fst w, (snd w)\<lparr>el_timers := el_timers (snd w) @ [t\<lparr>tm_expire_ms := now + tm_interval_ms t\<rparr>]\<rparr>)
         else w)"

text \<open>
  \<open>part\<close> is \<open>std::partition\<close>, which promises which elements come first but not their order.
\<close>

definition process_timers ::
  "(('c loop_timer \<Rightarrow> bool) \<Rightarrow> 'c loop_timer list \<Rightarrow> 'c loop_timer list \<times> 'c loop_timer list) \<Rightarrow>
   ('s, 'c) loop_exec \<Rightarrow> int \<Rightarrow> 's \<times> 'c event_loop \<Rightarrow> 's \<times> 'c event_loop" where
  "process_timers part exec now w =
     (let (kept, expired) = part (\<lambda>t. tm_expire_ms t > now) (el_timers (snd w))
      in fold (run_timer exec now) expired (fst w, (snd w)\<lparr>el_timers := kept\<rparr>))"

definition call_cb ::
  "('s, 'c) loop_exec \<Rightarrow> 'c loop_cb option \<Rightarrow> int \<Rightarrow> u32 \<Rightarrow> 's \<times> 'c event_loop \<Rightarrow> 's \<times> 'c event_loop" where
  "call_cb exec cb fd ev w =
     (case cb of
        None \<Rightarrow> w
      | Some LoopWakeup \<Rightarrow> (fst w, handle_wakeup (snd w))
      | Some (LoopClient c) \<Rightarrow> exec (RunEvent c fd ev) w)"

text \<open>
  The dispatch of one event keeps the iterator to the entry across the read callback.
\<close>

definition dispatch_event ::
  "('s, 'c) loop_exec \<Rightarrow> int \<times> u32 \<Rightarrow> 's \<times> 'c event_loop \<Rightarrow> cpp_error + 's \<times> 'c event_loop" where
  "dispatch_event exec = (\<lambda>(fd, ev) w.
     (case map_of (el_fds (snd w)) fd of
        None \<Rightarrow> Inr w
      | Some it \<Rightarrow>
          (let w = (if has_event ev (EPOLLIN OR EPOLLHUP OR EPOLLERR)
                    then call_cb exec (fe_read_cb it) fd kEventRead w else w)
           in if has_event ev EPOLLOUT then
                (case map_of (el_fds (snd w)) fd of
                   None \<Rightarrow> Inl UseAfterFree
                 | Some e \<Rightarrow>
                     if fe_node e \<noteq> fe_node it then Inl UseAfterFree
                     else Inr (call_cb exec (fe_write_cb e) fd kEventWrite w))
              else Inr w)))"

fun dispatch_events ::
  "('s, 'c) loop_exec \<Rightarrow> (int \<times> u32) list \<Rightarrow> 's \<times> 'c event_loop \<Rightarrow> cpp_error + 's \<times> 'c event_loop" where
  "dispatch_events exec [] w = Inr w"
| "dispatch_events exec (ev # evs) w =
     (case dispatch_event exec ev w of Inl e \<Rightarrow> Inl e | Inr w \<Rightarrow> dispatch_events exec evs w)"

datatype poll_result = PollInterrupted | PollFailed | PollReady "(int \<times> u32) list"

text \<open>The body of the loop, on the clock it reads and what \<open>epoll_wait\<close> returns in each turn.\<close>

fun loop_rounds ::
  "(('c loop_timer \<Rightarrow> bool) \<Rightarrow> 'c loop_timer list \<Rightarrow> 'c loop_timer list \<times> 'c loop_timer list) \<Rightarrow>
   ('s, 'c) loop_exec \<Rightarrow> (int \<times> poll_result) list \<Rightarrow> 's \<times> 'c event_loop \<Rightarrow> cpp_error + 's \<times> 'c event_loop" where
  "loop_rounds part exec [] w = Inr w"
| "loop_rounds part exec ((now, polled) # env) w =
     (if el_quit (snd w) then Inr w
      else let w = process_timers part exec now (process_tasks exec w)
           in case polled of
                PollInterrupted \<Rightarrow> loop_rounds part exec env w
              | PollFailed \<Rightarrow> Inr w
              | PollReady evs \<Rightarrow>
                  (case dispatch_events exec evs w of
                     Inl e \<Rightarrow> Inl e
                   | Inr w \<Rightarrow> loop_rounds part exec env w))"

definition loop_start :: "nat \<Rightarrow> 'c event_loop \<Rightarrow> 'c event_loop" where
  "loop_start self el = el\<lparr>el_thread := self, el_quit := False\<rparr>"

definition event_loop_run ::
  "(('c loop_timer \<Rightarrow> bool) \<Rightarrow> 'c loop_timer list \<Rightarrow> 'c loop_timer list \<times> 'c loop_timer list) \<Rightarrow>
   ('s, 'c) loop_exec \<Rightarrow> nat \<Rightarrow> (int \<times> poll_result) list \<Rightarrow> 's \<times> 'c event_loop \<Rightarrow>
   cpp_error + 's \<times> 'c event_loop" where
  "event_loop_run part exec self env w = loop_rounds part exec env (fst w, loop_start self (snd w))"

section \<open>The descriptor map\<close>

definition store_fd :: "int \<Rightarrow> 'c fd_entry \<Rightarrow> 'c event_loop \<Rightarrow> 'c event_loop" where
  "store_fd fd e el = el\<lparr>el_fds := AList.update fd e (el_fds el)\<rparr>"

definition erase_fd :: "int \<Rightarrow> 'c event_loop \<Rightarrow> 'c event_loop" where
  "erase_fd fd el = el\<lparr>el_fds := AList.delete fd (el_fds el)\<rparr>"

abbreviation entry_of :: "'c event_loop \<Rightarrow> int \<Rightarrow> 'c fd_entry option" where
  "entry_of el \<equiv> map_of (el_fds el)"

interpretation fds: keyed_store entry_of store_fd erase_fd el_fds "\<lambda>el. distinct (map fst (el_fds el))"
  by unfold_locales
    (simp_all add: store_fd_def erase_fd_def alist.lookup_store alist.lookup_erase
      alist.inv_store alist.inv_erase)

lemma loop_ops_fds [frame_simps]:
  "el_fds (wakeup el) = el_fds el" "el_fds (handle_wakeup el) = el_fds el" "el_fds (push_task c el) = el_fds el"
  "el_fds (run_in_loop c el) = el_fds el" "el_fds (loop_quit el) = el_fds el"
  "el_fds (snd (add_timer now d c rep el)) = el_fds el" "el_fds (cancel_timer i el) = el_fds el"
  "el_fds (mod_fd fd ev el) =
    (case entry_of el fd of None \<Rightarrow> el_fds el
     | Some e \<Rightarrow> AList.update fd (e\<lparr>fe_events := ev,
         fe_read_cb := (if has_event ev kEventRead \<and> fe_read_cb e = None then fe_error_cb e else fe_read_cb e)\<rparr>)
       (el_fds el))"
  by (simp_all add: wakeup_def handle_wakeup_def push_task_def run_in_loop_def loop_quit_def add_timer_def
      cancel_timer_def mod_fd_eq Let_def split: option.split)

section \<open>Clients of the loop\<close>

text \<open>
  A client's callback may call the public operations of the loop; \<open>ops\<close> are those calls in order.
\<close>

datatype 'c loop_op =
    OpAddFd int u32 'c
  | OpModFd int u32
  | OpDelFd int
  | OpRunInLoop 'c
  | OpAddTimer int int 'c bool
  | OpCancelTimer int
  | OpQuit

fun do_op :: "'c loop_op \<Rightarrow> 'c event_loop \<Rightarrow> 'c event_loop" where
  "do_op (OpAddFd fd ev c) el = add_fd fd ev (LoopClient c) el"
| "do_op (OpModFd fd ev) el = mod_fd fd ev el"
| "do_op (OpDelFd fd) el = del_fd fd el"
| "do_op (OpRunInLoop c) el = run_in_loop c el"
| "do_op (OpAddTimer now d c rep) el = snd (add_timer now d c rep el)"
| "do_op (OpCancelTimer i) el = cancel_timer i el"
| "do_op OpQuit el = loop_quit el"

text \<open>
  Well-formed loops: one entry for a descriptor, no two entries in one node, and the timers, with
  those of a batch that is being run, have identifiers of their own.
\<close>

definition fds_inv :: "'c event_loop \<Rightarrow> bool" where
  "fds_inv el \<longleftrightarrow> distinct (map fst (el_fds el)) \<and>
     (\<forall>fd e. entry_of el fd = Some e \<longrightarrow> fe_node e < el_nodes el \<and>
        (\<forall>fd' e'. entry_of el fd' = Some e' \<and> fe_node e' = fe_node e \<longrightarrow> fd' = fd))"

definition timers_inv :: "'c loop_timer list \<Rightarrow> 'c event_loop \<Rightarrow> bool" where
  "timers_inv batch el \<longleftrightarrow> distinct (map tm_id (el_timers el @ batch)) \<and>
     (\<forall>t \<in> set (el_timers el @ batch). 0 < tm_id t \<and> tm_id t < el_next_timer_id el) \<and> 0 < el_next_timer_id el"

definition loop_inv :: "'c event_loop \<Rightarrow> bool" where
  "loop_inv el \<longleftrightarrow> fds_inv el \<and> timers_inv [] el"

lemma fds_inv_cong: "el_fds el' = el_fds el \<Longrightarrow> el_nodes el' = el_nodes el \<Longrightarrow> fds_inv el \<Longrightarrow> fds_inv el'"
  by (simp add: fds_inv_def)

lemma fds_inv_add [keeps_inv]: "fds_inv el \<Longrightarrow> fds_inv (add_fd fd ev cb el)"
  unfolding fds_inv_def
  by (auto simp: add_fd_eq Let_def AList.update_conv' AList.distinct_update less_Suc_eq
      simp del: map_of_eq_Some_iff split: option.splits if_splits)
    (metis less_irrefl)+

lemma fds_inv_mod [keeps_inv]: "fds_inv el \<Longrightarrow> fds_inv (mod_fd fd ev el)"
  by (auto simp: fds_inv_def mod_fd_eq Let_def AList.update_conv' AList.distinct_update
      simp del: map_of_eq_Some_iff split: option.splits if_splits)

lemma fds_inv_del [keeps_inv]: "fds_inv el \<Longrightarrow> fds_inv (del_fd fd el)"
  by (auto simp: fds_inv_def del_fd_eq AList.delete_conv' AList.distinct_delete
      simp del: map_of_eq_Some_iff split: if_splits)

lemma fds_inv_op [keeps_inv]: "fds_inv el \<Longrightarrow> fds_inv (do_op op el)"
  by (cases op)
    (auto simp: keeps_inv run_in_loop_def wakeup_def push_task_def loop_quit_def add_timer_def cancel_timer_def
      Let_def elim!: fds_inv_cong [rotated 2])

lemma timers_inv_op [keeps_inv]: "timers_inv batch el \<Longrightarrow> timers_inv batch (do_op op el)"
  by (cases op)
    (auto simp: timers_inv_def add_fd_eq mod_fd_eq del_fd_eq run_in_loop_def wakeup_def push_task_def
      loop_quit_def add_timer_def cancel_timer_def Let_def distinct_map_filter split: option.splits, force+)

lemma inv_ops: "fds_inv el \<Longrightarrow> fds_inv (fold do_op ops el)" "timers_inv b el \<Longrightarrow> timers_inv b (fold do_op ops el)"
  by (induction ops arbitrary: el) (simp_all add: keeps_inv)

text \<open>What \<open>std::partition\<close> promises.\<close>

definition partition_ok :: "(('a \<Rightarrow> bool) \<Rightarrow> 'a list \<Rightarrow> 'a list \<times> 'a list) \<Rightarrow> bool" where
  "partition_ok part \<longleftrightarrow> (\<forall>P xs. mset (fst (part P xs)) = mset (filter P xs) \<and>
     mset (snd (part P xs)) = mset (filter (\<lambda>x. \<not> P x) xs))"

lemma partition_stable_ok: "partition_ok List.partition"
  by (simp add: partition_ok_def comp_def)

text \<open>
  The contract between the loop and its clients: a callback changes the loop by its public
  operations only. Under it every turn of the loop keeps the loop well formed.
\<close>

lemma loop_inv_wakeup: "loop_inv el \<Longrightarrow> loop_inv (handle_wakeup el)"
  by (simp add: loop_inv_def fds_inv_def timers_inv_def handle_wakeup_def)

locale loop_client =
  fixes exec :: "('s, 'c) loop_exec"
  assumes uses_ops: "\<exists>ops. snd (exec call w) = fold do_op ops (snd w)"
begin

lemma inv_exec: "fds_inv (snd w) \<Longrightarrow> fds_inv (snd (exec call w))"
  "timers_inv b (snd w) \<Longrightarrow> timers_inv b (snd (exec call w))"
  using uses_ops [of call w] by (auto simp: inv_ops)

lemma loop_inv_tasks: "loop_inv (snd w) \<Longrightarrow> loop_inv (snd (process_tasks exec w))"
proof -
  have "loop_inv (snd (fold (\<lambda>t. exec (RunTask t)) ts w))" if "loop_inv (snd w)" for ts w
    using that by (induction ts arbitrary: w) (simp_all add: loop_inv_def inv_exec)
  moreover assume "loop_inv (snd w)"
  then have "loop_inv ((snd w)\<lparr>el_pending := []\<rparr>)" by (simp add: loop_inv_def fds_inv_def timers_inv_def)
  ultimately show ?thesis by (simp add: process_tasks_def Let_def)
qed

lemma inv_run_timer:
  assumes "fds_inv (snd w)" "timers_inv (t # batch) (snd w)"
  shows "fds_inv (snd (run_timer exec now t w)) \<and> timers_inv batch (snd (run_timer exec now t w))"
proof -
  define w1 where "w1 = (case tm_cb t of Some c \<Rightarrow> exec (RunTimer c) w | None \<Rightarrow> w)"
  have "fds_inv (snd w1)" "timers_inv (t # batch) (snd w1)"
    using assms by (auto simp: w1_def inv_exec split: option.split)
  then show ?thesis
    by (auto simp: run_timer_def Let_def w1_def [symmetric] fds_inv_def timers_inv_def)
qed

lemma loop_inv_timers:
  assumes "partition_ok part" "loop_inv (snd w)"
  shows "loop_inv (snd (process_timers part exec now w))"
proof -
  obtain kept expired where p: "part (\<lambda>t. tm_expire_ms t > now) (el_timers (snd w)) = (kept, expired)" by force
  have run: "loop_inv (snd (fold (run_timer exec now) ts w))"
    if "fds_inv (snd w)" "timers_inv ts (snd w)" for ts w
    using that by (induction ts arbitrary: w) (simp_all add: loop_inv_def inv_run_timer)
  have m: "mset (kept @ expired) = mset (el_timers (snd w))"
    using assms(1) p by (simp add: partition_ok_def) (metis fst_conv snd_conv multiset_partition mset_filter)
  have "mset (map tm_id (kept @ expired)) = mset (map tm_id (el_timers (snd w)))"
    using m by (simp only: mset_map)
  then have "distinct (map tm_id (kept @ expired))" "set (kept @ expired) = set (el_timers (snd w))"
    using assms(2) mset_eq_imp_distinct_iff mset_eq_setD [OF m] unfolding loop_inv_def timers_inv_def
    by (metis append_Nil2)+
  then have "timers_inv expired ((snd w)\<lparr>el_timers := kept\<rparr>)" "fds_inv ((snd w)\<lparr>el_timers := kept\<rparr>)"
    using assms(2) by (simp_all add: loop_inv_def timers_inv_def fds_inv_def)
  then show ?thesis by (simp add: process_timers_def p run)
qed

lemma loop_inv_call: "loop_inv (snd w) \<Longrightarrow> loop_inv (snd (call_cb exec cb fd ev w))"
  by (simp add: call_cb_def loop_inv_def inv_exec loop_inv_wakeup [unfolded loop_inv_def]
      split: option.split loop_cb.split)

lemma loop_inv_dispatch: "loop_inv (snd w) \<Longrightarrow> dispatch_event exec ev w = Inr w' \<Longrightarrow> loop_inv (snd w')"
  by (cases ev) (auto simp: dispatch_event_def Let_def loop_inv_call split: option.splits if_splits)

lemma loop_inv_dispatch_all: "loop_inv (snd w) \<Longrightarrow> dispatch_events exec evs w = Inr w' \<Longrightarrow> loop_inv (snd w')"
  by (induction evs arbitrary: w) (auto split: sum.splits dest: loop_inv_dispatch)

lemma loop_inv_rounds:
  "partition_ok part \<Longrightarrow> loop_inv (snd w) \<Longrightarrow> loop_rounds part exec env w = Inr w' \<Longrightarrow> loop_inv (snd w')"
proof (induction env arbitrary: w)
  case (Cons io env)
  obtain now polled where io: "io = (now, polled)" by force
  define w1 where "w1 = process_timers part exec now (process_tasks exec w)"
  have inv: "loop_inv (snd w1)" using Cons.prems by (simp add: w1_def loop_inv_tasks loop_inv_timers)
  show ?case
  proof (cases "el_quit (snd w)")
    case True
    with Cons.prems io show ?thesis by simp
  next
    case False
    with Cons.prems io Cons.IH inv show ?thesis
      by (auto simp: Let_def w1_def [symmetric] split: poll_result.splits sum.splits dest: loop_inv_dispatch_all)
  qed
qed simp

end

lemma loop_inv_new: "loop_inv (event_loop_new self efd)"
  by (simp add: loop_inv_def fds_inv_def timers_inv_def event_loop_new_def add_fd_eq)

section \<open>Induction over the run of a loop\<close>

text \<open>
  A property of the client and the loop holds after a run if every callback keeps it and it does not
  depend on the bookkeeping of the loop itself.
\<close>

locale loop_property =
  fixes exec :: "('s, 'c) loop_exec" and Q :: "'s \<times> 'c event_loop \<Rightarrow> bool"
  assumes keeps_call: "Q w \<Longrightarrow> Q (exec call w)"
    and keeps_pending: "Q w \<Longrightarrow> Q (fst w, (snd w)\<lparr>el_pending := ts\<rparr>)"
    and keeps_timers: "Q w \<Longrightarrow> Q (fst w, (snd w)\<lparr>el_timers := tms\<rparr>)"
    and keeps_wakeup: "Q w \<Longrightarrow> Q (fst w, (snd w)\<lparr>el_wakeup := n\<rparr>)"
begin

lemma keeps_tasks: "Q w \<Longrightarrow> Q (process_tasks exec w)"
proof -
  have "Q (fold (\<lambda>t. exec (RunTask t)) ts w)" if "Q w" for ts w
    using that by (induction ts arbitrary: w) (simp_all add: keeps_call)
  then show "Q w \<Longrightarrow> Q (process_tasks exec w)" by (simp add: process_tasks_def Let_def keeps_pending)
qed

lemma keeps_run_timer: "Q w \<Longrightarrow> Q (run_timer exec now t w)"
  by (simp add: run_timer_def Let_def keeps_call keeps_timers split: option.split)

lemma keeps_run_timers: "Q w \<Longrightarrow> Q (fold (run_timer exec now) ts w)"
  by (induction ts arbitrary: w) (simp_all add: keeps_run_timer)

lemma keeps_process_timers: "Q w \<Longrightarrow> Q (process_timers part exec now w)"
  by (simp add: process_timers_def split_beta keeps_run_timers keeps_timers)

lemma keeps_call_cb: "Q w \<Longrightarrow> Q (call_cb exec cb fd ev w)"
  by (simp add: call_cb_def handle_wakeup_def keeps_wakeup keeps_call split: option.split loop_cb.split)

lemma keeps_dispatch: "Q w \<Longrightarrow> dispatch_event exec ev w = Inr w' \<Longrightarrow> Q w'"
  by (cases ev) (auto simp: dispatch_event_def Let_def keeps_call_cb split: option.splits if_splits)

lemma keeps_dispatch_all: "Q w \<Longrightarrow> dispatch_events exec evs w = Inr w' \<Longrightarrow> Q w'"
  by (induction evs arbitrary: w) (auto split: sum.splits dest: keeps_dispatch)

lemma keeps_rounds: "Q w \<Longrightarrow> loop_rounds part exec env w = Inr w' \<Longrightarrow> Q w'"
proof (induction env arbitrary: w)
  case (Cons io env)
  obtain now polled where io: "io = (now, polled)" by force
  define w1 where "w1 = process_timers part exec now (process_tasks exec w)"
  have "Q w1" using Cons.prems by (simp add: w1_def keeps_tasks keeps_process_timers)
  with Cons.prems io Cons.IH show ?case
    by (auto simp: Let_def w1_def [symmetric] split: if_splits poll_result.splits sum.splits dest: keeps_dispatch_all)
qed simp

text \<open>If no dispatch fails, the turns of the loop do not.\<close>

lemma dispatch_all_total:
  "(\<And>ev w. Q w \<Longrightarrow> \<exists>w'. dispatch_event exec ev w = Inr w') \<Longrightarrow> Q w \<Longrightarrow> \<exists>w'. dispatch_events exec evs w = Inr w'"
proof (induction evs arbitrary: w)
  case (Cons ev evs)
  obtain w1 where "dispatch_event exec ev w = Inr w1" using Cons.prems by blast
  with Cons keeps_dispatch [OF Cons.prems(2)] show ?case by simp
qed simp

lemma rounds_total:
  assumes "\<And>ev w. Q w \<Longrightarrow> \<exists>w'. dispatch_event exec ev w = Inr w'"
  shows "Q w \<Longrightarrow> \<exists>w'. loop_rounds part exec env w = Inr w'"
proof (induction env arbitrary: w)
  case (Cons io env)
  obtain now polled where io: "io = (now, polled)" by force
  define w1 where "w1 = process_timers part exec now (process_tasks exec w)"
  have w1: "Q w1" using Cons.prems by (simp add: w1_def keeps_tasks keeps_process_timers)
  show ?case
  proof (cases polled)
    case (PollReady evs)
    obtain w2 where w2: "dispatch_events exec evs w1 = Inr w2"
      using dispatch_all_total [OF assms w1] by blast
    with keeps_dispatch_all [OF w1] Cons.IH io PollReady show ?thesis
      by (simp add: Let_def w1_def [symmetric])
  qed (use io Cons.IH [OF w1] in \<open>simp_all add: Let_def w1_def [symmetric]\<close>)
qed simp

end

section \<open>How long the loop waits\<close>

lemma nearest_expiry_fold:
  "foldl (\<lambda>nearest t. if tm_expire_ms t < nearest then tm_expire_ms t else nearest) n ts =
    fold min (map tm_expire_ms ts) n"
  by (induction ts arbitrary: n) (simp_all add: min_def)

lemma nearest_expiry_Min: "ts \<noteq> [] \<Longrightarrow> nearest_expiry ts = Min (tm_expire_ms ` set ts)"
proof -
  assume "ts \<noteq> []"
  then have "fold min (map tm_expire_ms ts) (hd (map tm_expire_ms ts)) = Min (set (map tm_expire_ms ts))"
    by (cases ts) (simp_all flip: Min.set_eq_fold)
  with \<open>ts \<noteq> []\<close> show ?thesis by (simp add: nearest_expiry_def nearest_expiry_fold hd_map)
qed

text \<open>
  C32. The wait is never negative (\<open>epoll_wait\<close> would block for good) and at most a second, so the
  narrowing to \<open>int\<close> loses nothing; it is 0 exactly if a timer is due, and the loop never
  sleeps past the first expiry.
\<close>

theorem calc_timeout_bounds:
  "0 \<le> calc_timeout now el \<and> calc_timeout now el \<le> 1000 \<and>
    (calc_timeout now el = 0 \<longleftrightarrow> (\<exists>t \<in> set (el_timers el). tm_expire_ms t \<le> now)) \<and>
    (\<forall>t \<in> set (el_timers el). now \<le> tm_expire_ms t \<longrightarrow> now + calc_timeout now el \<le> tm_expire_ms t)"
proof (cases "el_timers el = []")
  case False
  let ?n = "Min (tm_expire_ms ` set (el_timers el))"
  have le: "?n \<le> tm_expire_ms t" if "t \<in> set (el_timers el)" for t using that by simp
  have "?n \<in> tm_expire_ms ` set (el_timers el)" using False by (intro Min_in) simp_all
  then have ex: "(\<exists>t \<in> set (el_timers el). tm_expire_ms t \<le> now) \<longleftrightarrow> ?n \<le> now"
    using le by (metis imageE order_trans)
  have "calc_timeout now el = (if ?n - now \<le> 0 then 0 else if ?n - now > 1000 then 1000 else ?n - now)"
    using False by (simp add: calc_timeout_def nearest_expiry_Min)
  then show ?thesis unfolding ex using le by (smt (verit))
qed (simp add: calc_timeout_def)

definition demo_timers :: "unit event_loop" where
  "demo_timers = snd (add_timer 100 50 () False (snd (add_timer 100 3000 () True (event_loop_new 0 7))))"

theorem calc_timeout_bounds_witness:
  "calc_timeout 120 demo_timers = 30 \<and> calc_timeout 150 demo_timers = 0"
proof -
  have "calc_timeout 120 demo_timers = 30" by code_simp
  moreover have "\<exists>t \<in> set (el_timers demo_timers). tm_expire_ms t \<le> 150" by code_simp
  ultimately show ?thesis using calc_timeout_bounds [of 150 demo_timers] by blast
qed

section \<open>Timers\<close>

text \<open>The same client, which also keeps a list of the calls the loop made.\<close>

definition logged :: "('s, 'c) loop_exec \<Rightarrow> ('s \<times> 'c call list, 'c) loop_exec" where
  "logged exec call w =
     (let r = exec call (fst (fst w), snd w) in ((fst r, snd (fst w) @ [call]), snd r))"

text \<open>One call of \<open>processTasks\<close> runs the tasks that were queued, in order; later ones wait.\<close>

lemma process_tasks_calls:
  "snd (fst (process_tasks (logged exec) ((s, []), el))) = map RunTask (el_pending el)"
proof -
  have "snd (fst (fold (\<lambda>t. logged exec (RunTask t)) ts w)) = snd (fst w) @ map RunTask ts" for ts w
    by (induction ts arbitrary: w) (simp_all add: logged_def Let_def)
  then show ?thesis by (simp add: process_tasks_def Let_def)
qed

definition due :: "int \<Rightarrow> 'c loop_timer \<Rightarrow> bool" where
  "due now t \<longleftrightarrow> tm_expire_ms t \<le> now"

definition timer_calls :: "'c loop_timer list \<Rightarrow> 'c call list" where
  "timer_calls ts = concat (map (\<lambda>t. case tm_cb t of None \<Rightarrow> [] | Some c \<Rightarrow> [RunTimer c]) ts)"

lemma logged_run_timer:
  "snd (fst (run_timer (logged exec) now t w)) = snd (fst w) @ timer_calls [t]"
  by (simp add: run_timer_def logged_def timer_calls_def Let_def split: option.split)

lemma logged_run_timers:
  "snd (fst (fold (run_timer (logged exec) now) ts w)) = snd (fst w) @ timer_calls ts"
  by (induction ts arbitrary: w) (simp_all add: logged_run_timer, simp_all add: timer_calls_def)

lemma mset_timer_calls:
  assumes "mset xs = mset ys"
  shows "mset (timer_calls xs) = mset (timer_calls ys)"
proof -
  have "mset (timer_calls ts) =
      sum_mset (image_mset (\<lambda>t. mset (case tm_cb t of None \<Rightarrow> [] | Some c \<Rightarrow> [RunTimer c])) (mset ts))"
    for ts :: "'a loop_timer list"
    by (simp add: timer_calls_def mset_concat comp_def flip: sum_mset_sum_list)
  with assms show ?thesis by simp
qed

lemma partition_expired:
  assumes "partition_ok part" "part (\<lambda>t. tm_expire_ms t > now) ts = (kept, expired)"
  shows "mset expired = mset (filter (due now) ts)"
proof -
  have due: "due now = (\<lambda>t. \<not> tm_expire_ms t > now)" by (simp add: fun_eq_iff due_def not_less)
  have "mset (snd (part (\<lambda>t. tm_expire_ms t > now) ts)) =
      mset (filter (\<lambda>t. \<not> tm_expire_ms t > now) ts)"
    using assms(1) unfolding partition_ok_def by blast
  with assms(2) show ?thesis unfolding due by simp
qed

text \<open>
  C31. Whatever the callbacks do and in whatever order \<open>std::partition\<close> leaves the timers, one turn
  of the loop calls the callback of every due timer exactly once and of no other.
\<close>

theorem timers_fire_once:
  assumes "partition_ok part"
  shows "mset (snd (fst (process_timers part (logged exec) now ((s, []), el)))) =
    mset (timer_calls (filter (due now) (el_timers el)))"
proof -
  obtain kept expired where p: "part (\<lambda>t. tm_expire_ms t > now) (el_timers el) = (kept, expired)" by force
  show ?thesis
    using mset_timer_calls [OF partition_expired [OF assms p]] by (simp add: process_timers_def p logged_run_timers)
qed

definition quiet :: "(unit, unit) loop_exec" where "quiet call w = w"

theorem timers_fire_once_witness:
  "mset (snd (fst (process_timers List.partition (logged quiet) 150 (((), []), demo_timers)))) = {#RunTimer ()#}"
proof -
  have "timer_calls (filter (due 150) (el_timers demo_timers)) = [RunTimer ()]" by code_simp
  then show ?thesis
    using timers_fire_once [OF partition_stable_ok, of quiet 150 "()" demo_timers] by simp
qed

text \<open>
  A periodic timer cannot be cancelled from its own callback: the batch of due timers has left
  \<open>timers_\<close> when the callbacks run, and the timer is put back afterwards whatever its callback did.
\<close>

theorem self_cancel_ineffective:
  assumes "partition_ok part" and "filter (due now) (el_timers (snd w)) = [t]" and "0 < tm_interval_ms t"
  shows "t\<lparr>tm_expire_ms := now + tm_interval_ms t\<rparr> \<in> set (el_timers (snd (process_timers part exec now w)))"
proof -
  obtain kept expired where p: "part (\<lambda>t. tm_expire_ms t > now) (el_timers (snd w)) = (kept, expired)" by force
  have "mset expired = mset [t]" using partition_expired [OF assms(1) p] assms(2) by simp
  then have "expired = [t]" by simp
  with assms(3) show ?thesis by (simp add: process_timers_def p run_timer_def Let_def)
qed

text \<open>A callback that cancels the timer with identifier 1, which is its own.\<close>

definition cancels_itself :: "(unit, unit) loop_exec" where
  "cancels_itself call w = (fst w, cancel_timer 1 (snd w))"

theorem self_cancel_ineffective_witness:
  "map tm_id (el_timers (snd (process_timers List.partition cancels_itself 3100
      ((), snd (add_timer 100 3000 () True (event_loop_new 0 7)))))) = [1] \<and>
    \<lparr>tm_id = 1, tm_expire_ms = 6100, tm_interval_ms = 3000, tm_cb = Some ()\<rparr> \<in>
      set (el_timers (snd (process_timers List.partition cancels_itself 3100
        ((), snd (add_timer 100 3000 () True (event_loop_new 0 7))))))"
proof (rule conjI)
  let ?t = "\<lparr>tm_id = 1, tm_expire_ms = 3100, tm_interval_ms = 3000, tm_cb = Some ()\<rparr>"
  let ?w = "((), snd (add_timer 100 3000 () True (event_loop_new 0 7)))"
  have "filter (due 3100) (el_timers (snd ?w)) = [?t]" by code_simp
  from self_cancel_ineffective [OF partition_stable_ok this, of cancels_itself]
  show "\<lparr>tm_id = 1, tm_expire_ms = 6100, tm_interval_ms = 3000, tm_cb = Some ()\<rparr> \<in>
      set (el_timers (snd (process_timers List.partition cancels_itself 3100 ?w)))" by simp
qed code_simp

section \<open>Dispatch\<close>

text \<open>The world after the read side of an event.\<close>

definition after_read ::
  "('s, 'c) loop_exec \<Rightarrow> 'c fd_entry \<Rightarrow> int \<Rightarrow> u32 \<Rightarrow> 's \<times> 'c event_loop \<Rightarrow> 's \<times> 'c event_loop" where
  "after_read exec it fd ev w =
     (if has_event ev (EPOLLIN OR EPOLLHUP OR EPOLLERR) then call_cb exec (fe_read_cb it) fd kEventRead w else w)"

text \<open>
  The dispatch reads a dangling iterator exactly if the event is for both directions and the
  read callback erased the entry (as a connection does when it finds its peer gone), also if a new
  entry has taken the descriptor since; every other event is handled and the loop goes on.
\<close>

theorem dispatch_use_after_free:
  "dispatch_event exec (fd, ev) w = Inl e \<longleftrightarrow>
    e = UseAfterFree \<and> has_event ev EPOLLOUT \<and> entry_of (snd w) fd \<noteq> None \<and>
    map_option fe_node (entry_of (snd (after_read exec (the (entry_of (snd w) fd)) fd ev w)) fd) \<noteq>
      map_option fe_node (entry_of (snd w) fd)"
  by (auto simp: dispatch_event_def after_read_def Let_def split: option.splits if_splits)

text \<open>A callback that deletes its descriptor, on the event of a peer that is gone.\<close>

definition deletes_itself :: "(unit, unit) loop_exec" where
  "deletes_itself call w = (fst w, del_fd 9 (snd w))"

theorem dispatch_use_after_free_witness:
  "dispatch_event deletes_itself (9, EPOLLIN OR EPOLLOUT OR EPOLLHUP)
      ((), mod_fd 9 (kEventRead OR kEventWrite) (add_fd 9 kEventRead (LoopClient ()) (event_loop_new 0 7))) =
    Inl UseAfterFree"
  unfolding dispatch_use_after_free by code_simp

text \<open>
  A call of \<open>quit()\<close> before the loop has started is lost: \<open>loop()\<close> resets the flag.
\<close>

lemma early_quit_lost:
  "event_loop_run part exec self env (s, loop_quit el) = event_loop_run part exec self env (s, wakeup el)"
  by (simp add: event_loop_run_def loop_start_def loop_quit_def wakeup_def)

end
