(* ===== verification/Tcp_Connection.thy ===== *)
theory Tcp_Connection
  imports Event_Loop Byte_Buffer
begin

text \<open>
  \<open>TcpConnection\<close> of \<open>src/src/tcp_connection.h\<close> and \<open>tcp_connection.cpp\<close> on its event loop. The
  lambdas the class hands to the loop are the closures \<open>conn_closure\<close>. What \<open>read\<close> and \<open>write\<close>
  return are lists the calls consume; an empty list is a socket that is not ready. The calls out of
  the object are recorded in order. The message callback is an argument: on its own state and the
  input buffer, it may send and shut down.
\<close>

datatype conn_state = ConnDisconnected | ConnConnecting | ConnConnected | ConnDisconnecting

datatype conn_closure = OnEvents | SendTask bytes | ShutdownTask | EnableTask | DisableTask

datatype write_result = Wrote nat | WriteAgain | WriteFailed
datatype read_result = ReadBytes bytes | ReadEof | ReadAgain | ReadFailed

datatype conn_effect =
    SockWrite bytes
  | SockShutdown int
  | SockClose int
  | CallWriteComplete
  | CallClose
  | CallError

record tcp_connection =
  tc_fd :: int
  tc_peer_addr :: bytes
  tc_state :: conn_state
  tc_input :: byte_buffer
  tc_output :: thread_safe_buffer

text \<open>The connection with its surroundings: the socket, the trace, the user of the callbacks.\<close>

record 'u conn_env =
  ce_conn :: tcp_connection
  ce_reads :: "read_result list"
  ce_writes :: "write_result list"
  ce_trace :: "conn_effect list"
  ce_user :: 'u

type_synonym 'u conn_world = "'u conn_env \<times> conn_closure event_loop"

datatype conn_call = CallSend bytes | CallShutdown

type_synonym 'u message_cb = "'u \<Rightarrow> byte_buffer \<Rightarrow> ('u \<times> byte_buffer) \<times> conn_call list"

definition tcp_connection_new :: "int \<Rightarrow> bytes \<Rightarrow> tcp_connection" where
  "tcp_connection_new fd peer_addr =
     \<lparr>tc_fd = fd, tc_peer_addr = peer_addr, tc_state = ConnConnected,
      tc_input = byte_buffer_new 4096, tc_output = tsb_new 16384\<rparr>"

abbreviation on_conn :: "(tcp_connection \<Rightarrow> tcp_connection) \<Rightarrow> 'u conn_world \<Rightarrow> 'u conn_world" where
  "on_conn f w \<equiv> ((fst w)\<lparr>ce_conn := f (ce_conn (fst w))\<rparr>, snd w)"

abbreviation conn_of :: "'u conn_world \<Rightarrow> tcp_connection" where
  "conn_of w \<equiv> ce_conn (fst w)"

abbreviation conn_emit :: "conn_effect list \<Rightarrow> 'u conn_world \<Rightarrow> 'u conn_world" where
  "conn_emit es w \<equiv> ((fst w)\<lparr>ce_trace := ce_trace (fst w) @ es\<rparr>, snd w)"

abbreviation on_loop :: "(conn_closure event_loop \<Rightarrow> conn_closure event_loop) \<Rightarrow> 'u conn_world \<Rightarrow> 'u conn_world" where
  "on_loop f w \<equiv> (fst w, f (snd w))"

definition conn_start :: "'u conn_world \<Rightarrow> 'u conn_world" where
  "conn_start w = on_loop (add_fd (tc_fd (conn_of w)) kEventRead (LoopClient OnEvents)) w"

definition conn_destroy :: "'u conn_world \<Rightarrow> 'u conn_world" where
  "conn_destroy w =
     (let fd = tc_fd (conn_of w)
      in if fd \<ge> 0
         then on_conn (\<lambda>c. c\<lparr>tc_fd := -1\<rparr>) (conn_emit [SockClose fd] (on_loop (del_fd fd) w)) else w)"

definition conn_connected :: "tcp_connection \<Rightarrow> bool" where
  "conn_connected c \<longleftrightarrow> tc_state c = ConnConnected"

section \<open>Errors and closing\<close>

definition handle_error :: "'u conn_world \<Rightarrow> 'u conn_world" where
  "handle_error w =
     (let w = on_conn (\<lambda>c. c\<lparr>tc_state := ConnDisconnected\<rparr>) w;
          fd = tc_fd (conn_of w);
          w = (if fd \<ge> 0
               then on_conn (\<lambda>c. c\<lparr>tc_fd := -1\<rparr>) (conn_emit [SockClose fd] (on_loop (del_fd fd) w)) else w)
      in conn_emit [CallError] w)"

definition handle_close :: "'u conn_world \<Rightarrow> 'u conn_world" where
  "handle_close w =
     (let w = on_conn (\<lambda>c. c\<lparr>tc_state := ConnDisconnected\<rparr>) w;
          fd = tc_fd (conn_of w)
      in conn_emit [CallClose]
           (on_conn (\<lambda>c. c\<lparr>tc_fd := -1\<rparr>) (conn_emit [SockClose fd] (on_loop (del_fd fd) w))))"

section \<open>Sending\<close>

text \<open>
  One call of \<open>write\<close> on \<open>data\<close>: a descriptor that was closed fails; the kernel takes at most all of
  the data.
\<close>

definition sock_write :: "bytes \<Rightarrow> 'u conn_world \<Rightarrow> write_result \<times> 'u conn_world" where
  "sock_write data w =
     (if tc_fd (conn_of w) < 0 then (WriteFailed, w)
      else case ce_writes (fst w) of
        [] \<Rightarrow> (WriteAgain, w)
      | r # rs \<Rightarrow>
          let w = ((fst w)\<lparr>ce_writes := rs\<rparr>, snd w)
          in case r of
               Wrote n \<Rightarrow>
                 (let n = min n (length data) in (Wrote n, conn_emit [SockWrite (take n data)] w))
             | _ \<Rightarrow> (r, w))"

definition enable_writing :: "'u conn_world \<Rightarrow> 'u conn_world" where
  "enable_writing w = on_loop (run_in_loop EnableTask) w"

definition buffer_output :: "bytes \<Rightarrow> 'u conn_world \<Rightarrow> 'u conn_world" where
  "buffer_output data w =
     (if data \<noteq> []
      then enable_writing (on_conn (\<lambda>c. c\<lparr>tc_output := tsb_append (tc_output c) data\<rparr>) w)
      else w)"

definition send_in_loop :: "bytes \<Rightarrow> 'u conn_world \<Rightarrow> 'u conn_world" where
  "send_in_loop data w =
     (if tc_state (conn_of w) \<noteq> ConnConnected then w
      else if tsb_readable (tc_output (conn_of w)) > 0 then buffer_output data w
      else
        let (r, w) = sock_write data w
        in case r of
             Wrote n \<Rightarrow>
               if length data - n = 0 then conn_emit [CallWriteComplete] w
               else buffer_output (drop n data) w
           | WriteAgain \<Rightarrow> buffer_output data w
           | WriteFailed \<Rightarrow> handle_error w)"

text \<open>\<open>in_thread\<close> is whether the calling thread is the loop's.\<close>

definition conn_send :: "bool \<Rightarrow> bytes \<Rightarrow> 'u conn_world \<Rightarrow> 'u conn_world" where
  "conn_send in_thread data w =
     (if tc_state (conn_of w) \<noteq> ConnConnected then w
      else if in_thread then send_in_loop data w
      else on_loop (run_in_loop (SendTask data)) w)"

definition conn_shutdown :: "'u conn_world \<Rightarrow> 'u conn_world" where
  "conn_shutdown w =
     on_loop (run_in_loop ShutdownTask) (on_conn (\<lambda>c. c\<lparr>tc_state := ConnDisconnecting\<rparr>) w)"

definition shutdown_task :: "'u conn_world \<Rightarrow> 'u conn_world" where
  "shutdown_task w =
     (if tsb_readable (tc_output (conn_of w)) = 0 then conn_emit [SockShutdown (tc_fd (conn_of w))] w else w)"

definition enable_task :: "'u conn_world \<Rightarrow> 'u conn_world" where
  "enable_task w =
     (if tc_fd (conn_of w) < 0 then w
      else on_loop (mod_fd (tc_fd (conn_of w)) (kEventRead OR kEventWrite)) w)"

definition disable_writing :: "bool \<Rightarrow> 'u conn_world \<Rightarrow> 'u conn_world" where
  "disable_writing in_thread w =
     (if \<not> in_thread then on_loop (run_in_loop DisableTask) w
      else if tc_fd (conn_of w) < 0 then w
      else on_loop (mod_fd (tc_fd (conn_of w)) kEventRead) w)"

section \<open>Events\<close>

fun conn_do_call :: "conn_call \<Rightarrow> 'u conn_world \<Rightarrow> 'u conn_world" where
  "conn_do_call (CallSend d) w = conn_send True d w"
| "conn_do_call CallShutdown w = conn_shutdown w"

definition call_message :: "'u message_cb \<Rightarrow> 'u conn_world \<Rightarrow> 'u conn_world" where
  "call_message msg w =
     (let ((u, b), calls) = msg (ce_user (fst w)) (tc_input (conn_of w))
      in fold conn_do_call calls
           (on_conn (\<lambda>c. c\<lparr>tc_input := b\<rparr>) ((fst w)\<lparr>ce_user := u\<rparr>, snd w)))"

text \<open>
  The read loop, on what the calls of \<open>read\<close> return. After the callback has closed the connection,
  reading from \<open>-1\<close> fails.
\<close>

fun read_loop :: "'u message_cb \<Rightarrow> read_result list \<Rightarrow> 'u conn_world \<Rightarrow> 'u conn_world" where
  "read_loop msg [] w = (if tc_fd (conn_of w) < 0 then handle_error w else w)"
| "read_loop msg (r # rs) w =
     (if tc_fd (conn_of w) < 0 then handle_error w
      else case r of
        ReadBytes d \<Rightarrow>
          read_loop msg rs (call_message msg (on_conn (\<lambda>c. c\<lparr>tc_input := bb_append (tc_input c) d\<rparr>) w))
      | ReadEof \<Rightarrow> handle_close w
      | ReadAgain \<Rightarrow> w
      | ReadFailed \<Rightarrow> handle_error w)"

definition handle_read :: "'u message_cb \<Rightarrow> 'u conn_world \<Rightarrow> 'u conn_world" where
  "handle_read msg w = read_loop msg (ce_reads (fst w)) ((fst w)\<lparr>ce_reads := []\<rparr>, snd w)"

text \<open>
  The write loop, on the results the calls of \<open>write\<close> will return, which bound its turns. A call
  that writes nothing ends it like one that would block.
\<close>

definition write_turn :: "'u conn_world \<Rightarrow> bool \<times> 'u conn_world" where
  "write_turn w =
     (let buf = tsb_buf (tc_output (conn_of w))
      in if bb_readable buf = 0 then (False, w)
         else
           case sock_write (bb_contents buf) w of
             (Wrote n, w) \<Rightarrow>
               if n = 0 then (False, w)
               else (True, on_conn (\<lambda>c. c\<lparr>tc_output := (tc_output c)\<lparr>tsb_buf :=
                       bb_skip n (tsb_buf (tc_output c))\<rparr>\<rparr>) w)
           | (WriteAgain, w) \<Rightarrow> (False, w)
           | (WriteFailed, w) \<Rightarrow> (False, handle_error w))"

fun write_loop :: "write_result list \<Rightarrow> 'u conn_world \<Rightarrow> 'u conn_world" where
  "write_loop [] w = snd (write_turn w)"
| "write_loop (r # rs) w = (let (go, w) = write_turn w in if go then write_loop rs w else w)"

definition handle_write :: "'u conn_world \<Rightarrow> 'u conn_world" where
  "handle_write w =
     (let w = write_loop (ce_writes (fst w)) w
      in if tsb_readable (tc_output (conn_of w)) = 0 then
           (let w = conn_emit [CallWriteComplete] (disable_writing True w)
            in if tc_state (conn_of w) = ConnDisconnecting
               then conn_emit [SockShutdown (tc_fd (conn_of w))] w else w)
         else w)"

text \<open>What the loop runs for each closure.\<close>

fun conn_exec :: "'u message_cb \<Rightarrow> ('u conn_env, conn_closure) loop_exec" where
  "conn_exec msg (RunEvent OnEvents fd ev) w =
     (let w = (if has_event ev kEventRead then handle_read msg w else w)
      in if has_event ev kEventError then handle_error w else w)"
| "conn_exec msg (RunTask (SendTask d)) w = send_in_loop d w"
| "conn_exec msg (RunTask ShutdownTask) w = shutdown_task w"
| "conn_exec msg (RunTask EnableTask) w = enable_task w"
| "conn_exec msg (RunTask DisableTask) w = disable_writing True w"
| "conn_exec msg _ w = w"

section \<open>The ways a send can go\<close>

abbreviation on_writes :: "write_result list \<Rightarrow> 'u conn_world \<Rightarrow> 'u conn_world" where
  "on_writes rs w \<equiv> ((fst w)\<lparr>ce_writes := rs\<rparr>, snd w)"

lemma send_in_loop_cases:
  assumes "tc_state (conn_of w) \<noteq> ConnConnected \<Longrightarrow> P w"
    and "tc_state (conn_of w) = ConnConnected \<Longrightarrow> 0 < tsb_readable (tc_output (conn_of w)) \<Longrightarrow> P (buffer_output d w)"
    and "\<And>rs. tc_state (conn_of w) = ConnConnected \<Longrightarrow> tsb_readable (tc_output (conn_of w)) = 0 \<Longrightarrow>
      P (handle_error (on_writes rs w))"
    and "\<And>rs. tc_state (conn_of w) = ConnConnected \<Longrightarrow> tsb_readable (tc_output (conn_of w)) = 0 \<Longrightarrow>
      P (buffer_output d (on_writes rs w))"
    and "\<And>rs n. tc_state (conn_of w) = ConnConnected \<Longrightarrow> tsb_readable (tc_output (conn_of w)) = 0 \<Longrightarrow>
      0 \<le> tc_fd (conn_of w) \<Longrightarrow> n < length d \<Longrightarrow>
      P (buffer_output (drop n d) (conn_emit [SockWrite (take n d)] (on_writes rs w)))"
    and "\<And>rs. tc_state (conn_of w) = ConnConnected \<Longrightarrow> tsb_readable (tc_output (conn_of w)) = 0 \<Longrightarrow>
      0 \<le> tc_fd (conn_of w) \<Longrightarrow> P (conn_emit [CallWriteComplete] (conn_emit [SockWrite d] (on_writes rs w)))"
  shows "P (send_in_loop d w)"
proof -
  have self: "on_writes (ce_writes (fst w)) w = w" by simp
  show ?thesis
  proof (cases "tc_state (conn_of w) = ConnConnected \<and> tsb_readable (tc_output (conn_of w)) = 0")
    case False
    with assms(1,2) show ?thesis by (auto simp: send_in_loop_def)
  next
    case True
    note send = send_in_loop_def sock_write_def Let_def
    consider "tc_fd (conn_of w) < 0" | "0 \<le> tc_fd (conn_of w)" "ce_writes (fst w) = []"
      | r rs where "0 \<le> tc_fd (conn_of w)" "ce_writes (fst w) = r # rs"
      by (cases "ce_writes (fst w)") fastforce+
    then show ?thesis
    proof cases
      case 1
      with True assms(3) [of "ce_writes (fst w)"] show ?thesis by (simp add: send)
    next
      case 2
      with self have "on_writes [] w = w" by simp
      with True 2 assms(4) [of "[]"] show ?thesis by (simp add: send)
    next
      case 3
      show ?thesis
      proof (cases r)
        case (Wrote n)
        show ?thesis
        proof (cases "n < length d")
          case True': True
          with Wrote True 3 assms(5) [of n rs] show ?thesis by (simp add: send min_def)
        next
          case False
          with Wrote True 3 assms(6) [of rs] show ?thesis by (simp add: send min_def)
        qed
      qed (use True 3 assms(3,4) [of rs] in \<open>simp_all add: send\<close>)
    qed
  qed
qed

section \<open>Invariants of a connection\<close>

text \<open>
  What the steps of a connection keep, every closure of it keeps, and with it every run of the loop.
  The steps are those of the thread of the loop; \<open>conn_post\<close> stands for every task posted.
\<close>

locale conn_invariant =
  fixes I :: "'u conn_world \<Rightarrow> bool"
  assumes error: "I w \<Longrightarrow> I (handle_error w)"
    and close: "I w \<Longrightarrow> 0 \<le> tc_fd (conn_of w) \<Longrightarrow> I (handle_close w)"
    and send: "I w \<Longrightarrow> I (send_in_loop d w)"
    and post: "I w \<Longrightarrow> I (on_loop (run_in_loop c) w)"
    and disconnecting: "I w \<Longrightarrow> I (on_conn (\<lambda>c. c\<lparr>tc_state := ConnDisconnecting\<rparr>) w)"
    and shut: "I w \<Longrightarrow> I (shutdown_task w)"
    and watch: "I w \<Longrightarrow> I (on_loop (mod_fd fd ev) w)"
    and input: "I w \<Longrightarrow> I (on_conn (\<lambda>c. c\<lparr>tc_input := b\<rparr>) w)"
    and user: "I w \<Longrightarrow> I ((fst w)\<lparr>ce_user := u\<rparr>, snd w)"
    and reads: "I w \<Longrightarrow> I ((fst w)\<lparr>ce_reads := rs\<rparr>, snd w)"
begin

lemma keeps_send: "I w \<Longrightarrow> I (conn_send b d w)"
  using post [of w "SendTask d"] by (simp add: conn_send_def send)

lemma keeps_shutdown: "I w \<Longrightarrow> I (conn_shutdown w)"
  using post [OF disconnecting, of w ShutdownTask] by (simp add: conn_shutdown_def)

lemma keeps_calls: "I w \<Longrightarrow> I (fold conn_do_call calls w)"
proof (induction calls arbitrary: w)
  case (Cons call calls)
  then show ?case by (cases call) (simp_all add: keeps_send keeps_shutdown)
qed simp

lemma keeps_message: "I w \<Longrightarrow> I (call_message msg w)"
  using input [OF user] by (auto simp: call_message_def split_beta intro!: keeps_calls)

lemma keeps_read_loop: "I w \<Longrightarrow> I (read_loop msg rs w)"
proof (induction rs arbitrary: w)
  case (Cons r rs)
  then show ?case
    using keeps_message [OF input [of w]]
    by (cases r) (auto simp: error close intro!: Cons.IH)
qed (simp add: error)

lemma keeps_read: "I w \<Longrightarrow> I (handle_read msg w)"
  using reads [of w "[]"] by (simp add: handle_read_def keeps_read_loop)

lemma keeps_exec: "I w \<Longrightarrow> I (conn_exec msg call w)"
proof (induction msg call w rule: conn_exec.induct)
  case (1 msg fd ev w)
  then show ?case using keeps_read [of w msg] by (simp add: Let_def error)
next
  case (4 msg w)
  then show ?case using watch by (simp add: enable_task_def)
next
  case (5 msg w)
  then show ?case using watch by (simp add: disable_writing_def)
qed (simp_all add: send shut)

end

text \<open>Invariants that do not depend on the bookkeeping of the loop hold after every run of it.\<close>

locale conn_loop_invariant = conn_invariant +
  assumes pending: "I w \<Longrightarrow> I (on_loop (el_pending_update (\<lambda>_. ts)) w)"
    and timers: "I w \<Longrightarrow> I (on_loop (el_timers_update (\<lambda>_. tms)) w)"
    and wakeups: "I w \<Longrightarrow> I (on_loop (el_wakeup_update (\<lambda>_. n)) w)"

sublocale conn_loop_invariant \<subseteq> loop_property "conn_exec msg" I for msg
  by unfold_locales (simp_all add: keeps_exec pending timers wakeups)

section \<open>The connection as a client of its loop\<close>

definition by_ops :: "'c event_loop \<Rightarrow> 'c event_loop \<Rightarrow> bool" where
  "by_ops el el' \<longleftrightarrow> (\<exists>ops. el' = fold do_op ops el)"

lemma by_ops_refl [simp, intro]: "by_ops el el"
  unfolding by_ops_def by (rule exI [of _ "[]"]) simp

lemma by_ops_op: "by_ops el el1 \<Longrightarrow> by_ops el (do_op op el1)"
proof -
  assume "by_ops el el1"
  then obtain ops where "el1 = fold do_op ops el" by (auto simp: by_ops_def)
  then have "do_op op el1 = fold do_op (ops @ [op]) el" by simp
  then show ?thesis unfolding by_ops_def by (rule exI)
qed

lemma by_ops_ops:
  assumes "by_ops el el1"
  shows "by_ops el (mod_fd fd ev el1)" "by_ops el (del_fd fd el1)" "by_ops el (run_in_loop c el1)"
  using by_ops_op [OF assms, of "OpModFd fd ev"] by_ops_op [OF assms, of "OpDelFd fd"]
    by_ops_op [OF assms, of "OpRunInLoop c"] by simp_all

lemma sock_write_loop [frame_simps]: "snd (snd (sock_write d w)) = snd w"
  by (simp add: sock_write_def Let_def split: list.split write_result.split)

interpretation ops_of: conn_invariant "\<lambda>w. by_ops el (snd w)" for el
  by unfold_locales
    (auto simp: handle_error_def handle_close_def send_in_loop_def buffer_output_def enable_writing_def
      shutdown_task_def split_beta frame_simps Let_def by_ops_ops split: write_result.split)

interpretation conn_client: loop_client "conn_exec msg" for msg
proof unfold_locales
  fix call and w :: "'a conn_world"
  show "\<exists>ops. snd (conn_exec msg call w) = fold do_op ops (snd w)"
    using ops_of.keeps_exec [of "snd w" w msg call] by (auto simp: by_ops_def)
qed

section \<open>Runs\<close>

text \<open>
  What can happen to a connection: a thread sends or shuts down, the peer or the kernel makes the
  socket ready for reads and writes, and the loop runs for some turns.
\<close>

datatype conn_action =
    StepSend bool bytes
  | StepShutdown
  | StepSocket "read_result list" "write_result list"
  | StepLoop "(int \<times> poll_result) list"

type_synonym timer_partition =
  "(conn_closure loop_timer \<Rightarrow> bool) \<Rightarrow> conn_closure loop_timer list \<Rightarrow>
   conn_closure loop_timer list \<times> conn_closure loop_timer list"

fun conn_step :: "timer_partition \<Rightarrow> 'u message_cb \<Rightarrow> conn_action \<Rightarrow> 'u conn_world \<Rightarrow> cpp_error + 'u conn_world" where
  "conn_step part msg (StepSend in_thread d) w = Inr (conn_send in_thread d w)"
| "conn_step part msg StepShutdown w = Inr (conn_shutdown w)"
| "conn_step part msg (StepSocket rs ws) w = Inr ((fst w)\<lparr>ce_reads := rs, ce_writes := ws\<rparr>, snd w)"
| "conn_step part msg (StepLoop env) w = loop_rounds part (conn_exec msg) env w"

fun conn_run :: "timer_partition \<Rightarrow> 'u message_cb \<Rightarrow> conn_action list \<Rightarrow> 'u conn_world \<Rightarrow> cpp_error + 'u conn_world" where
  "conn_run part msg [] w = Inr w"
| "conn_run part msg (s # ss) w =
     (case conn_step part msg s w of Inl e \<Rightarrow> Inl e | Inr w \<Rightarrow> conn_run part msg ss w)"

locale conn_run_invariant = conn_loop_invariant +
  assumes writes: "I w \<Longrightarrow> I ((fst w)\<lparr>ce_writes := ws\<rparr>, snd w)"
begin

lemma keeps_step: "I w \<Longrightarrow> conn_step part msg s w = Inr w' \<Longrightarrow> I w'"
proof (cases s)
  case (StepSocket rs ws)
  moreover assume "I w" "conn_step part msg s w = Inr w'"
  moreover have "((fst w)\<lparr>ce_writes := ws, ce_reads := rs\<rparr>, snd w) = ((fst w)\<lparr>ce_reads := rs, ce_writes := ws\<rparr>, snd w)"
    by simp
  ultimately show "I w'" using reads [OF writes [of w ws], of rs] by (simp del: conn_env.update_convs)
qed (auto simp: keeps_send keeps_shutdown keeps_rounds)

lemma keeps_run: "I w \<Longrightarrow> conn_run part msg ss w = Inr w' \<Longrightarrow> I w'"
  by (induction ss arbitrary: w) (auto split: sum.splits dest: keeps_step)

end

text \<open>A connection that was accepted and started on a loop.\<close>

definition conn_fresh :: "int \<Rightarrow> bytes \<Rightarrow> 'u \<Rightarrow> conn_closure event_loop \<Rightarrow> 'u conn_world" where
  "conn_fresh fd peer u el =
     conn_start (\<lparr>ce_conn = tcp_connection_new fd peer, ce_reads = [], ce_writes = [], ce_trace = [], ce_user = u\<rparr>, el)"

definition silent :: "unit message_cb" where "silent u b = ((u, byte_buffer_new 0), [])"

definition demo_loop :: "conn_closure event_loop" where "demo_loop = event_loop_new 0 7"

text \<open>Evaluation of concrete runs, with the storage of the buffers left alone.\<close>

lemmas run_defs =
  conn_fresh_def conn_start_def tcp_connection_new_def demo_loop_def event_loop_new_def add_fd_eq mod_fd_eq
  del_fd_eq run_in_loop_def wakeup_def push_task_def handle_wakeup_def process_tasks_def process_timers_def
  dispatch_event_def call_cb_def handle_read_def handle_close_def handle_error_def conn_send_def send_in_loop_def
  sock_write_def buffer_output_def enable_writing_def enable_task_def shutdown_task_def conn_shutdown_def
  kEventRead_def kEventWrite_def kEventError_def EPOLLIN_def EPOLLOUT_def EPOLLHUP_def EPOLLERR_def
  epoll_mask_def Let_def

text \<open>
  The loop stays well formed in the life of a connection: one entry for a descriptor, in a map
  node of its own, and timers with distinct identifiers that were handed out.
\<close>

theorem connection_keeps_loop:
  assumes "partition_ok part" and "loop_inv (snd w)" and "conn_run part msg steps w = Inr w'"
  shows "loop_inv (snd w')"
proof -
  have ops: "loop_inv (snd w1)" if "loop_inv (snd w)" "by_ops (snd w) (snd w1)" for w w1 :: "'a conn_world"
    using that by (auto simp: by_ops_def loop_inv_def inv_ops)
  have step: "loop_inv (snd w1)" if "loop_inv (snd w)" "conn_step part msg s w = Inr w1" for s w w1
    using that assms(1) conn_client.loop_inv_rounds [of part w msg]
    by (cases s) (auto intro: ops ops_of.keeps_send ops_of.keeps_shutdown by_ops_refl)
  show ?thesis
    using assms(2,3) by (induction steps arbitrary: w) (auto split: sum.splits dest: step)
qed

theorem connection_keeps_loop_witness:
  "\<exists>w. conn_run List.partition silent [StepSend False ''x'', StepLoop [(0, PollReady [(7, EPOLLIN)])]]
      (conn_fresh 9 [] () demo_loop) = Inr w \<and> loop_inv (snd w)"
proof -
  let ?steps = "[StepSend False ''x'', StepLoop [(0, PollReady [(7, EPOLLIN)])]]"
  let ?r = "conn_run List.partition silent ?steps (conn_fresh 9 [] () demo_loop)"
  have "loop_inv (snd (conn_fresh 9 [] () demo_loop))"
    using loop_inv_new [of 0 7, where ?'a = conn_closure] inv_ops [where el = "event_loop_new 0 7" and ops = "[OpAddFd 9 kEventRead OnEvents]"]
    by (simp add: loop_inv_def conn_fresh_def conn_start_def demo_loop_def tcp_connection_new_def)
  moreover have "case ?r of Inl e \<Rightarrow> False | Inr w \<Rightarrow> True"
    by (simp add: run_defs tsb_readable_def tsb_new_def bb_readable_def byte_buffer_new_def)
  then obtain w where "?r = Inr w" by (auto split: sum.splits)
  ultimately show ?thesis using connection_keeps_loop [OF partition_stable_ok] by blast
qed

section \<open>One close\<close>

definition is_close :: "conn_effect \<Rightarrow> bool" where
  "is_close e \<longleftrightarrow> (case e of SockClose fd \<Rightarrow> True | _ \<Rightarrow> False)"

definition is_write :: "conn_effect \<Rightarrow> bool" where
  "is_write e \<longleftrightarrow> (case e of SockWrite d \<Rightarrow> True | _ \<Rightarrow> False)"

lemma is_effect_simps [simp]:
  "is_close (SockClose fd)" "\<not> is_close (SockWrite d)" "\<not> is_close (SockShutdown fd)"
  "\<not> is_close CallWriteComplete" "\<not> is_close CallClose" "\<not> is_close CallError"
  "is_write (SockWrite d)" "\<not> is_write (SockClose fd)" "\<not> is_write (SockShutdown fd)"
  "\<not> is_write CallWriteComplete" "\<not> is_write CallClose" "\<not> is_write CallError"
  by (simp_all add: is_close_def is_write_def)

definition after_close :: "conn_effect list \<Rightarrow> conn_effect list" where
  "after_close es = dropWhile (\<lambda>e. \<not> is_close e) es"

lemma after_close_simps [simp]:
  "after_close [] = []" "after_close (e # es) = (if is_close e then e # es else after_close es)"
  by (simp_all add: after_close_def)

lemma after_close_append:
  "after_close (es @ es') = (if filter is_close es = [] then after_close es' else after_close es @ es')"
  by (induction es) simp_all

definition closed_once :: "int \<Rightarrow> 'u conn_world \<Rightarrow> bool" where
  "closed_once fd0 w \<longleftrightarrow>
     (if tc_fd (conn_of w) = -1 then
        filter is_close (ce_trace (fst w)) = [SockClose fd0] \<and> filter is_write (after_close (ce_trace (fst w))) = [] \<and>
        entry_of (snd w) fd0 = None \<and> tc_state (conn_of w) \<in> {ConnDisconnected, ConnDisconnecting}
      else tc_fd (conn_of w) = fd0 \<and> 0 \<le> fd0 \<and> filter is_close (ce_trace (fst w)) = [])"

lemma closed_once_emit:
  "closed_once fd0 w \<Longrightarrow> filter is_close es = [] \<Longrightarrow> (tc_fd (conn_of w) = -1 \<longrightarrow> filter is_write es = []) \<Longrightarrow>
    closed_once fd0 (conn_emit es w)"
  by (auto simp: closed_once_def after_close_append)

lemma closed_once_frame [frame_simps]:
  "closed_once fd0 (buffer_output d w) = closed_once fd0 w"
  "closed_once fd0 (on_writes rs w) = closed_once fd0 w"
  by (simp_all add: closed_once_def buffer_output_def enable_writing_def frame_simps)

lemma closed_once_error: "closed_once fd0 w \<Longrightarrow> closed_once fd0 (handle_error w)"
  by (cases "tc_fd (conn_of w) = -1")
    (simp_all add: closed_once_def handle_error_def Let_def after_close_append del_fd_eq AList.delete_conv')

interpretation closing: conn_run_invariant "closed_once fd0" for fd0
proof unfold_locales
  fix w :: "'a conn_world" and d
  assume inv: "closed_once fd0 w"
  then show "closed_once fd0 (handle_error w)" by (rule closed_once_error)
  show "closed_once fd0 (send_in_loop d w)"
    by (rule send_in_loop_cases; insert inv)
      (assumption | rule closed_once_error closed_once_emit | simp only: closed_once_frame | simp)+
  from inv show "closed_once fd0 (shutdown_task w)"
    unfolding shutdown_task_def by (auto intro: closed_once_emit)
next
  fix w :: "'a conn_world"
  assume "closed_once fd0 w" "0 \<le> tc_fd (conn_of w)"
  then show "closed_once fd0 (handle_close w)"
    by (simp add: closed_once_def handle_close_def Let_def after_close_append del_fd_eq AList.delete_conv')
qed (auto simp: closed_once_def frame_simps mod_fd_eq AList.update_conv' Let_def split: option.splits)

text \<open>
  C29. A connection closes its descriptor at most once, whatever its life: as long as it has not, it
  keeps the descriptor it was given; once it has, the descriptor is \<open>-1\<close>, the loop has no entry
  for the old one, the connection does not count as connected, and nothing is written any more.
\<close>

theorem connection_closes_once:
  assumes "0 \<le> fd" and "conn_run part msg steps (conn_fresh fd peer u el) = Inr w"
  shows "closed_once fd w"
proof (rule closing.keeps_run [OF _ assms(2)])
  show "closed_once fd (conn_fresh fd peer u el)"
    using assms(1) by (simp add: closed_once_def conn_fresh_def conn_start_def tcp_connection_new_def)
qed

theorem connection_closes_once_witness:
  "\<exists>w. conn_run List.partition silent
      [StepSocket [ReadEof] [], StepLoop [(0, PollReady [(9, EPOLLIN OR EPOLLHUP)])], StepSend True ''x'']
      (conn_fresh 9 ''10.0.0.1:5'' () demo_loop) = Inr w \<and>
    closed_once 9 w \<and> tc_fd (conn_of w) = -1"
proof -
  let ?steps = "[StepSocket [ReadEof] [], StepLoop [(0, PollReady [(9, EPOLLIN OR EPOLLHUP)])], StepSend True ''x'']"
  let ?r = "conn_run List.partition silent ?steps (conn_fresh 9 ''10.0.0.1:5'' () demo_loop)"
  have ok: "case ?r of Inl e \<Rightarrow> False | Inr w \<Rightarrow> tc_fd (conn_of w) = -1"
    by (simp add: run_defs)
  then obtain w where "?r = Inr w" by (auto split: sum.splits)
  with ok connection_closes_once [of 9 List.partition silent ?steps "''10.0.0.1:5''" "()" demo_loop w]
  show ?thesis by simp
qed

section \<open>Output\<close>

text \<open>The bytes the peer gets.\<close>

definition wire :: "conn_effect list \<Rightarrow> bytes" where
  "wire es = concat (map (\<lambda>e. case e of SockWrite d \<Rightarrow> d | _ \<Rightarrow> []) es)"

lemma wire_simps [simp]:
  "wire [] = []" "wire (es @ es') = wire es @ wire es'" "wire (SockWrite d # es) = d @ wire es"
  "wire (SockClose fd # es) = wire es" "wire (SockShutdown fd # es) = wire es"
  "wire (CallWriteComplete # es) = wire es" "wire (CallClose # es) = wire es" "wire (CallError # es) = wire es"
  by (simp_all add: wire_def)

abbreviation unsent :: "'u conn_world \<Rightarrow> bytes" where
  "unsent w \<equiv> bb_contents (tsb_buf (tc_output (conn_of w)))"

abbreviation written :: "'u conn_world \<Rightarrow> bytes" where
  "written w \<equiv> wire (ce_trace (fst w))"

definition send_tasks :: "conn_closure list \<Rightarrow> bytes list" where
  "send_tasks cs = concat (map (\<lambda>c. case c of SendTask d \<Rightarrow> [d] | _ \<Rightarrow> []) cs)"

lemma send_tasks_simps [simp]:
  "send_tasks [] = []" "send_tasks (cs @ cs') = send_tasks cs @ send_tasks cs'"
  "send_tasks (SendTask d # cs) = d # send_tasks cs" "send_tasks (EnableTask # cs) = send_tasks cs"
  "send_tasks (ShutdownTask # cs) = send_tasks cs" "send_tasks (DisableTask # cs) = send_tasks cs"
  "send_tasks (OnEvents # cs) = send_tasks cs"
  by (simp_all add: send_tasks_def)

text \<open>
  The abstract connection: what was handed to it and not yet taken up by its thread, and the stream
  it has accepted.
\<close>

datatype out_op = OutSend bool bytes | OutTasks | OutWritable | OutShutdown

fun out_step :: "'u message_cb \<Rightarrow> out_op \<Rightarrow> 'u conn_world \<Rightarrow> 'u conn_world" where
  "out_step msg (OutSend in_thread d) w = conn_send in_thread d w"
| "out_step msg OutTasks w = process_tasks (conn_exec msg) w"
| "out_step msg OutWritable w = handle_write w"
| "out_step msg OutShutdown w = conn_shutdown w"

fun out_spec :: "out_op \<Rightarrow> bytes list \<times> bytes \<Rightarrow> bytes list \<times> bytes" where
  "out_spec (OutSend True d) (q, s) = (q, s @ d)"
| "out_spec (OutSend False d) (q, s) = (q @ [d], s)"
| "out_spec OutTasks (q, s) = ([], s @ concat q)"
| "out_spec OutWritable (q, s) = (q, s)"
| "out_spec OutShutdown (q, s) = (q, s)"

definition out_rel :: "bytes list \<Rightarrow> bytes \<Rightarrow> 'u conn_world \<Rightarrow> bool" where
  "out_rel q s w \<longleftrightarrow> bb_inv (tsb_buf (tc_output (conn_of w))) \<and>
     (if tc_state (conn_of w) = ConnConnected
      then written w @ unsent w = s \<and> send_tasks (el_pending (snd w)) = q
      else prefix (written w @ unsent w) s)"

lemma pending_frame [frame_simps]:
  "el_pending (mod_fd fd ev el) = el_pending el" "el_pending (del_fd fd el) = el_pending el"
  "el_pending (run_in_loop c el) = el_pending el @ [c]" "el_pending (add_fd fd ev cb el) = el_pending el"
  by (simp_all add: mod_fd_eq del_fd_eq add_fd_eq run_in_loop_def wakeup_def push_task_def Let_def split: option.split)

lemma handle_error_frame [frame_simps]:
  "tc_output (conn_of (handle_error w)) = tc_output (conn_of w)" "written (handle_error w) = written w"
  "tc_state (conn_of (handle_error w)) = ConnDisconnected"
  by (simp_all add: handle_error_def Let_def)

lemma buffer_output_frame [frame_simps]:
  "tc_state (conn_of (buffer_output d w)) = tc_state (conn_of w)" "written (buffer_output d w) = written w"
  "send_tasks (el_pending (snd (buffer_output d w))) = send_tasks (el_pending (snd w))"
  by (simp_all add: buffer_output_def enable_writing_def frame_simps)

lemma buffer_output_out:
  "bb_inv (tsb_buf (tc_output (conn_of w))) \<Longrightarrow>
    bb_inv (tsb_buf (tc_output (conn_of (buffer_output d w)))) \<and> unsent (buffer_output d w) = unsent w @ d"
  by (simp add: buffer_output_def enable_writing_def tsb_append_def keeps_inv bb_contents_append)

lemma tsb_readable_0: "bb_inv (tsb_buf b) \<Longrightarrow> tsb_readable b = 0 \<longleftrightarrow> bb_contents (tsb_buf b) = []"
  using bb_readable_0 [of "tsb_buf b"] by (auto simp: tsb_readable_def)

lemma out_rel_send:
  assumes "out_rel q s w"
  shows "out_rel q (s @ d) (send_in_loop d w)"
proof -
  have inv: "bb_inv (tsb_buf (tc_output (conn_of w)))" using assms by (simp add: out_rel_def)
  note out = buffer_output_out [of w] buffer_output_out [of "on_writes rs w" for rs]
    buffer_output_out [of "conn_emit es (on_writes rs w)" for es rs]
  show ?thesis
    by (rule send_in_loop_cases; insert assms inv out)
      (auto simp: out_rel_def frame_simps tsb_readable_0 prefix_append)
qed

lemma out_rel_emit:
  "out_rel q s w \<Longrightarrow> wire es = [] \<Longrightarrow> out_rel q s (conn_emit es w)"
  by (simp add: out_rel_def)

lemma out_rel_watch: "out_rel q s (on_loop (mod_fd fd ev) w) = out_rel q s w"
  by (simp add: out_rel_def frame_simps)

lemma out_rel_task:
  "out_rel q s w \<Longrightarrow> out_rel q (s @ concat (send_tasks [c])) (conn_exec msg (RunTask c) w)"
  by (cases c)
    (auto simp: out_rel_send shutdown_task_def enable_task_def disable_writing_def out_rel_watch
      intro!: out_rel_emit)

lemma out_rel_tasks:
  "out_rel q s w \<Longrightarrow> out_rel q (s @ concat (send_tasks cs)) (fold (\<lambda>c. conn_exec msg (RunTask c)) cs w)"
proof (induction cs arbitrary: s w)
  case (Cons c cs)
  from Cons.IH [OF out_rel_task [OF Cons.prems, of c msg]] show ?case
    by (cases c) simp_all
qed simp

lemma sock_write_cases:
  assumes "sock_write d w = (r, w1)"
  obtains ws where "r = WriteAgain \<or> r = WriteFailed" "w1 = on_writes ws w"
  | n ws where "r = Wrote n" "n \<le> length d" "w1 = conn_emit [SockWrite (take n d)] (on_writes ws w)"
proof -
  have self: "on_writes (ce_writes (fst w)) w = w" by simp
  show thesis
  proof (cases "tc_fd (conn_of w) < 0 \<or> ce_writes (fst w) = []")
    case True
    then show thesis using assms that(1) [of "ce_writes (fst w)"] self
      by (auto simp: sock_write_def split: if_splits list.splits)
  next
    case False
    then obtain r0 rs where "ce_writes (fst w) = r0 # rs" by (cases "ce_writes (fst w)") auto
    with False assms that(1) [of rs] that(2) [of "case r0 of Wrote n \<Rightarrow> min n (length d) | _ \<Rightarrow> 0" rs] show thesis
      by (cases r0) (auto simp: sock_write_def Let_def)
  qed
qed

lemma out_rel_turn:
  assumes "out_rel q s w"
  shows "out_rel q s (snd (write_turn w))"
proof -
  obtain r w1 where sw: "sock_write (unsent w) w = (r, w1)" by (rule prod.exhaust)
  then show ?thesis
    by (rule sock_write_cases)
      (use assms sw in \<open>auto simp: write_turn_def Let_def out_rel_def frame_simps keeps_inv bb_contents_skip
        split: if_splits\<close>)
qed

lemma out_rel_write_loop: "out_rel q s w \<Longrightarrow> out_rel q s (write_loop rs w)"
  by (induction rs arbitrary: w) (simp_all add: out_rel_turn split_beta)

lemma out_rel_handle_write: "out_rel q s w \<Longrightarrow> out_rel q s (handle_write w)"
  using out_rel_write_loop [of q s w "ce_writes (fst w)"]
  by (auto simp: handle_write_def Let_def disable_writing_def out_rel_def frame_simps)

text \<open>Once the connection is not connected, its tasks change nothing of the output.\<close>

definition out_closed :: "bytes \<Rightarrow> 'u conn_world \<Rightarrow> bool" where
  "out_closed s w \<longleftrightarrow> bb_inv (tsb_buf (tc_output (conn_of w))) \<and> tc_state (conn_of w) \<noteq> ConnConnected \<and>
     prefix (written w @ unsent w) s"

lemma out_closed_task: "out_closed s w \<Longrightarrow> out_closed s (conn_exec msg (RunTask c) w)"
  by (cases c) (simp_all add: out_closed_def send_in_loop_def shutdown_task_def enable_task_def disable_writing_def)

lemma out_closed_tasks: "out_closed s w \<Longrightarrow> out_closed s (process_tasks (conn_exec msg) w)"
proof -
  have "out_closed s (fold (\<lambda>c. conn_exec msg (RunTask c)) cs w)" if "out_closed s w" for cs w
    using that by (induction cs arbitrary: w) (simp_all add: out_closed_task)
  then show "out_closed s w \<Longrightarrow> ?thesis" by (simp add: process_tasks_def Let_def out_closed_def)
qed

text \<open>Of the tasks a turn runs, only the data counts; what they post is no data.\<close>

lemma out_rel_step:
  assumes "out_rel q s w"
  shows "case out_spec op (q, s) of (q', s') \<Rightarrow> out_rel q' s' (out_step msg op w)"
proof (cases op)
  case (OutSend b d)
  with assms out_rel_send [OF assms, of d] show ?thesis
    by (cases b) (auto simp: conn_send_def out_rel_def frame_simps send_in_loop_def)
next
  case OutTasks
  show ?thesis
  proof (cases "tc_state (conn_of w) = ConnConnected")
    case True
    then have q: "send_tasks (el_pending (snd w)) = q" using assms by (simp add: out_rel_def)
    have "out_rel [] s (fst w, (snd w)\<lparr>el_pending := []\<rparr>)" using assms by (simp add: out_rel_def)
    from out_rel_tasks [OF this, of "el_pending (snd w)" msg] show ?thesis
      using OutTasks q by (simp add: process_tasks_def Let_def)
  next
    case False
    with assms have "out_closed (s @ concat q) w" by (simp add: out_rel_def out_closed_def prefix_append)
    from out_closed_tasks [OF this, of msg] show ?thesis
      using OutTasks by (simp add: out_closed_def out_rel_def)
  qed
next
  case OutShutdown
  with assms show ?thesis by (auto simp: conn_shutdown_def out_rel_def frame_simps split: if_splits)
qed (use out_rel_handle_write [OF assms] in simp)

lemma out_rel_run:
  "out_rel q s w \<Longrightarrow> case fold out_spec ops (q, s) of (q', s') \<Rightarrow> out_rel q' s' (fold (out_step msg) ops w)"
proof (induction ops arbitrary: q s w)
  case (Cons op ops)
  obtain q1 s1 where s: "out_spec op (q, s) = (q1, s1)" by force
  with out_rel_step [OF Cons.prems, where op = op and msg = msg] have "out_rel q1 s1 (out_step msg op w)" by simp
  from Cons.IH [OF this] show ?case by (simp add: s)
qed simp

text \<open>
  C25. The output of a connection is a first-in first-out stream: whatever threads send, whenever
  the socket takes how much of it, and whatever fails, the bytes on the wire are a prefix of the
  data in the order in which the loop's thread takes it up; and as long as the connection is
  connected, what is not on the wire yet is exactly the output buffer, so nothing is lost,
  duplicated or reordered.
\<close>

theorem output_in_order:
  assumes "fold out_spec ops ([], []) = (q, s)" and "el_pending el = []"
    and "w = fold (out_step msg) ops ((fst (conn_fresh fd peer u el))\<lparr>ce_writes := ws\<rparr>, snd (conn_fresh fd peer u el))"
  shows "prefix (written w) s \<and>
    (tc_state (conn_of w) = ConnConnected \<longrightarrow>
       written w @ unsent w = s \<and> send_tasks (el_pending (snd w)) = q)"
proof -
  have "out_rel [] [] ((fst (conn_fresh fd peer u el))\<lparr>ce_writes := ws\<rparr>, snd (conn_fresh fd peer u el))"
    using assms(2)
    by (simp add: out_rel_def conn_fresh_def conn_start_def tcp_connection_new_def frame_simps tsb_new_def keeps_inv)
  from out_rel_run [OF this, where ops = ops and msg = msg] have "out_rel q s w" using assms(1,3) by simp
  then show ?thesis by (auto simp: out_rel_def append_prefixD split: if_splits)
qed

theorem output_in_order_witness:
  "\<exists>w. w = fold (out_step silent) [OutSend True ''abcd'', OutSend False ''ef'', OutTasks, OutWritable]
      ((fst (conn_fresh 9 [] () demo_loop))\<lparr>ce_writes := [Wrote 1, Wrote 2]\<rparr>, snd (conn_fresh 9 [] () demo_loop)) \<and>
    prefix (written w) ''abcdef''"
proof -
  let ?ops = "[OutSend True ''abcd'', OutSend False ''ef'', OutTasks, OutWritable]"
  have "fold out_spec ?ops ([], []) = ([], ''abcdef'')" by simp
  moreover have "el_pending demo_loop = []" by (simp add: demo_loop_def event_loop_new_def add_fd_eq)
  ultimately show ?thesis
    using output_in_order [OF _ _ refl, where ops = ?ops and el = demo_loop and msg = silent and fd = 9 and
        peer = "[]" and u = "()" and ws = "[Wrote 1, Wrote 2]"]
    by blast
qed

end
