(* ===== verification/Connection_Faults.thy ===== *)
theory Connection_Faults
  imports Tcp_Connection
begin

text \<open>
  What goes wrong on a connection and its loop: nothing ever calls \<open>handleWrite\<close>, so output that
  was buffered once stays; a dispatch for both directions outlives the entry it looks at; and data
  that another thread sends in two parts can be torn apart.
\<close>

section \<open>Output that stays\<close>

definition stuck :: "bytes \<Rightarrow> 'u conn_world \<Rightarrow> bool" where
  "stuck sent w \<longleftrightarrow> written w = sent \<and> bb_inv (tsb_buf (tc_output (conn_of w))) \<and>
     (unsent w \<noteq> [] \<or> tc_state (conn_of w) \<noteq> ConnConnected)"

lemma stuck_send: "stuck sent w \<Longrightarrow> stuck sent (send_in_loop d w)"
proof -
  assume s: "stuck sent w"
  show "stuck sent (send_in_loop d w)"
  proof (cases "tc_state (conn_of w) = ConnConnected")
    case True
    with s have "0 < tsb_readable (tc_output (conn_of w))"
      using tsb_readable_0 [of "tc_output (conn_of w)"] by (auto simp: stuck_def)
    with True s buffer_output_out [of w d] show ?thesis
      by (auto simp: send_in_loop_def stuck_def frame_simps)
  qed (use s in \<open>simp add: send_in_loop_def\<close>)
qed

interpretation stuck: conn_run_invariant "stuck sent" for sent
  by unfold_locales
    (auto simp: stuck_send, auto simp: stuck_def frame_simps handle_close_def shutdown_task_def Let_def)

text \<open>
  C30. Once the kernel takes less than all of a send, the connection is mute for good: the rest is
  buffered and the loop is asked to watch for room in the socket, but \<open>start()\<close> registered no
  callback that writes, so nothing is written any more, whatever is sent later, however ready the
  socket gets and however long the loop runs.
\<close>

theorem output_never_flushed:
  assumes "0 \<le> fd" and "n < length d"
    and "conn_run part msg (StepSocket rs (Wrote n # ws) # StepSend True d # steps) (conn_fresh fd peer u el) = Inr w"
  shows "written w = take n d"
proof -
  let ?w = "conn_send True d ((fst (conn_fresh fd peer u el))\<lparr>ce_reads := rs, ce_writes := Wrote n # ws\<rparr>,
      snd (conn_fresh fd peer u el))"
  have "tsb_readable (tsb_new 16384) = 0" by (simp add: tsb_readable_def tsb_new_def bb_readable_def byte_buffer_new_def)
  moreover have "bb_inv (tsb_buf (tsb_new 16384))" "bb_contents (tsb_buf (tsb_new 16384)) = []"
    by (simp_all add: tsb_new_def keeps_inv)
  ultimately have "stuck (take n d) ?w"
    using assms(1,2)
    by (simp add: conn_fresh_def conn_start_def tcp_connection_new_def conn_send_def send_in_loop_def sock_write_def
        buffer_output_def enable_writing_def stuck_def tsb_append_def keeps_inv bb_contents_append Let_def)
  with assms(3) show ?thesis using stuck.keeps_run [of "take n d" ?w] by (simp add: stuck_def)
qed

theorem output_never_flushed_witness:
  "\<exists>w. conn_run List.partition silent
      [StepSocket [] [Wrote 1, Wrote 3], StepSend True ''abcd'',
       StepLoop [(0, PollReady [(9, EPOLLOUT)]), (0, PollReady [(9, EPOLLOUT)])]]
      (conn_fresh 9 [] () demo_loop) = Inr w \<and>
    written w = ''a'' \<and> entry_of (snd w) 9 \<noteq> None"
proof -
  let ?steps = "[StepSocket [] [Wrote 1, Wrote 3], StepSend True ''abcd'',
      StepLoop [(0, PollReady [(9, EPOLLOUT)]), (0, PollReady [(9, EPOLLOUT)])]]"
  let ?r = "conn_run List.partition silent ?steps (conn_fresh 9 [] () demo_loop)"
  have "tsb_readable (tsb_new 16384) = 0" by (simp add: tsb_readable_def tsb_new_def bb_readable_def byte_buffer_new_def)
  then have ok: "case ?r of Inl e \<Rightarrow> False | Inr w \<Rightarrow> entry_of (snd w) 9 \<noteq> None"
    by (simp add: run_defs)
  then obtain w where w: "?r = Inr w" by (auto split: sum.splits)
  moreover have "written w = take 1 ''abcd''"
    by (rule output_never_flushed [OF _ _ w]) simp_all
  ultimately show ?thesis using ok by simp
qed

section \<open>The dangling iterator\<close>

text \<open>
  A peer that goes away while the loop also waits for room in its socket makes the loop read
  freed memory: the read callback finds the end of the stream and erases the entry of the
  descriptor, and the dispatch then looks at the same entry for its write callback. Every connection
  whose output was buffered once is in that position.
\<close>

theorem peer_close_use_after_free:
  assumes "tc_fd (conn_of w) = fd" and "0 \<le> fd" and "ce_reads (fst w) \<in> {[ReadEof], [ReadFailed]}"
    and "entry_of (snd w) fd = Some it" and "fe_read_cb it = Some (LoopClient OnEvents)"
    and "has_event ev EPOLLIN" and "has_event ev EPOLLOUT"
  shows "dispatch_event (conn_exec msg) (fd, ev) w = Inl UseAfterFree"
proof -
  have "has_event ev (EPOLLIN OR EPOLLHUP OR EPOLLERR)"
    using assms(6) by (metis bit.conj_disj_distrib word_bw_assocs(2) or_eq_0_iff)
  moreover have "entry_of (snd (handle_read msg w)) fd = None"
    using assms(1-3)
    by (auto simp: handle_read_def handle_close_def handle_error_def Let_def del_fd_eq AList.delete_conv')
  moreover have "has_event kEventRead kEventRead" "\<not> has_event kEventRead kEventError"
    by (simp_all add: kEventRead_def kEventError_def)
  ultimately show ?thesis
    using assms(4,5,7) by (simp add: dispatch_event_def call_cb_def Let_def)
qed

text \<open>The connection of the last witness, when its peer goes away.\<close>

definition demo_stuck :: "unit conn_world" where
  "demo_stuck =
     enable_task (conn_send True ''abcd'' ((fst (conn_fresh 9 [] () demo_loop))\<lparr>ce_writes := [Wrote 1]\<rparr>,
       snd (conn_fresh 9 [] () demo_loop)))"

theorem peer_close_use_after_free_witness:
  "dispatch_event (conn_exec silent) (9, EPOLLIN OR EPOLLOUT) ((fst demo_stuck)\<lparr>ce_reads := [ReadEof]\<rparr>, snd demo_stuck) =
    Inl UseAfterFree"
proof (rule peer_close_use_after_free)
  have empty: "tsb_readable (tsb_new 16384) = 0"
    by (simp add: tsb_readable_def tsb_new_def bb_readable_def byte_buffer_new_def)
  show "tc_fd (conn_of ((fst demo_stuck)\<lparr>ce_reads := [ReadEof]\<rparr>, snd demo_stuck)) = 9"
    by (simp add: demo_stuck_def run_defs empty)
  show "entry_of (snd ((fst demo_stuck)\<lparr>ce_reads := [ReadEof]\<rparr>, snd demo_stuck)) 9 =
      Some \<lparr>fe_events = kEventRead OR kEventWrite, fe_read_cb = Some (LoopClient OnEvents), fe_write_cb = None,
        fe_error_cb = None, fe_node = 1\<rparr>"
    by (simp add: demo_stuck_def run_defs empty)
qed (simp_all add: EPOLLIN_def EPOLLOUT_def)

section \<open>Frames torn apart\<close>

text \<open>
  Data sent in two parts from another thread is not sent in one piece: what the thread of the
  loop sends between the two tasks, such as the response to a request, goes between them on the
  wire. A packet relayed to a session on another thread is sent that way, header and payload apart.
\<close>

theorem relayed_frame_torn:
  assumes "el_pending el = []" and "0 \<le> fd"
    and "w = fold (out_step msg) [OutSend False header, OutTasks, OutSend True response, OutSend False payload, OutTasks]
      ((fst (conn_fresh fd peer u el))\<lparr>ce_writes := [Wrote (length header), Wrote (length response),
         Wrote (length payload)]\<rparr>, snd (conn_fresh fd peer u el))"
  shows "written w = header @ response @ payload"
proof -
  have "tsb_readable (tsb_new 16384) = 0"
    by (simp add: tsb_readable_def tsb_new_def bb_readable_def byte_buffer_new_def)
  with assms(1,2) show ?thesis unfolding assms(3)
    by (simp add: run_defs)
qed

theorem relayed_frame_torn_witness:
  "written (fold (out_step silent)
      [OutSend False ''$hdr'', OutTasks, OutSend True ''RTSP/1.0 200 OK'', OutSend False ''payload'', OutTasks]
      ((fst (conn_fresh 9 [] () demo_loop))\<lparr>ce_writes := [Wrote 4, Wrote 15, Wrote 7]\<rparr>, snd (conn_fresh 9 [] () demo_loop))) =
    ''$hdrRTSP/1.0 200 OKpayload''"
proof -
  have "el_pending demo_loop = []" by (simp add: demo_loop_def event_loop_new_def add_fd_eq)
  from relayed_frame_torn [OF this _ refl, where fd = 9 and msg = silent and header = "''$hdr''" and
      response = "''RTSP/1.0 200 OK''" and payload = "''payload''" and peer = "[]" and u = "()"]
  show ?thesis by (simp add: eval_nat_numeral)
qed

end
