(* ===== verification/Tcp_Client.thy ===== *)
theory Tcp_Client
  imports Event_Loop
begin

text \<open>
  \<open>TcpClient\<close> of \<open>src/src/tcp_client.h\<close> and \<open>tcp_client.cpp\<close>: a connection attempt that is repeated
  every second until it succeeds. The lambdas it hands to the loop are the closures
  \<open>client_closure\<close>; each captures \<open>this\<close>, so running one after the object is gone is a use after
  free. What \<open>getaddrinfo\<close>, \<open>socket\<close>, \<open>connect\<close> and \<open>getsockopt\<close> return and the clock are
  arguments; the calls out of the object are recorded.
\<close>

datatype client_closure = CliConnect | CliPostTimer | CliWritable

datatype connect_result = ConnectedNow | ConnectPending | ConnectRefused

record connect_env =
  ev_now :: int
  ev_resolved :: bool
  ev_socket :: int
  ev_connect :: connect_result

datatype client_effect =
    CliCloseSock int
  | CliCallConnect int bytes
  | CliConnStart int
  | CliCallClose

record tcp_client =
  cl_host :: bytes
  cl_port :: u16
  cl_sock_fd :: int
  cl_conn :: "(int \<times> bytes) option"
  cl_alive :: bool
  cl_loop :: "client_closure event_loop"
  cl_trace :: "client_effect list"

definition tcp_client_new :: "client_closure event_loop \<Rightarrow> bytes \<Rightarrow> u16 \<Rightarrow> tcp_client" where
  "tcp_client_new el host port =
     \<lparr>cl_host = host, cl_port = port, cl_sock_fd = -1, cl_conn = None, cl_alive = True, cl_loop = el, cl_trace = []\<rparr>"

definition tcp_client_destroy :: "tcp_client \<Rightarrow> tcp_client" where
  "tcp_client_destroy c =
     c\<lparr>cl_alive := False, cl_trace := cl_trace c @ (if cl_sock_fd c \<ge> 0 then [CliCloseSock (cl_sock_fd c)] else [])\<rparr>"

definition cl_retry :: "int \<Rightarrow> tcp_client \<Rightarrow> tcp_client" where
  "cl_retry now c = c\<lparr>cl_loop := snd (add_timer now 1000 CliConnect False (cl_loop c))\<rparr>"

definition cl_close_sock :: "tcp_client \<Rightarrow> tcp_client" where
  "cl_close_sock c = c\<lparr>cl_trace := cl_trace c @ [CliCloseSock (cl_sock_fd c)], cl_sock_fd := -1\<rparr>"

definition cl_handle_connect :: "tcp_client \<Rightarrow> tcp_client" where
  "cl_handle_connect c =
     (let peer_addr = cl_host c @ '':'' @ dec_nat (unat (cl_port c));
          fd = cl_sock_fd c
      in c\<lparr>cl_conn := Some (fd, peer_addr), cl_sock_fd := -1,
           cl_trace := cl_trace c @ [CliCallConnect fd peer_addr, CliConnStart fd]\<rparr>)"

definition cl_connect :: "connect_env \<Rightarrow> tcp_client \<Rightarrow> tcp_client" where
  "cl_connect env c =
     (if \<not> ev_resolved env then c\<lparr>cl_loop := run_in_loop CliPostTimer (cl_loop c)\<rparr>
      else
        let c = c\<lparr>cl_sock_fd := ev_socket env\<rparr>
        in if ev_socket env < 0 then cl_retry (ev_now env) c
           else case ev_connect env of
             ConnectedNow \<Rightarrow> cl_handle_connect c
           | ConnectPending \<Rightarrow>
               c\<lparr>cl_loop := add_fd (ev_socket env) kEventWrite (LoopClient CliWritable) (cl_loop c)\<rparr>
           | ConnectRefused \<Rightarrow> cl_retry (ev_now env) (cl_close_sock c))"

text \<open>The callback of the pending descriptor; \<open>err\<close> is its \<open>SO_ERROR\<close>.\<close>

definition cl_writable :: "int \<Rightarrow> int \<Rightarrow> int \<Rightarrow> tcp_client \<Rightarrow> tcp_client" where
  "cl_writable now fd err c =
     (let c = c\<lparr>cl_loop := del_fd fd (cl_loop c)\<rparr>
      in if err \<noteq> 0 then cl_retry now (cl_close_sock c) else cl_handle_connect c)"

definition cl_handle_close :: "tcp_client \<Rightarrow> tcp_client" where
  "cl_handle_close c = c\<lparr>cl_trace := cl_trace c @ [CliCallClose], cl_conn := None\<rparr>"

definition cl_reconnect :: "int \<Rightarrow> tcp_client \<Rightarrow> tcp_client" where
  "cl_reconnect now c =
     (let c = c\<lparr>cl_conn := None\<rparr>;
          c = (if cl_sock_fd c \<ge> 0 then cl_close_sock c else c)
      in cl_retry now c)"

section \<open>Runs\<close>

text \<open>
  What happens to a client: its owner connects or destroys it, a task or a timer of the loop is due,
  the pending socket gets writable, the connection is closed or fails. An event that is not enabled
  does nothing. Of the connection's callbacks only the close callback is set.
\<close>

datatype client_event =
    CliDoConnect connect_env
  | CliDestroy
  | CliTask int
  | CliTimer int connect_env
  | CliFdWritable int int int
  | CliConnClosed
  | CliConnFailed

definition timer_ids :: "client_closure event_loop \<Rightarrow> int list" where
  "timer_ids el = map tm_id (filter (\<lambda>t. tm_cb t = Some CliConnect) (el_timers el))"

fun client_step :: "client_event \<Rightarrow> tcp_client \<Rightarrow> cpp_error + tcp_client" where
  "client_step (CliDoConnect env) c = Inr (cl_connect env c)"
| "client_step CliDestroy c = Inr (tcp_client_destroy c)"
| "client_step (CliTask now) c =
     (case el_pending (cl_loop c) of
        CliPostTimer # ts \<Rightarrow>
          if cl_alive c then Inr (cl_retry now (c\<lparr>cl_loop := (cl_loop c)\<lparr>el_pending := ts\<rparr>\<rparr>)) else Inl UseAfterFree
      | _ \<Rightarrow> Inr c)"
| "client_step (CliTimer i env) c =
     (if i \<in> set (timer_ids (cl_loop c)) then
        if cl_alive c then Inr (cl_connect env (c\<lparr>cl_loop := cancel_timer i (cl_loop c)\<rparr>)) else Inl UseAfterFree
      else Inr c)"
| "client_step (CliFdWritable now fd err) c =
     (case entry_of (cl_loop c) fd of
        None \<Rightarrow> Inr c
      | Some e \<Rightarrow>
          if fe_write_cb e \<noteq> Some (LoopClient CliWritable) then Inr c
          else if cl_alive c then Inr (cl_writable now fd err c) else Inl UseAfterFree)"
| "client_step CliConnClosed c =
     (if cl_conn c = None then Inr c else if cl_alive c then Inr (cl_handle_close c) else Inl UseAfterFree)"
| "client_step CliConnFailed c = Inr c"

fun client_run :: "client_event list \<Rightarrow> tcp_client \<Rightarrow> cpp_error + tcp_client" where
  "client_run [] c = Inr c"
| "client_run (ev # evs) c = (case client_step ev c of Inl e \<Rightarrow> Inl e | Inr c \<Rightarrow> client_run evs c)"

section \<open>One attempt at a time\<close>

text \<open>The attempts under way: timers and tasks that will connect, and the socket that is pending.\<close>

definition attempts :: "tcp_client \<Rightarrow> nat" where
  "attempts c = length (timer_ids (cl_loop c)) + length (filter (\<lambda>t. t = CliPostTimer) (el_pending (cl_loop c))) +
     (if 0 \<le> cl_sock_fd c then 1 else 0)"

definition cl_inv :: "tcp_client \<Rightarrow> bool" where
  "cl_inv c \<longleftrightarrow> cl_alive c \<and> timers_inv [] (cl_loop c) \<and>
     attempts c + (if cl_conn c = None then 0 else 1) = (if CliCallClose \<in> set (cl_trace c) then 0 else 1) \<and>
     set (el_pending (cl_loop c)) \<subseteq> {CliPostTimer} \<and>
     (\<forall>fd e. entry_of (cl_loop c) fd = Some e \<and> fe_write_cb e = Some (LoopClient CliWritable) \<longrightarrow>
        fd = cl_sock_fd c \<and> 0 \<le> fd) \<and>
     (0 \<le> cl_sock_fd c \<longrightarrow> (\<exists>e. entry_of (cl_loop c) (cl_sock_fd c) = Some e \<and>
        fe_write_cb e = Some (LoopClient CliWritable)))"

text \<open>A client that has neither a connection nor an attempt under way.\<close>

definition cl_idle :: "tcp_client \<Rightarrow> bool" where
  "cl_idle c \<longleftrightarrow> cl_alive c \<and> timers_inv [] (cl_loop c) \<and> timer_ids (cl_loop c) = [] \<and>
     el_pending (cl_loop c) = [] \<and> cl_conn c = None \<and> CliCallClose \<notin> set (cl_trace c) \<and>
     (\<forall>fd e. entry_of (cl_loop c) fd = Some e \<longrightarrow> fe_write_cb e \<noteq> Some (LoopClient CliWritable))"

lemma idle_retry: "cl_idle c \<Longrightarrow> cl_sock_fd c < 0 \<Longrightarrow> cl_inv (cl_retry now c)"
  using timers_inv_op [of "[]" "cl_loop c" "OpAddTimer now 1000 CliConnect False"]
  by (auto simp: cl_idle_def cl_inv_def cl_retry_def attempts_def timer_ids_def frame_simps simp del: map_of_eq_Some_iff)
    (simp_all add: add_timer_def Let_def)

lemma idle_handle_connect: "cl_idle c \<Longrightarrow> cl_inv (cl_handle_connect c)"
  by (auto simp: cl_idle_def cl_inv_def cl_handle_connect_def attempts_def Let_def simp del: map_of_eq_Some_iff)

lemma idle_close_sock: "cl_idle c \<Longrightarrow> cl_idle (cl_close_sock c) \<and> cl_sock_fd (cl_close_sock c) < 0"
  by (simp add: cl_idle_def cl_close_sock_def)

lemma idle_frame: "cl_idle c \<Longrightarrow> cl_idle (c\<lparr>cl_sock_fd := fd\<rparr>)"
  by (simp add: cl_idle_def)

lemma idle_post: "cl_idle c \<Longrightarrow> cl_sock_fd c < 0 \<Longrightarrow> cl_inv (c\<lparr>cl_loop := run_in_loop CliPostTimer (cl_loop c)\<rparr>)"
  using timers_inv_op [of "[]" "cl_loop c" "OpRunInLoop CliPostTimer"]
  by (auto simp: cl_idle_def cl_inv_def attempts_def timer_ids_def frame_simps simp del: map_of_eq_Some_iff)
    (simp_all add: run_in_loop_def wakeup_def push_task_def)

lemma idle_watch:
  "cl_idle c \<Longrightarrow> 0 \<le> cl_sock_fd c \<Longrightarrow>
    cl_inv (c\<lparr>cl_loop := add_fd (cl_sock_fd c) kEventWrite (LoopClient CliWritable) (cl_loop c)\<rparr>)"
  using timers_inv_op [of "[]" "cl_loop c" "OpAddFd (cl_sock_fd c) kEventWrite CliWritable"]
  by (auto simp: cl_idle_def cl_inv_def attempts_def timer_ids_def add_fd_eq Let_def AList.update_conv'
      kEventWrite_def simp del: map_of_eq_Some_iff split: if_splits)

lemma idle_connect:
  assumes "cl_idle c" "cl_sock_fd c < 0"
  shows "cl_inv (cl_connect env c)"
proof (cases "ev_connect env")
  case ConnectPending
  with idle_watch [OF idle_frame [OF assms(1), of "ev_socket env"]]
    idle_retry [OF idle_frame [OF assms(1), of "ev_socket env"]] show ?thesis
    by (auto simp: cl_connect_def Let_def idle_post assms)
next
  case ConnectedNow
  with idle_retry [OF idle_frame [OF assms(1), of "ev_socket env"]] show ?thesis
    by (auto simp: cl_connect_def Let_def idle_post idle_handle_connect idle_frame assms)
next
  case ConnectRefused
  with idle_retry [OF idle_frame [OF assms(1), of "ev_socket env"]]
    idle_close_sock [OF idle_frame [OF assms(1), of "ev_socket env"]] show ?thesis
    by (auto simp: cl_connect_def Let_def idle_post idle_retry assms)
qed

lemma timer_ids_add: "timer_ids (snd (add_timer now d CliConnect rep el)) = timer_ids el @ [el_next_timer_id el]"
  by (simp add: timer_ids_def add_timer_def Let_def)

lemma timer_ids_cancel: "timer_ids (cancel_timer i el) = filter (\<lambda>j. j \<noteq> i) (timer_ids el)"
  by (simp add: timer_ids_def cancel_timer_def filter_map comp_def conj_commute)

lemma inv_timer_idle:
  assumes "cl_inv c" "i \<in> set (timer_ids (cl_loop c))"
  shows "cl_idle (c\<lparr>cl_loop := cancel_timer i (cl_loop c)\<rparr>) \<and> cl_sock_fd c < 0"
proof -
  have "0 < length (timer_ids (cl_loop c))" using assms(2) by (cases "timer_ids (cl_loop c)") auto
  with assms(1) have "length (timer_ids (cl_loop c)) = 1" "cl_sock_fd c < 0" "cl_conn c = None"
    "filter (\<lambda>t. t = CliPostTimer) (el_pending (cl_loop c)) = []" "CliCallClose \<notin> set (cl_trace c)"
    by (cases "timer_ids (cl_loop c)"; auto simp: cl_inv_def attempts_def split: if_splits)+
  moreover have "timer_ids (cl_loop c) = [i]"
    using assms(2) calculation(1) by (auto simp: length_Suc_conv)
  moreover have "el_pending (cl_loop c) = []"
    using assms(1) calculation(4) by (cases "el_pending (cl_loop c)") (auto simp: cl_inv_def)
  moreover have "timers_inv [] (cancel_timer i (cl_loop c))"
    using assms(1) timers_inv_op [of "[]" "cl_loop c" "OpCancelTimer i"] by (simp add: cl_inv_def)
  ultimately show ?thesis
    using assms(1) timer_ids_cancel [of i "cl_loop c"]
    by (auto simp: cl_idle_def cl_inv_def frame_simps simp del: map_of_eq_Some_iff)
      (simp_all add: cancel_timer_def)
qed

lemma inv_task_idle:
  assumes "cl_inv c" "el_pending (cl_loop c) = CliPostTimer # ts"
  shows "cl_idle (c\<lparr>cl_loop := (cl_loop c)\<lparr>el_pending := ts\<rparr>\<rparr>) \<and> cl_sock_fd c < 0"
proof -
  from assms have *: "timer_ids (cl_loop c) = []" "cl_sock_fd c < 0" "cl_conn c = None" "CliCallClose \<notin> set (cl_trace c)"
    "filter (\<lambda>t. t = CliPostTimer) ts = []" "set ts \<subseteq> {CliPostTimer}"
    by (auto simp: cl_inv_def attempts_def split: if_splits)
  then have "ts = []" by (cases ts) auto
  with * assms show ?thesis
    by (auto simp: cl_idle_def cl_inv_def timer_ids_def timers_inv_def simp del: map_of_eq_Some_iff)
qed

lemma inv_writable_idle:
  assumes "cl_inv c" "entry_of (cl_loop c) fd = Some e" "fe_write_cb e = Some (LoopClient CliWritable)"
  shows "cl_idle (c\<lparr>cl_loop := del_fd fd (cl_loop c)\<rparr>)"
proof -
  have fd: "fd = cl_sock_fd c" "0 \<le> fd" using assms unfolding cl_inv_def by blast+
  from assms fd have *: "timer_ids (cl_loop c) = []" "cl_conn c = None" "CliCallClose \<notin> set (cl_trace c)"
    "filter (\<lambda>t. t = CliPostTimer) (el_pending (cl_loop c)) = []"
    by (auto simp: cl_inv_def attempts_def split: if_splits)
  then have "el_pending (cl_loop c) = []"
    using assms(1) by (cases "el_pending (cl_loop c)") (auto simp: cl_inv_def)
  with * fd assms(1) timers_inv_op [of "[]" "cl_loop c" "OpDelFd fd"] show ?thesis
    by (auto simp: cl_idle_def cl_inv_def del_fd_eq timer_ids_def AList.delete_conv'
        simp del: map_of_eq_Some_iff split: if_splits)
qed

lemma cl_inv_step:
  assumes "cl_inv c" "case ev of CliDoConnect env \<Rightarrow> False | CliDestroy \<Rightarrow> False | _ \<Rightarrow> True"
  shows "\<exists>c'. client_step ev c = Inr c' \<and> cl_inv c'"
proof (cases ev)
  case (CliTask now)
  show ?thesis
  proof (cases "el_pending (cl_loop c)")
    case (Cons t ts)
    with assms(1) have t: "el_pending (cl_loop c) = CliPostTimer # ts" by (simp add: cl_inv_def)
    from inv_task_idle [OF assms(1) this]
    have "cl_inv (cl_retry now (c\<lparr>cl_loop := (cl_loop c)\<lparr>el_pending := ts\<rparr>\<rparr>))" by (intro idle_retry) simp_all
    with CliTask t assms(1) show ?thesis by (simp add: cl_inv_def [of c])
  qed (use CliTask assms(1) in simp)
next
  case (CliTimer i env)
  show ?thesis
  proof (cases "i \<in> set (timer_ids (cl_loop c))")
    case True
    from inv_timer_idle [OF assms(1) this]
    have "cl_inv (cl_connect env (c\<lparr>cl_loop := cancel_timer i (cl_loop c)\<rparr>))" by (intro idle_connect) simp_all
    with CliTimer True assms(1) show ?thesis by (simp add: cl_inv_def [of c])
  qed (use CliTimer assms(1) in simp)
next
  case (CliFdWritable now fd err)
  show ?thesis
  proof (cases "\<exists>e. entry_of (cl_loop c) fd = Some e \<and> fe_write_cb e = Some (LoopClient CliWritable)")
    case True
    then obtain e where e: "entry_of (cl_loop c) fd = Some e" "fe_write_cb e = Some (LoopClient CliWritable)" by blast
    from inv_writable_idle [OF assms(1) e] have "cl_inv (cl_writable now fd err c)"
      by (auto simp: cl_writable_def Let_def idle_handle_connect idle_close_sock intro!: idle_retry)
    with CliFdWritable e assms(1) show ?thesis by (simp add: cl_inv_def [of c])
  qed (use CliFdWritable assms(1) in \<open>auto split: option.split\<close>)
next
  case CliConnClosed
  with assms(1) show ?thesis
    by (auto simp: cl_inv_def cl_handle_close_def attempts_def simp del: map_of_eq_Some_iff split: if_splits)
qed (use assms in auto)


definition env_refused :: connect_env where
  "env_refused = \<lparr>ev_now = 0, ev_resolved = True, ev_socket = 9, ev_connect = ConnectRefused\<rparr>"

definition env_pending :: connect_env where
  "env_pending = \<lparr>ev_now = 1000, ev_resolved = True, ev_socket = 9, ev_connect = ConnectPending\<rparr>"


text \<open>
  The attempt outlives the object: when the client is destroyed while it waits to connect again,
  as \<open>RtspSource::stop()\<close> does with a source whose upstream is down, its timer runs on the freed
  client a second later.
\<close>

theorem client_outlived_by_timer:
  assumes "ev_resolved env" and "ev_socket env < 0 \<or> ev_connect env = ConnectRefused"
  shows "client_run [CliDoConnect env, CliDestroy, CliTimer (el_next_timer_id el) env'] (tcp_client_new el host port) =
    Inl UseAfterFree"
proof -
  have "el_next_timer_id el \<in> set (timer_ids (cl_loop (cl_connect env (tcp_client_new el host port))))"
    using assms
    by (auto simp: cl_connect_def Let_def cl_retry_def cl_close_sock_def timer_ids_add tcp_client_new_def)
  then show ?thesis by (simp add: tcp_client_destroy_def)
qed

theorem client_outlived_by_timer_witness:
  "client_run [CliDoConnect env_refused, CliDestroy, CliTimer 1 env_pending]
    (tcp_client_new (event_loop_new 0 7) ''cam'' 554) = Inl UseAfterFree"
  using client_outlived_by_timer [of env_refused "event_loop_new 0 7" env_pending "''cam''" 554]
  by (simp add: env_refused_def event_loop_new_def add_fd_eq)

text \<open>
  The same happens to a client that is replaced while its connection lives, as the retry after a 404
  does: the connection is kept by its own loop, and its close callback belongs to the freed client.
\<close>

lemma client_outlived_by_connection:
  assumes "ev_resolved env" and "0 \<le> ev_socket env" and "ev_connect env = ConnectedNow"
  shows "client_run [CliDoConnect env, CliDestroy, CliConnClosed] (tcp_client_new el host port) = Inl UseAfterFree"
  using assms by (simp add: cl_connect_def cl_handle_connect_def tcp_client_destroy_def Let_def)

end
