(* ===== verification/Http_Server.thy ===== *)
theory Http_Server
  imports Block_Parser
begin

text \<open>
  \<open>HttpServer\<close> of \<open>src/src/http_server.h\<close> and \<open>http_server.cpp\<close>: requests and responses, the
  parser, the routing and the message loop. A handler is a function on the response and the
  state of the application; it returns both or the error it ends in. Of the connection the server
  uses \<open>send\<close>, which does nothing once \<open>shutdown\<close> has been called.
\<close>

record http_request =
  hreq_method :: bytes
  hreq_path :: bytes
  hreq_version :: bytes
  hreq_headers :: headers
  hreq_body :: bytes

record http_response =
  hresp_status_code :: int
  hresp_reason :: bytes
  hresp_headers :: headers
  hresp_body :: bytes

definition http_request_new :: http_request where
  "http_request_new =
     \<lparr>hreq_method = [], hreq_path = [], hreq_version = [], hreq_headers = [], hreq_body = []\<rparr>"

definition http_response_new :: http_response where
  "http_response_new =
     \<lparr>hresp_status_code = 200, hresp_reason = ''OK'', hresp_headers = [], hresp_body = []\<rparr>"

definition http_header :: "bytes \<Rightarrow> bytes \<Rightarrow> http_request \<Rightarrow> bytes" where
  "http_header key default_val req =
     (case map_of (hreq_headers req) key of None \<Rightarrow> default_val | Some v \<Rightarrow> v)"

definition set_json :: "bytes \<Rightarrow> http_response \<Rightarrow> http_response" where
  "set_json json resp =
     resp\<lparr>hresp_headers := AList.update ''Content-Type'' ''application/json; charset=utf-8'' (hresp_headers resp),
          hresp_body := json\<rparr>"

definition set_status :: "int \<Rightarrow> bytes \<Rightarrow> http_response \<Rightarrow> http_response" where
  "set_status code r resp = resp\<lparr>hresp_status_code := code, hresp_reason := r\<rparr>"

definition http_serialize :: "http_response \<Rightarrow> bytes" where
  "http_serialize resp =
     (let has_content_length = (map_of (hresp_headers resp) ''Content-Length'' \<noteq> None)
      in ''HTTP/1.1 '' @ dec_int (hresp_status_code resp) @ '' '' @ hresp_reason resp @ CRLF @
         (if \<not> has_content_length \<and> hresp_body resp \<noteq> []
          then ''Content-Length: '' @ dec_nat (length (hresp_body resp)) @ CRLF else []) @
         (if map_of (hresp_headers resp) ''Connection'' = None then ''Connection: close'' @ CRLF else []) @
         concat (map (\<lambda>(key, val). key @ '': '' @ val @ CRLF) (hresp_headers resp)) @
         CRLF @
         (if hresp_body resp \<noteq> [] then hresp_body resp else []))"

section \<open>Parsing\<close>

definition http_request_line :: "bytes \<Rightarrow> http_request \<Rightarrow> bool \<times> http_request" where
  "http_request_line requestLine req =
     (case find_char requestLine SPACE 0 of
        None \<Rightarrow> (False, req)
      | Some sp1 \<Rightarrow>
          (case find_char requestLine SPACE (sp1 + 1) of
             None \<Rightarrow> (False, req)
           | Some sp2 \<Rightarrow>
               (True, req\<lparr>hreq_method := substr requestLine 0 sp1,
                 hreq_path := substr requestLine (sp1 + 1) (sp2 - sp1 - 1),
                 hreq_version := substr_from requestLine (sp2 + 1)\<rparr>)))"

definition http_header_line :: "bytes \<Rightarrow> http_request \<Rightarrow> http_request" where
  "http_header_line line req =
     (case split_header line of
        None \<Rightarrow> req
      | Some (key, val) \<Rightarrow> req\<lparr>hreq_headers := AList.update key val (hreq_headers req)\<rparr>)"

definition http_put_body :: "bytes \<Rightarrow> http_request \<Rightarrow> http_request" where
  "http_put_body body req = req\<lparr>hreq_body := body\<rparr>"

definition http_parse :: "bytes \<Rightarrow> http_request \<Rightarrow> cpp_error + (bool \<times> http_request \<times> nat)" where
  "http_parse bs req =
     parse_block http_request_line http_header_line (take_body hreq_headers http_put_body) bs req"

text \<open>One turn of \<open>onMessage\<close>.\<close>

definition http_next :: "bytes \<Rightarrow> http_request scan" where
  "http_next bs = block_scan (http_parse bs http_request_new)"

interpretation httpf: framer http_next "2 ^ 31"
  unfolding http_next_def http_parse_def by (rule block_scan_framer)

section \<open>Routing\<close>

type_synonym 's http_handler = "http_request \<Rightarrow> http_response \<times> 's \<Rightarrow> cpp_error + http_response \<times> 's"

record 's http_route =
  route_method :: bytes
  route_path :: bytes
  route_handler :: "'s http_handler"

definition add_route ::
  "bytes \<Rightarrow> bytes \<Rightarrow> 's http_handler \<Rightarrow> 's http_route list \<Rightarrow> 's http_route list" where
  "add_route meth path handler routes =
     routes @ [\<lparr>route_method = meth, route_path = path, route_handler = handler\<rparr>]"

text \<open>An exact match, or a prefix that ends at a slash. No route has an empty path.\<close>

definition route_matches :: "'s http_route \<Rightarrow> http_request \<Rightarrow> bool" where
  "route_matches rt req \<longleftrightarrow>
     route_method rt = hreq_method req \<and>
     (route_path rt = hreq_path req \<or>
      length (hreq_path req) > length (route_path rt) \<and>
      take (length (route_path rt)) (hreq_path req) = route_path rt \<and>
      (last (route_path rt) = CHR ''/'' \<or> hreq_path req ! length (route_path rt) = CHR ''/''))"

fun find_route :: "'s http_route list \<Rightarrow> http_request \<Rightarrow> 's http_route option" where
  "find_route [] req = None"
| "find_route (rt # rts) req = (if route_matches rt req then Some rt else find_route rts req)"

definition not_found :: "http_response \<Rightarrow> http_response" where
  "not_found resp = set_json ''{\"error\":\"not found\"}'' (set_status 404 ''Not Found'' resp)"

definition run_handler ::
  "'s http_route list \<Rightarrow> 's http_handler option \<Rightarrow> http_request \<Rightarrow> 's \<Rightarrow> cpp_error + http_response \<times> 's" where
  "run_handler routes default_handler req s =
     (case find_route routes req of
        Some rt \<Rightarrow> route_handler rt req (http_response_new, s)
      | None \<Rightarrow>
          (case default_handler of
             Some h \<Rightarrow> h req (http_response_new, s)
           | None \<Rightarrow> Inr (not_found http_response_new, s)))"

section \<open>Connections\<close>

text \<open>What the server sees of a connection: whether it still sends, and what was done to it.\<close>

datatype http_effect = HttpSend bytes | HttpShutdown

record http_conn =
  hc_connected :: bool
  hc_out :: "http_effect list"

definition http_conn_send :: "bytes \<Rightarrow> http_conn \<Rightarrow> http_conn" where
  "http_conn_send d c = (if hc_connected c then c\<lparr>hc_out := hc_out c @ [HttpSend d]\<rparr> else c)"

definition http_conn_shutdown :: "http_conn \<Rightarrow> http_conn" where
  "http_conn_shutdown c = c\<lparr>hc_connected := False, hc_out := hc_out c @ [HttpShutdown]\<rparr>"

definition http_dispatch ::
  "'s http_route list \<Rightarrow> 's http_handler option \<Rightarrow> http_request \<Rightarrow> http_conn \<times> 's \<Rightarrow>
   cpp_error + http_conn \<times> 's" where
  "http_dispatch routes default_handler req cs =
     (case run_handler routes default_handler req (snd cs) of
        Inl e \<Rightarrow> Inl e
      | Inr (resp, s) \<Rightarrow>
          Inr (http_conn_shutdown (http_conn_send (http_serialize resp) (fst cs)), s))"

definition http_on_message ::
  "'s http_route list \<Rightarrow> 's http_handler option \<Rightarrow> byte_buffer \<Rightarrow> http_conn \<times> 's \<Rightarrow>
   (cpp_error + byte_buffer \<times> http_conn \<times> 's) option" where
  "http_on_message routes default_handler b cs = message_loop http_next (http_dispatch routes default_handler) b cs"

section \<open>Requests on the wire\<close>

definition http_line :: "http_request \<Rightarrow> bytes" where
  "http_line req = hreq_method req @ '' '' @ hreq_path req @ '' '' @ hreq_version req"

text \<open>What a client writes: the headers of the record, \<open>Content-Length\<close> among them.\<close>

definition print_request :: "http_request \<Rightarrow> bytes" where
  "print_request req = header_block (http_line req # map header_text (hreq_headers req)) @ hreq_body req"

definition request_ok :: "http_request \<Rightarrow> bool" where
  "request_ok req \<longleftrightarrow>
     SPACE \<notin> set (hreq_method req) \<and> SPACE \<notin> set (hreq_path req) \<and>
     LF \<notin> set (http_line req) \<and>
     distinct (map fst (hreq_headers req)) \<and> list_all header_ok (hreq_headers req) \<and>
     content_length (hreq_headers req) = length (hreq_body req) \<and>
     length (print_request req) < 2 ^ 31"

lemma fold_http_headers:
  "list_all header_ok hs \<Longrightarrow> fold http_header_line (map header_text hs) req =
    req\<lparr>hreq_headers := fold (\<lambda>kv. AList.update (fst kv) (snd kv)) hs (hreq_headers req)\<rparr>"
  by (induction hs arbitrary: req) (auto simp: http_header_line_def)

lemma http_request_line_printed:
  assumes "SPACE \<notin> set (hreq_method req)" "SPACE \<notin> set (hreq_path req)"
  shows "http_request_line (http_line req) r =
    (True, r\<lparr>hreq_method := hreq_method req, hreq_path := hreq_path req, hreq_version := hreq_version req\<rparr>)"
  using assms find_char_append_from [of SPACE "hreq_path req" "length (hreq_method req) + 1"
      "hreq_method req @ [SPACE]" "hreq_version req"]
  by (simp add: http_request_line_def http_line_def search_simps substr_def del: take_append)

lemma http_next_printed:
  assumes "request_ok req"
  shows "http_next (print_request req @ rest) = Item req (length (print_request req))"
proof -
  let ?ls = "map header_text (hreq_headers req)"
  let ?block = "header_block (http_line req # ?ls)"
  let ?r = "http_request_new\<lparr>hreq_method := hreq_method req, hreq_path := hreq_path req,
      hreq_version := hreq_version req\<rparr>"
  have ok: "list_all header_ok (hreq_headers req)" "distinct (map fst (hreq_headers req))"
    "content_length (hreq_headers req) = length (hreq_body req)"
    using assms by (simp_all add: request_ok_def)
  have "http_line req \<noteq> []" by (simp add: http_line_def)
  then have lines: "\<forall>l \<in> set (http_line req # ?ls). line_ok l"
    using assms by (auto simp: request_ok_def list_all_iff line_ok_def [of "http_line req"])
  have len: "length ?block + length (hreq_body req) < 2 ^ 31"
    using assms by (simp add: request_ok_def print_request_def del: header_block_simps)
  have first: "http_request_line (http_line req) http_request_new = (True, ?r)"
    using assms by (intro http_request_line_printed) (simp_all add: request_ok_def)
  have "fold http_header_line ?ls ?r = ?r\<lparr>hreq_headers := hreq_headers req\<rparr>"
    using fold_update_new [of "[]" "hreq_headers req"] ok
    by (simp add: fold_http_headers http_request_new_def)
  then have "http_parse (print_request req @ rest) http_request_new =
      take_body hreq_headers http_put_body (length ?block) (?block @ hreq_body req @ rest)
        (?r\<lparr>hreq_headers := hreq_headers req\<rparr>)"
    using parse_block_printed [of "http_line req" ?ls http_request_line http_request_new ?r http_header_line
        "take_body hreq_headers http_put_body" "hreq_body req @ rest", OF lines first] len
    unfolding http_parse_def print_request_def append_assoc by simp
  also have "\<dots> = Inr (True, req, length ?block + length (hreq_body req))"
    using ok(3) len
    by (subst take_body_complete) (auto simp: http_put_body_def http_request_new_def)
  finally show ?thesis by (simp add: http_next_def print_request_def)
qed

section \<open>Serving a connection\<close>

definition http_conn_new :: http_conn where
  "http_conn_new = \<lparr>hc_connected = True, hc_out = []\<rparr>"

text \<open>The handlers of a list of requests, one after the other, with their responses.\<close>

fun serve_all ::
  "'s http_route list \<Rightarrow> 's http_handler option \<Rightarrow> http_request list \<Rightarrow> 's \<Rightarrow>
   cpp_error + http_response list \<times> 's" where
  "serve_all routes dh [] s = Inr ([], s)"
| "serve_all routes dh (req # reqs) s =
     (case run_handler routes dh req s of
        Inl e \<Rightarrow> Inl e
      | Inr (resp, s1) \<Rightarrow>
          (case serve_all routes dh reqs s1 of Inl e \<Rightarrow> Inl e | Inr (resps, s2) \<Rightarrow> Inr (resp # resps, s2)))"

lemma dispatch_closed:
  "\<not> hc_connected c \<Longrightarrow> serve_all routes dh reqs s = Inr (resps, s') \<Longrightarrow>
    act_all (http_dispatch routes dh) reqs (c, s) =
      Inr (c\<lparr>hc_out := hc_out c @ replicate (length reqs) HttpShutdown\<rparr>, s')"
proof (induction reqs arbitrary: c s resps)
  case (Cons req reqs)
  obtain resp s1 resps1 where r: "run_handler routes dh req s = Inr (resp, s1)"
    "serve_all routes dh reqs s1 = Inr (resps1, s')"
    using Cons.prems(2) by (auto split: sum.splits)
  have "http_dispatch routes dh req (c, s) = Inr (http_conn_shutdown c, s1)"
    using r(1) Cons.prems(1) by (simp add: http_dispatch_def http_conn_send_def)
  with Cons.IH [of "http_conn_shutdown c" s1 resps1] r(2) Cons.prems(1) show ?case
    by (simp add: http_conn_shutdown_def)
qed simp

lemma http_served:
  assumes "list_all request_ok reqs" and "reqs \<noteq> []"
    and "concat chunks = concat (map print_request reqs)" and "chunks \<noteq> []"
    and "length (concat chunks) < 2 ^ 31"
    and "serve_all routes dh reqs s = Inr (resps, s')"
  shows "\<exists>b. feed_chunks http_next (http_dispatch routes dh) chunks (byte_buffer_new cap) (http_conn_new, s) =
      Some (Inr (b, \<lparr>hc_connected = False,
        hc_out = HttpSend (http_serialize (hd resps)) # replicate (length reqs) HttpShutdown\<rparr>, s')) \<and>
    bb_contents b = []"
proof -
  obtain req rs where reqs: "reqs = req # rs" using assms(2) by (cases reqs) auto
  obtain resp s1 resps1 where r: "run_handler routes dh req s = Inr (resp, s1)"
    "serve_all routes dh rs s1 = Inr (resps1, s')" "resps = resp # resps1"
    using assms(6) reqs by (auto split: sum.splits)
  let ?c = "\<lparr>hc_connected = False, hc_out = [HttpSend (http_serialize resp), HttpShutdown]\<rparr>"
  have "http_dispatch routes dh req (http_conn_new, s) = Inr (?c, s1)"
    using r(1) by (simp add: http_dispatch_def http_conn_new_def http_conn_send_def http_conn_shutdown_def)
  with dispatch_closed [of ?c, OF _ r(2)] r(3) reqs have
    act: "act_all (http_dispatch routes dh) (map (\<lambda>x. x) reqs) (http_conn_new, s) =
      Inr (\<lparr>hc_connected = False,
        hc_out = HttpSend (http_serialize (hd resps)) # replicate (length reqs) HttpShutdown\<rparr>, s')"
    by simp
  show ?thesis
  proof (rule httpf.feed_printed [where pr = print_request and rcv = "\<lambda>x. x", OF _ assms(3-5) act])
    fix x rest assume "x \<in> set reqs"
    with assms(1) have "request_ok x" by (auto simp: list_all_iff)
    then show "http_next (print_request x @ rest) = Item x (length (print_request x)) \<and> print_request x \<noteq> []"
      by (simp add: http_next_printed) (simp add: print_request_def)
  qed
qed

text \<open>
  A connection to the HTTP API carries one answer: whatever list of requests a client writes
  and however TCP cuts it, the server returns after each chunk, runs the handler of every request
  in order, and leaves an empty buffer; but it sends the response to the first request only,
  because the write side is shut down with it. The handlers of the later requests have had their
  effect when their responses are dropped.
\<close>

theorem http_serves_all_answers_first:
  assumes "list_all request_ok reqs" and "reqs \<noteq> []"
    and "concat chunks = concat (map print_request reqs)" and "chunks \<noteq> []"
    and "length (concat chunks) < 2 ^ 31"
    and "serve_all routes dh reqs s = Inr (resps, s')"
  shows "\<exists>b. feed_chunks http_next (http_dispatch routes dh) chunks (byte_buffer_new cap) (http_conn_new, s) =
      Some (Inr (b, \<lparr>hc_connected = False,
        hc_out = HttpSend (http_serialize (hd resps)) # replicate (length reqs) HttpShutdown\<rparr>, s')) \<and>
    bb_contents b = []"
  using assms by (rule http_served)

definition demo_get :: http_request where
  "demo_get = http_request_new\<lparr>hreq_method := ''GET'', hreq_path := ''/api/stats'', hreq_version := ''HTTP/1.1''\<rparr>"

definition demo_post :: http_request where
  "demo_post = \<lparr>hreq_method = ''POST'', hreq_path = ''/x'', hreq_version = ''HTTP/1.1'',
     hreq_headers = [(''Host'', ''relay:18080''), (''Content-Length'', ''2'')], hreq_body = ''{}''\<rparr>"

text \<open>A handler for the witnesses: it counts the requests.\<close>

definition count_handler :: "nat http_handler" where
  "count_handler req rs = Inr (set_json (dec_nat (snd rs)) (fst rs), Suc (snd rs))"

theorem http_serves_all_answers_first_witness:
  "let wire = concat (map print_request [demo_get, demo_post])
   in \<exists>b. feed_chunks http_next (http_dispatch (add_route ''GET'' ''/api'' count_handler []) (Some count_handler))
       [take 5 wire, drop 5 wire] (byte_buffer_new 16) (http_conn_new, 0) =
     Some (Inr (b, \<lparr>hc_connected = False,
       hc_out = [HttpSend (http_serialize (set_json ''0'' http_response_new)), HttpShutdown, HttpShutdown]\<rparr>, 2))"
proof -
  let ?wire = "concat (map print_request [demo_get, demo_post])"
  let ?routes = "add_route ''GET'' ''/api'' count_handler []"
  have "list_all request_ok [demo_get, demo_post]" by code_simp
  moreover have "concat [take 5 ?wire, drop 5 ?wire] = ?wire"
    by (simp only: concat.simps append_Nil2 append_take_drop_id)
  moreover have "length (concat [take 5 ?wire, drop 5 ?wire]) < 2 ^ 31" by code_simp
  moreover have "serve_all ?routes (Some count_handler) [demo_get, demo_post] 0 =
      Inr ([set_json ''0'' http_response_new, set_json ''1'' http_response_new], 2)" by code_simp
  ultimately show ?thesis
    using http_serves_all_answers_first [of "[demo_get, demo_post]" "[take 5 ?wire, drop 5 ?wire]" ?routes
        "Some count_handler" 0 _ 2 16]
    unfolding Let_def by fastforce
qed

section \<open>What a client reads\<close>

text \<open>
  A client that knows nothing of this server: it reads a status line, header lines in order and
  a body as long as \<open>Content-Length\<close> says.
\<close>

record http_reply =
  reply_status :: bytes
  reply_headers :: headers
  reply_body :: bytes

definition client_status :: "bytes \<Rightarrow> http_reply \<Rightarrow> bool \<times> http_reply" where
  "client_status l r = (True, r\<lparr>reply_status := l\<rparr>)"

definition client_header :: "bytes \<Rightarrow> http_reply \<Rightarrow> http_reply" where
  "client_header l r =
     (case split_header l of None \<Rightarrow> r | Some kv \<Rightarrow> r\<lparr>reply_headers := reply_headers r @ [kv]\<rparr>)"

definition client_parse :: "bytes \<Rightarrow> cpp_error + (bool \<times> http_reply \<times> nat)" where
  "client_parse bs =
     parse_block client_status client_header (take_body reply_headers (\<lambda>b r. r\<lparr>reply_body := b\<rparr>))
       bs \<lparr>reply_status = [], reply_headers = [], reply_body = []\<rparr>"

lemma fold_client_headers:
  "list_all header_ok hs \<Longrightarrow> fold client_header (map header_text hs) r = r\<lparr>reply_headers := reply_headers r @ hs\<rparr>"
  by (induction hs arbitrary: r) (simp_all add: client_header_def)

definition response_lines :: "http_response \<Rightarrow> headers" where
  "response_lines resp =
     (if hresp_body resp \<noteq> [] then [(''Content-Length'', dec_nat (length (hresp_body resp)))] else []) @
     (''Connection'', ''close'') # hresp_headers resp"

definition response_ok :: "http_response \<Rightarrow> bool" where
  "response_ok resp \<longleftrightarrow> LF \<notin> set (hresp_reason resp) \<and> list_all header_ok (hresp_headers resp) \<and>
     map_of (hresp_headers resp) ''Content-Length'' = None \<and>
     map_of (hresp_headers resp) ''Connection'' = None \<and> length (http_serialize resp) < 2 ^ 31"

lemma http_serialize_block:
  assumes "response_ok resp"
  shows "http_serialize resp =
    header_block ((''HTTP/1.1 '' @ dec_int (hresp_status_code resp) @ '' '' @ hresp_reason resp) #
      map header_text (response_lines resp)) @ hresp_body resp"
proof -
  have "concat (map (\<lambda>(key, val). key @ '': '' @ val @ CRLF) hs) = concat (map (\<lambda>l. l @ CRLF) (map header_text hs))" for hs
    by (induction hs) (auto simp: header_text_def)
  with assms show ?thesis
    by (simp add: http_serialize_def response_ok_def response_lines_def header_block_def header_text_def Let_def)
qed

text \<open>
  Every response can be read by any HTTP client: whatever follows on the connection, the
  client finds the status line, the headers the handler set, \<open>Connection: close\<close>, and, from the
  \<open>Content-Length\<close> the server adds, exactly the body.
\<close>

theorem http_response_readable:
  assumes "response_ok resp"
  shows "client_parse (http_serialize resp @ rest) = Inr (True,
    \<lparr>reply_status = ''HTTP/1.1 '' @ dec_int (hresp_status_code resp) @ '' '' @ hresp_reason resp,
     reply_headers = response_lines resp, reply_body = hresp_body resp\<rparr>, length (http_serialize resp))"
proof -
  let ?line = "''HTTP/1.1 '' @ dec_int (hresp_status_code resp) @ '' '' @ hresp_reason resp"
  let ?hs = "response_lines resp"
  let ?block = "header_block (?line # map header_text ?hs)"
  have "LF \<notin> set (dec_nat n) \<and> (dec_nat n = [] \<or> hd (dec_nat n) \<noteq> SPACE)" for n by simp
  then have ok: "list_all header_ok ?hs"
    using assms by (auto simp: response_lines_def response_ok_def header_ok_def)
  have line: "line_ok ?line" using assms by (simp add: line_ok_def response_ok_def)
  have lines: "\<forall>l \<in> set (?line # map header_text ?hs). line_ok l"
    using ok line by (auto simp: list_all_iff)
  have len: "length ?block + length (hresp_body resp) < 2 ^ 31"
    using assms http_serialize_block [OF assms] by (simp add: response_ok_def del: header_block_simps)
  have "length (hresp_body resp) < 2 ^ 63" using len by simp
  then have cl: "content_length ?hs = length (hresp_body resp)"
    using assms by (auto simp: content_length_def response_lines_def response_ok_def size_of_atoll_dec)
  have "client_parse (http_serialize resp @ rest) =
      take_body reply_headers (\<lambda>b r. r\<lparr>reply_body := b\<rparr>) (length ?block) (?block @ hresp_body resp @ rest)
        \<lparr>reply_status = ?line, reply_headers = ?hs, reply_body = []\<rparr>"
    using parse_block_printed [of ?line "map header_text ?hs" client_status
        "\<lparr>reply_status = [], reply_headers = [], reply_body = []\<rparr>" _ client_header
        "take_body reply_headers (\<lambda>b r. r\<lparr>reply_body := b\<rparr>)" "hresp_body resp @ rest",
        OF lines client_status_def add_lessD1 [OF len]]
    unfolding client_parse_def http_serialize_block [OF assms] append_assoc fold_client_headers [OF ok]
    by (simp only: http_reply.update_convs http_reply.select_convs append_Nil)
  also have "\<dots> = Inr (True, \<lparr>reply_status = ?line, reply_headers = ?hs, reply_body = hresp_body resp\<rparr>,
      length ?block + length (hresp_body resp))"
    using cl len by (subst take_body_complete) simp_all
  finally show ?thesis by (simp add: http_serialize_block [OF assms])
qed

theorem http_response_readable_witness:
  "client_parse (http_serialize (not_found http_response_new) @ ''x'') = Inr (True,
    \<lparr>reply_status = ''HTTP/1.1 404 Not Found'',
     reply_headers = [(''Content-Length'', ''21''), (''Connection'', ''close''),
       (''Content-Type'', ''application/json; charset=utf-8'')],
     reply_body = ''{\"error\":\"not found\"}''\<rparr>, length (http_serialize (not_found http_response_new)))"
proof -
  have "response_ok (not_found http_response_new)" by code_simp
  note http_response_readable [OF this, of "''x''"]
  moreover have "''HTTP/1.1 '' @ dec_int (hresp_status_code (not_found http_response_new)) @ '' '' @
      hresp_reason (not_found http_response_new) = ''HTTP/1.1 404 Not Found''"
    "response_lines (not_found http_response_new) = [(''Content-Length'', ''21''), (''Connection'', ''close''),
       (''Content-Type'', ''application/json; charset=utf-8'')]"
    "hresp_body (not_found http_response_new) = ''{\"error\":\"not found\"}''"
    by code_simp+
  ultimately show ?thesis by simp
qed

text \<open>
  One request crashes the API as well: a request whose last header declares the content
  length \<open>-k\<close>, for \<open>k\<close> up to the size of its header block, leaves the parser by
  \<open>std::length_error\<close>.
\<close>

theorem http_negative_content_length:
  fixes req k rest
  defines "block \<equiv> header_block (http_line req #
    map header_text (hreq_headers req @ [(''Content-Length'', CHR ''-'' # dec_nat k)]))"
  assumes "request_ok req" and "map_of (hreq_headers req) ''Content-Length'' = None"
    and "0 < k" and "k \<le> length block" and "length block < 2 ^ 31"
  shows "http_next (block @ rest) = Fail LengthError"
proof -
  let ?hs = "hreq_headers req @ [(''Content-Length'', CHR ''-'' # dec_nat k)]"
  have ok: "list_all header_ok ?hs" "distinct (map fst ?hs)"
    using assms(2,3) by (auto simp: request_ok_def header_ok_def map_of_eq_None_iff)
  have "http_line req \<noteq> []" by (simp add: http_line_def)
  then have lines: "\<forall>l \<in> set (http_line req # map header_text ?hs). line_ok l"
    using ok(1) assms(2) by (auto simp: request_ok_def list_all_iff line_ok_def [of "http_line req"])
  let ?r = "http_request_new\<lparr>hreq_method := hreq_method req, hreq_path := hreq_path req,
      hreq_version := hreq_version req\<rparr>"
  have first: "http_request_line (http_line req) http_request_new = (True, ?r)"
    using assms(2) by (intro http_request_line_printed) (simp_all add: request_ok_def)
  have folded: "fold http_header_line (map header_text ?hs) ?r = ?r\<lparr>hreq_headers := ?hs\<rparr>"
    unfolding fold_http_headers [OF ok(1)] using fold_update_new [of "[]" ?hs] ok(2)
    by (simp add: http_request_new_def)
  have "http_parse (block @ rest) http_request_new =
      take_body hreq_headers http_put_body (length block) (block @ rest) (?r\<lparr>hreq_headers := ?hs\<rparr>)"
    unfolding http_parse_def block_def folded [symmetric]
    using parse_block_printed [of "http_line req" "map header_text ?hs" http_request_line http_request_new ?r
        http_header_line "take_body hreq_headers http_put_body" rest, OF lines first] assms(6)
    by (simp only: block_def)
  also have "\<dots> = Inl LengthError"
    using assms(3-6) atoll_neg_dec [of k]
    by (intro take_body_negative) (simp_all add: map_add_def)
  finally show ?thesis by (simp add: http_next_def)
qed

theorem http_negative_content_length_witness:
  "http_next (''GET /api/stats HTTP/1.1'' @ CRLF @ ''Content-Length: -1'' @ CRLF @ CRLF) = Fail LengthError"
proof -
  have "http_next (header_block (http_line demo_get #
      map header_text (hreq_headers demo_get @ [(''Content-Length'', CHR ''-'' # dec_nat 1)])) @ []) =
      Fail LengthError"
    by (rule http_negative_content_length; code_simp)
  moreover have "header_block (http_line demo_get #
      map header_text (hreq_headers demo_get @ [(''Content-Length'', CHR ''-'' # dec_nat 1)])) @ [] =
      ''GET /api/stats HTTP/1.1'' @ CRLF @ ''Content-Length: -1'' @ CRLF @ CRLF"
    by code_simp
  ultimately show ?thesis by simp
qed

end
