(* ===== verification/Receive_Loops.thy ===== *)
theory Receive_Loops
  imports Rtsp_Session Http_Server
begin

text \<open>
  The three receive loops side by side: \<open>RtspSession::handleRtspMessage\<close>,
  \<open>RtspSource::handleMessage\<close> and \<open>HttpServer::onMessage\<close> on the input buffer of their
  connections. The two scanners are instances of \<open>framer\<close>; its facts give termination, the
  equivalence with a reference that cuts the whole stream first and acts afterwards, and the
  fate of a connection whose peer sends a line that is not understood.
\<close>

section \<open>The loops return\<close>

text \<open>
  C11. Every receive loop ends: on any well-formed input buffer, whatever bytes it holds and
  whatever the handlers do, the RTSP loop of a session, the one of a source and the loop of the
  HTTP server return. They end with the error of a handler or of the parser, or with a
  well-formed buffer that keeps the end of the input and holds no complete frame: nothing that
  has arrived completely waits for more bytes.
\<close>

theorem receive_loops_return:
  assumes "bb_inv b"
  shows "returned_idle rtsp_next_frame b (handle_rtsp_message b e) \<and>
    returned_idle rtsp_next_frame b (source_handle_message b r) \<and>
    returned_idle http_next b (http_on_message routes dh b cs)"
  using rtspf.loop_idle [OF assms, of session_on_frame e] rtspf.loop_idle [OF assms, of source_on_frame r]
    httpf.loop_idle [OF assms, of "http_dispatch routes dh" cs]
  by (simp add: handle_rtsp_message_def source_handle_message_def http_on_message_def)

theorem receive_loops_return_witness:
  "returned_idle rtsp_next_frame (bb_append (byte_buffer_new 8) ''$$$'')
      (handle_rtsp_message (bb_append (byte_buffer_new 8) ''$$$'') demo_session) \<and>
    returned_idle http_next (bb_append (byte_buffer_new 8) ''$$$'')
      (http_on_message ([] :: unit http_route list) None (bb_append (byte_buffer_new 8) ''$$$'') (http_conn_new, ()))"
  using receive_loops_return [OF bb_inv_append [OF bb_inv_new, of 8 "''$$$''"], of demo_session _ "[] :: unit http_route list" None
      "(http_conn_new, ())"]
  by blast

section \<open>Chunks do not matter\<close>

text \<open>What the three loops do with the bytes TCP delivers, as a function of the whole stream.\<close>

text \<open>
  C12. The receive loops are equivalent to their reference: feeding any byte stream (below
  2 GiB, not only what a well-behaved peer prints) chunk by chunk to the loop of a session, of a
  source or of the HTTP server has the outcome of cutting the whole stream into frames first and
  acting on them one after the other. So two ways TCP may cut the same bytes never differ: in
  the responses, in the state, in the bytes left over, or in the error.
\<close>

theorem receive_loops_equal_reference:
  assumes "chunks \<noteq> []" and "length (concat chunks) < 2 ^ 31"
  shows "map_option forget_layout (feed_chunks rtsp_next_frame session_on_frame chunks (byte_buffer_new cap) e) =
      Some (act_on_cut session_on_frame (cut_stream rtsp_next_frame (concat chunks)) e) \<and>
    map_option forget_layout (feed_chunks rtsp_next_frame source_on_frame chunks (byte_buffer_new cap) r) =
      Some (act_on_cut source_on_frame (cut_stream rtsp_next_frame (concat chunks)) r) \<and>
    map_option forget_layout (feed_chunks http_next (http_dispatch routes dh) chunks (byte_buffer_new cap) cs) =
      Some (act_on_cut (http_dispatch routes dh) (cut_stream http_next (concat chunks)) cs)"
  using rtspf.feed_chunks_cut [OF bb_inv_new, of chunks cap session_on_frame e]
    rtspf.feed_chunks_cut [OF bb_inv_new, of chunks cap source_on_frame r]
    httpf.feed_chunks_cut [OF bb_inv_new, of chunks cap "http_dispatch routes dh" cs] assms
  by simp

theorem receive_loops_equal_reference_witness:
  "map_option forget_layout (feed_chunks rtsp_next_frame session_on_frame [''$'', [CHR 0x00, CHR 0x00], [CHR 0x01, CHR ''x'', CHR ''y'']]
      (byte_buffer_new 8) demo_session) = Some (Inr (''y'', demo_session))"
proof -
  have "map_option forget_layout (feed_chunks rtsp_next_frame session_on_frame
      [''$'', [CHR 0x00, CHR 0x00], [CHR 0x01, CHR ''x'', CHR ''y'']] (byte_buffer_new 8) demo_session) =
    Some (act_on_cut session_on_frame (cut_stream rtsp_next_frame
      (concat [''$'', [CHR 0x00, CHR 0x00], [CHR 0x01, CHR ''x'', CHR ''y'']])) demo_session)"
    using receive_loops_equal_reference [of "[''$'', [CHR 0x00, CHR 0x00], [CHR 0x01, CHR ''x'', CHR ''y'']]"
        8 demo_session _ "[] :: unit http_route list" None "(http_conn_new, ())"]
    by simp
  also have "act_on_cut session_on_frame (cut_stream rtsp_next_frame
      (concat [''$'', [CHR 0x00, CHR 0x00], [CHR 0x01, CHR ''x'', CHR ''y'']])) demo_session = Inr (''y'', demo_session)"
    by code_simp
  finally show ?thesis .
qed

section \<open>Lines that are not understood\<close>

text \<open>A first line with fewer than two spaces, which neither parser accepts.\<close>

definition short_line :: "bytes \<Rightarrow> bool" where
  "short_line l \<longleftrightarrow> length (filter (\<lambda>c. c = SPACE) l) < 2"

lemma short_line_unread:
  assumes "short_line l"
  obtains "find_char l SPACE 0 = None"
  | sp1 where "find_char l SPACE 0 = Some sp1" "find_char l SPACE (sp1 + 1) = None"
proof (cases "SPACE \<in> set l")
  case True
  then obtain xs ys where l: "l = xs @ SPACE # ys" "SPACE \<notin> set xs" by (meson split_list_first)
  have "filter (\<lambda>c. c = SPACE) ys = []" using assms l(1) by (auto simp: short_line_def)
  then have "SPACE \<notin> set ys" by (auto simp: filter_empty_conv)
  with l have "find_char l SPACE 0 = Some (length xs)" "find_char l SPACE (length xs + 1) = None"
    by (simp_all add: search_simps find_char_after)
  with that(2) show thesis by blast
qed (simp add: find_char_None that(1))

lemma short_line_rejected:
  assumes "short_line l"
  shows "\<exists>m. parse_first_line l rtsp_message_new = (False, m)"
    and "http_request_line l http_request_new = (False, http_request_new)"
  using assms
  by (auto elim!: short_line_unread simp: parse_first_line_def http_request_line_def Let_def)

lemma short_line_waits:
  assumes "\<forall>l \<in> set (first # ls). line_ok l" "short_line first" "hd first \<noteq> CHR ''$''"
    "length (header_block (first # ls)) < 2 ^ 31"
  shows "rtsp_next_frame (header_block (first # ls) @ rest) = Wait"
    and "http_next (header_block (first # ls) @ rest) = Wait"
proof -
  have "first \<noteq> []" using assms(1) by (simp add: line_ok_def)
  then have "\<not> (header_block (first # ls) @ rest \<noteq> [] \<and> hd (header_block (first # ls) @ rest) = CHR ''$'')"
    using assms(3) by simp
  moreover obtain m where "parse_first_line first rtsp_message_new = (False, m)"
    using short_line_rejected(1) [OF assms(2)] by blast
  ultimately show "rtsp_next_frame (header_block (first # ls) @ rest) = Wait"
    by (simp add: next_frame_parse rtsp_parse_as_block parse_block_cut [OF assms(1,4)] del: header_block_simps)
  show "http_next (header_block (first # ls) @ rest) = Wait"
    by (simp add: http_next_def http_parse_def parse_block_cut [OF assms(1,4)] short_line_rejected(2) [OF assms(2)]
        del: header_block_simps)
qed

text \<open>
  C40. One line that is not understood silences a connection for good: once a peer has sent a
  header block whose first line has fewer than two spaces, the parsers answer \<open>false\<close>, which the
  loops take for an incomplete message. Whatever the peer sends afterwards (well-formed requests
  included) and however it is cut, a session, a source and the HTTP server do nothing: no
  response, no error, no close, no change of state, and the input buffer keeps every byte.
\<close>

theorem short_line_silences:
  assumes "\<forall>l \<in> set (first # ls). line_ok l" and "short_line first" and "hd first \<noteq> CHR ''$''"
    and "concat chunks = header_block (first # ls) @ rest" and "chunks \<noteq> []"
    and "length (concat chunks) < 2 ^ 31"
  shows "map_option forget_layout (feed_chunks rtsp_next_frame session_on_frame chunks (byte_buffer_new cap) e) =
      Some (Inr (concat chunks, e)) \<and>
    map_option forget_layout (feed_chunks rtsp_next_frame source_on_frame chunks (byte_buffer_new cap) r) =
      Some (Inr (concat chunks, r)) \<and>
    map_option forget_layout (feed_chunks http_next (http_dispatch routes dh) chunks (byte_buffer_new cap) cs) =
      Some (Inr (concat chunks, cs))"
proof -
  have ne: "concat chunks \<noteq> []" using assms(4) by simp
  have "length (header_block (first # ls)) < 2 ^ 31"
    using assms(4,6) by (simp del: header_block_simps)
  note w = short_line_waits [OF assms(1-3) this, of rest, folded assms(4)]
  have "cut_stream rtsp_next_frame (concat chunks) = ([], Inr (concat chunks))"
    "cut_stream http_next (concat chunks) = ([], Inr (concat chunks))"
    using ne w by (simp_all add: cut_stream.simps [of _ "concat chunks"] del: concat_eq_Nil_conv)
  then show ?thesis
    using rtspf.feed_chunks_cut [OF bb_inv_new, of chunks cap session_on_frame e]
      rtspf.feed_chunks_cut [OF bb_inv_new, of chunks cap source_on_frame r]
      httpf.feed_chunks_cut [OF bb_inv_new, of chunks cap "http_dispatch routes dh" cs] assms(5,6)
    by (simp add: act_on_cut_def)
qed

theorem short_line_silences_witness:
  "let wire = ''HELLO'' @ CRLF2 @ rtsp_serialize (request_new KOptions ''*'' 1) in
   map_option forget_layout (feed_chunks rtsp_next_frame session_on_frame [wire] (byte_buffer_new 8) demo_session) =
     Some (Inr (wire, demo_session))"
proof -
  let ?rest = "rtsp_serialize (request_new KOptions ''*'' 1)"
  let ?wire = "''HELLO'' @ CRLF2 @ ?rest"
  have "concat [?wire] = header_block [''HELLO''] @ ?rest" by simp
  moreover have "\<forall>l \<in> set [''HELLO'']. line_ok l" "short_line ''HELLO''" "hd ''HELLO'' \<noteq> CHR ''$''"
    "length (concat [?wire]) < 2 ^ 31" by code_simp+
  ultimately have "map_option forget_layout (feed_chunks rtsp_next_frame session_on_frame [?wire] (byte_buffer_new 8) demo_session) =
      Some (Inr (concat [?wire], demo_session))"
    using short_line_silences [of "''HELLO''" "[]" "[?wire]" ?rest 8 demo_session _ "[] :: unit http_route list" None
        "(http_conn_new, ())"] by blast
  then show ?thesis by (simp add: Let_def)
qed

end
