(* ===== verification/Rtsp_Well_Formed.thy ===== *)
theory Rtsp_Well_Formed
  imports Rtsp_Frames
begin

text \<open>
  What the rest of the program may assume of a message that \<open>RtspMessage::parse\<close> accepted,
  whatever bytes came in: the invariant of the record the sessions and sources read. The
  fields that \<open>parse\<close> extracts agree with the headers, no header holds a line break, and the
  body has the length its header declares.
\<close>

text \<open>A value does not contain \<open>CRLF\<close> and does not start with a blank.\<close>

definition header_wf :: "bytes \<times> bytes \<Rightarrow> bool" where
  "header_wf kv \<longleftrightarrow> COLON \<notin> set (fst kv) \<and> (snd kv = [] \<or> hd (snd kv) \<noteq> SPACE) \<and>
     find_sub CRLF (snd kv) = None"

definition field_of :: "bytes \<Rightarrow> (bytes \<Rightarrow> 'a) \<Rightarrow> 'a \<Rightarrow> headers \<Rightarrow> 'a" where
  "field_of key read absent hs = (case map_of hs key of None \<Rightarrow> absent | Some v \<Rightarrow> read v)"

text \<open>The fields of the start line: those of the other kind keep their initial values.\<close>

definition start_line_wf :: "rtsp_message \<Rightarrow> bool" where
  "start_line_wf m \<longleftrightarrow>
     (case msg_type m of
        KUnknown \<Rightarrow> False
      | KRequest \<Rightarrow> SPACE \<notin> set (msg_url m) \<and> msg_status_code m = 0 \<and> msg_reason m = []
      | KResponse \<Rightarrow> msg_method m = KNone \<and> msg_url m = [] \<and> SPACE \<notin> set (msg_version m) \<and>
          take 5 (msg_version m) = ''RTSP/'' \<and>
          - (2 ^ 31) \<le> msg_status_code m \<and> msg_status_code m < 2 ^ 31)"

definition headers_wf :: "rtsp_message \<Rightarrow> bool" where
  "headers_wf m \<longleftrightarrow>
     distinct (map fst (msg_headers m)) \<and> list_all header_wf (msg_headers m) \<and>
     msg_cseq m = field_of ''CSeq'' (\<lambda>v. word_of_int (atoi v)) 0 (msg_headers m) \<and>
     msg_session_id m = field_of ''Session'' session_part [] (msg_headers m) \<and>
     msg_transport m = field_of ''Transport'' (\<lambda>v. v) [] (msg_headers m)"

definition body_wf :: "rtsp_message \<Rightarrow> bool" where
  "body_wf m \<longleftrightarrow> length (msg_body m) = content_length (msg_headers m) \<and>
     msg_sdp m = (if says_sdp (msg_headers m) then msg_body m else [])"

definition rtsp_message_wf :: "rtsp_message \<Rightarrow> bool" where
  "rtsp_message_wf m \<longleftrightarrow> start_line_wf m \<and> headers_wf m \<and> body_wf m"

section \<open>The start line\<close>

lemma find_char_cuts:
  assumes "find_char s c p = Some k"
  shows "c \<notin> set (substr s p (k - p))"
proof -
  have "p \<le> length s" and "find_sub [c] (drop p s) = Some (k - p)" and "p \<le> k"
    using assms by (auto simp: find_char_def str_find_def split: if_splits)
  then have "take (k - p) (drop p s) = takeWhile (\<lambda>x. x \<noteq> c) (drop p s)"
    by (auto simp: find_sub_single split: if_splits) (metis takeWhile_eq_take)
  then show ?thesis by (auto simp: substr_def dest: set_takeWhileD)
qed

lemma first_line_wf:
  assumes "parse_first_line l rtsp_message_new = (True, m)"
  shows "start_line_wf m \<and> headers_wf m \<and> msg_body m = [] \<and> msg_sdp m = []"
proof -
  obtain sp1 sp2 where sp: "find_char l SPACE 0 = Some sp1" "find_char l SPACE (sp1 + 1) = Some sp2"
    using assms by (auto simp: parse_first_line_def Let_def split: if_splits option.splits)
  have none: "SPACE \<notin> set (substr l 0 sp1)" "SPACE \<notin> set (substr l (sp1 + 1) (sp2 - sp1 - 1))"
    using find_char_cuts [OF sp(1)] find_char_cuts [OF sp(2)] by simp_all
  have tag: "take 5 (substr l 0 sp1) = ''RTSP/''" if "take 5 l = ''RTSP/''"
  proof -
    have "sp1 < length l" "l ! sp1 = SPACE"
      using sp(1) find_sub_Some_prefix [of "[SPACE]" l sp1] find_char_bounds [OF sp(1)]
      by (auto simp: find_char_def str_find_def prefix_def dest!: arg_cong [where f = hd] simp: hd_drop_conv_nth)
    moreover have "(take 5 l) ! i \<noteq> SPACE" if "i < 5" for i
      using that unfolding \<open>take 5 l = ''RTSP/''\<close> by (auto simp: less_Suc_eq numeral_eq_Suc)
    ultimately have "5 \<le> sp1" by (metis not_le nth_take)
    then show ?thesis using that by (simp add: substr_def min_def)
  qed
  show ?thesis
    using assms sp none tag atoi_range
    by (auto simp: parse_first_line_def Let_def rtsp_message_new_def start_line_wf_def headers_wf_def field_of_def
        split: if_splits)
qed

section \<open>The header lines\<close>

lemma find_sub_cut: "find_sub p s = Some k \<Longrightarrow> p \<noteq> [] \<Longrightarrow> find_sub p (take k s) = None"
proof (rule ccontr)
  assume k: "find_sub p s = Some k" and p: "p \<noteq> []" and "find_sub p (take k s) \<noteq> None"
  then obtain i where i: "find_sub p (take k s) = Some i" by blast
  then have "find_sub p s = Some i" using find_sub_append [OF i, of "drop k s"] by simp
  with k have "i = k" by simp
  with p find_sub_Some_bound [OF i] show False by (cases p) simp_all
qed

lemma find_sub_tail: "find_sub p (xs @ ys) = None \<Longrightarrow> find_sub p ys = None"
  by (induction xs) (auto split: if_splits)

lemma header_line_no_break:
  "l \<in> set (header_lines header len pos) \<Longrightarrow> find_sub CRLF l = None"
proof (induction header len pos rule: header_lines.induct)
  case (1 header len pos)
  note unfold = header_lines.simps [of header len pos]
  have ne: "header_lines header len pos \<noteq> []" using "1.prems" by auto
  then obtain k where len: "pos < len - 2" and k: "str_find header CRLF pos = Some k" "k \<noteq> pos"
    by (auto simp: unfold split: if_splits option.splits)
  then have "header_lines header len pos = substr header pos (k - pos) # header_lines header len (k + 2)"
    by (simp add: unfold)
  with "1.prems" have l: "l = substr header pos (k - pos) \<or> l \<in> set (header_lines header len (k + 2))"
    by auto
  from l show ?case
  proof
    assume "l = substr header pos (k - pos)"
    moreover have "find_sub CRLF (drop pos header) = Some (k - pos)"
      using k(1) by (auto simp: str_find_def split: if_splits)
    ultimately show ?thesis by (simp add: substr_def find_sub_cut)
  next
    assume "l \<in> set (header_lines header len (k + 2))"
    with "1.IH" [OF len k] show ?thesis .
  qed
qed

lemma split_header_wf:
  assumes "split_header l = Some kv" "find_sub CRLF l = None"
  shows "header_wf kv"
proof -
  obtain colon where colon: "find_char l COLON 0 = Some colon"
    "kv = (substr l 0 colon, dropWhile (\<lambda>c. c = SPACE) (substr_from l (colon + 1)))"
    using assms(1) by (auto simp: split_header_def split: option.splits)
  let ?v = "substr_from l (colon + 1)"
  have "l = (take (colon + 1) l @ takeWhile (\<lambda>c. c = SPACE) ?v) @ dropWhile (\<lambda>c. c = SPACE) ?v"
    unfolding append_assoc takeWhile_dropWhile_id append_take_drop_id by (rule refl)
  with assms(2) have "find_sub CRLF (dropWhile (\<lambda>c. c = SPACE) ?v) = None"
    using find_sub_tail by metis
  with colon find_char_cuts [OF colon(1)] show ?thesis
    using hd_dropWhile [of "\<lambda>c. c = SPACE" ?v] by (auto simp: header_wf_def)
qed

lemma update_header_wf:
  "list_all header_wf hs \<Longrightarrow> header_wf (k, v) \<Longrightarrow> list_all header_wf (AList.update k v hs)"
  by (induction hs) (auto simp: header_wf_def)

lemma parse_header_line_wf:
  assumes "headers_wf m" "find_sub CRLF l = None"
  shows "headers_wf (parse_header_line l m)"
proof (cases "split_header l")
  case (Some kv)
  obtain k v where kv: "kv = (k, v)" by (cases kv)
  with Some split_header_wf assms(2) have "header_wf (k, v)" by blast
  with assms(1) show ?thesis
    by (auto simp: parse_header_line_def Some kv store_header_fields headers_wf_def field_of_def
        distinct_update update_header_wf update_conv')
qed (simp add: parse_header_line_def assms(1))

text \<open>The start line and the body keep what the header lines do not touch.\<close>

definition same_outside_headers :: "rtsp_message \<Rightarrow> rtsp_message \<Rightarrow> bool" where
  "same_outside_headers m m' \<longleftrightarrow>
     (msg_type m', msg_method m', msg_url m', msg_version m') = (msg_type m, msg_method m, msg_url m, msg_version m) \<and>
     (msg_status_code m', msg_reason m', msg_body m', msg_sdp m') =
       (msg_status_code m, msg_reason m, msg_body m, msg_sdp m)"

lemma same_outside_headers_fields:
  "same_outside_headers m m' \<Longrightarrow>
    start_line_wf m' = start_line_wf m \<and> msg_body m' = msg_body m \<and> msg_sdp m' = msg_sdp m"
  by (cases "msg_type m") (simp_all add: same_outside_headers_def start_line_wf_def)

lemma fold_header_lines_wf:
  "headers_wf m \<Longrightarrow> \<forall>l \<in> set ls. find_sub CRLF l = None \<Longrightarrow>
    headers_wf (fold parse_header_line ls m) \<and> same_outside_headers m (fold parse_header_line ls m)"
proof (induction ls arbitrary: m)
  case (Cons l ls)
  have "same_outside_headers m (parse_header_line l m)"
    by (cases "split_header l")
      (auto simp: parse_header_line_def same_outside_headers_def store_header_def set_header_def Let_def)
  moreover have "headers_wf (parse_header_line l m)" using Cons.prems by (simp add: parse_header_line_wf)
  ultimately show ?case using Cons
    by (auto simp: same_outside_headers_def)
qed (simp add: same_outside_headers_def)

section \<open>The body\<close>

lemma take_body_taken:
  assumes "take_body hdrs put headerLen bs msg = Inr (True, m, n)" "headerLen < 2 ^ 32" "headerLen \<le> length bs"
  shows "\<exists>body. length body = content_length (hdrs msg) \<and> n = headerLen + length body \<and> n \<le> length bs \<and>
    body = take (length body) (drop headerLen bs) \<and> m = (if body = [] then msg else put body msg)"
proof -
  let ?cl = "content_length (hdrs msg)"
  let ?body = "take ?cl (drop headerLen bs)"
  have small: "?cl \<le> string_max_size"
    using assms(1) by (auto simp: take_body_def Let_def string_max_size_def split: if_splits)
  then have sum: "size_add headerLen ?cl = headerLen + ?cl"
    using assms(2) by (intro size_add_small) (simp add: string_max_size_def)
  have fits: "headerLen + ?cl \<le> length bs"
    using assms(1) by (auto simp: take_body_def Let_def sum split: if_splits)
  have "n = headerLen + ?cl \<and> m = (if ?cl = 0 then msg else put ?body msg)"
    using assms(1) fits small sum by (auto simp: take_body_def Let_def split: if_splits)
  moreover have "length ?body = ?cl" using fits by simp
  ultimately show ?thesis using fits by (intro exI [of _ ?body]) auto
qed

lemma put_body_wf:
  assumes "headers_wf m" "msg_body m = []" "msg_sdp m = []" "length body = content_length (msg_headers m)"
  shows "rtsp_message_wf (if body = [] then m else rtsp_put_body body m) \<longleftrightarrow> start_line_wf m"
  using assms
  by (cases "msg_type m")
    (auto simp: rtsp_message_wf_def start_line_wf_def headers_wf_def body_wf_def rtsp_put_body_fields)

text \<open>
  C13. Every message that \<open>parse\<close> accepts is well formed, whatever bytes came from the network:
  the start line is a request's or a response's, with the fields of the other kind untouched and
  a status that is an \<open>int\<close>; no header key occurs twice or holds a colon, no value holds a line
  break or starts with a blank; \<open>cseq\<close>, \<open>session_id\<close>, \<open>transport\<close> and \<open>sdp\<close> are what the
  headers say; the body is as long as its header declares, and ends the bytes consumed, which
  lie inside the buffer.
\<close>

theorem rtsp_parse_well_formed:
  assumes "rtsp_parse bs rtsp_message_new = Inr (True, m, n)"
  shows "rtsp_message_wf m \<and> 0 < n \<and> n \<le> length bs \<and> suffix (msg_body m) (take n bs)"
proof -
  obtain i lineEnd msg1 where i: "bytes_find bs CRLF2 = i" "0 \<le> i"
    and first: "parse_first_line (substr (take (nat (i + 4)) bs) 0 lineEnd) rtsp_message_new = (True, msg1)"
    and r: "Inr (True, m, n) = take_body msg_headers rtsp_put_body (nat (i + 4)) bs
      (fold parse_header_line (header_lines (take (nat (i + 4)) bs) (nat (i + 4)) (lineEnd + 2)) msg1)"
    by (rule parse_block_reaches_body [OF assms [unfolded rtsp_parse_as_block]]) auto
  let ?m = "fold parse_header_line (header_lines (take (nat (i + 4)) bs) (nat (i + 4)) (lineEnd + 2)) msg1"
  note b = rtsp_parse_bounds [OF assms]
  have h: "nat (i + 4) < 2 ^ 32" "nat (i + 4) \<le> length bs"
    using bytes_find_range [of bs CRLF2] i bytes_find_inside [OF i] by simp_all
  note line = first_line_wf [OF first]
  have m: "headers_wf ?m" "same_outside_headers msg1 ?m"
    using fold_header_lines_wf [of msg1] line header_line_no_break by blast+
  then have fields: "start_line_wf ?m" "msg_body ?m = []" "msg_sdp ?m = []"
    using line same_outside_headers_fields [OF m(2)] by simp_all
  obtain body where body: "length body = content_length (msg_headers ?m)" "n = nat (i + 4) + length body"
    "body = take (length body) (drop (nat (i + 4)) bs)" "m = (if body = [] then ?m else rtsp_put_body body ?m)"
    using take_body_taken [OF r [symmetric] h] by blast
  have "rtsp_message_wf m"
    using put_body_wf [OF m(1) fields(2,3) body(1)] fields(1) body(4) by simp
  moreover have "msg_body m = body"
    using body(4) fields(2) by (simp add: rtsp_put_body_fields)
  moreover have "take n bs = take (nat (i + 4)) bs @ body"
    unfolding body(2) take_add using body(3) by simp
  ultimately show ?thesis using b by (auto simp: suffix_def)
qed

theorem rtsp_parse_well_formed_witness:
  "let bs = ''RTSP/1.0 200 OK'' @ CRLF @ ''CSeq: 4294967295'' @ CRLF @ ''Session:  a;timeout=60'' @ CRLF @
       ''Session: b'' @ CRLF @ ''Content-Length: 2'' @ CRLF2 @ ''xyz''
   in case rtsp_parse bs rtsp_message_new of
        Inr (True, m, n) \<Rightarrow> rtsp_message_wf m \<and> msg_cseq m = - 1 \<and> msg_session_id m = ''b'' \<and> suffix ''xy'' (take n bs)
      | _ \<Rightarrow> False"
proof -
  let ?bs = "''RTSP/1.0 200 OK'' @ CRLF @ ''CSeq: 4294967295'' @ CRLF @ ''Session:  a;timeout=60'' @ CRLF @
       ''Session: b'' @ CRLF @ ''Content-Length: 2'' @ CRLF2 @ ''xyz''"
  let ?m = "rtsp_message_new\<lparr>msg_type := KResponse, msg_status_code := 200, msg_reason := ''OK'',
      msg_headers := [(''CSeq'', ''4294967295''), (''Session'', ''b''), (''Content-Length'', ''2'')],
      msg_body := ''xy'', msg_cseq := - 1, msg_session_id := ''b''\<rparr>"
  have r: "rtsp_parse ?bs rtsp_message_new = Inr (True, ?m, 94)" by code_simp
  from rtsp_parse_well_formed [OF r] have "rtsp_message_wf ?m" "suffix ''xy'' (take 94 ?bs)" by simp_all
  with r show ?thesis by (simp add: Let_def)
qed

end
