(* ===== verification/Http_Api.thy ===== *)
theory Http_Api
  imports Http_Server Relay_Manager
begin

text \<open>
  The HTTP API of \<open>src/src/main.cpp\<close>: \<open>jsonEscape\<close>, the lambda \<open>extractStringValue\<close> and the
  handlers that \<open>registerHttpRoutes\<close> registers, on the relay manager and the calls its sources
  made so far.
\<close>

type_synonym api_state = "relay_manager \<times> mgr_effect list"

section \<open>JSON\<close>

fun json_escape_char :: "char \<Rightarrow> bytes" where
  "json_escape_char c =
     (if c = CHR 0x22 then [CHR 0x5C, CHR 0x22]
      else if c = CHR 0x5C then [CHR 0x5C, CHR 0x5C]
      else if c = CHR 0x0A then [CHR 0x5C, CHR ''n'']
      else if c = CHR 0x0D then [CHR 0x5C, CHR ''r'']
      else if c = CHR 0x09 then [CHR 0x5C, CHR ''t'']
      else [c])"

definition json_escape :: "bytes \<Rightarrow> bytes" where
  "json_escape s = concat (map json_escape_char s)"

text \<open>\<open>extractStringValue(json, key)\<close>; every failed search gives the empty string.\<close>

definition extract_string_value :: "bytes \<Rightarrow> bytes \<Rightarrow> bytes" where
  "extract_string_value json key =
     (let pattern = CHR 0x22 # key @ [CHR 0x22] in
      case str_find json pattern 0 of
        None \<Rightarrow> []
      | Some pos \<Rightarrow>
          (case find_char json COLON (pos + length pattern) of
             None \<Rightarrow> []
           | Some pos \<Rightarrow>
               (case find_char json (CHR 0x22) (pos + 1) of
                  None \<Rightarrow> []
                | Some valStart \<Rightarrow>
                    (case find_char json (CHR 0x22) (valStart + 1) of
                       None \<Rightarrow> []
                     | Some valEnd \<Rightarrow> substr json (valStart + 1) (valEnd - valStart - 1)))))"

definition json_bool :: "bool \<Rightarrow> bytes" where
  "json_bool b = (if b then ''true'' else ''false'')"

text \<open>The fields of one stream, without the braces.\<close>

definition info_fields :: "stream_info \<Rightarrow> bytes" where
  "info_fields info =
     ''\"path\":\"'' @ json_escape (info_stream_path info) @ ''\",'' @
     ''\"upstream\":\"'' @ json_escape (info_upstream_url info) @ ''\",'' @
     ''\"source_state\":\"'' @ json_escape (info_source_state info) @ ''\",'' @
     ''\"sink_count\":'' @ dec_nat (info_sink_count info) @ '','' @
     ''\"has_sdp\":'' @ json_bool (info_has_sdp info)"

text \<open>The loop that writes a comma before every stream but the first.\<close>

fun infos_json :: "stream_info list \<Rightarrow> bytes" where
  "infos_json [] = []"
| "infos_json [info] = CHR ''{'' # info_fields info @ ''}''"
| "infos_json (info # infos) = CHR ''{'' # info_fields info @ ''}'' @ '','' @ infos_json infos"

definition list_json :: "stream_info list \<Rightarrow> bytes" where
  "list_json infos =
     ''{\"code\":0,\"data\":{\"total\":'' @ dec_nat (length infos) @ '',\"streams\":['' @ infos_json infos @ '']}}''"

section \<open>Handlers\<close>

text \<open>Paths are made to start with a slash.\<close>

definition with_slash :: "bytes \<Rightarrow> bytes" where
  "with_slash path = (if hd path \<noteq> CHR ''/'' then CHR ''/'' # path else path)"

definition api_post :: "u16 \<Rightarrow> api_state http_handler" where
  "api_post rtsp_port req rs =
     (let resp = fst rs; m = fst (snd rs); es = snd (snd rs);
          path = extract_string_value (hreq_body req) ''path'';
          upstream = extract_string_value (hreq_body req) ''upstream''
      in if path = [] \<or> upstream = [] then
           Inr (set_json ''{\"error\":\"missing 'path' or 'upstream' field\"}''
                  (set_status 400 ''Bad Request'' resp), m, es)
         else
           let path = with_slash path;
               (ok, m, es') = add_stream path upstream m
           in if \<not> ok then
                Inr (set_json ''{\"error\":\"stream already exists or max sources reached\"}''
                       (set_status 409 ''Conflict'' resp), m, es @ es')
              else
                let proxy_url = ''rtsp://<server_ip>:'' @ dec_nat (unat rtsp_port) @ path
                in Inr (set_json (''{\"code\":0,\"message\":\"stream added\",\"data\":{'' @
                       ''\"path\":\"'' @ json_escape path @ ''\",'' @
                       ''\"upstream\":\"'' @ json_escape upstream @ ''\",'' @
                       ''\"proxy_url\":\"'' @ json_escape proxy_url @ ''\"}}'')
                       (set_status 201 ''Created'' resp), m, es @ es'))"

definition delete_path :: "http_request \<Rightarrow> bytes" where
  "delete_path req =
     (let path = extract_string_value (hreq_body req) ''path'' in
      if path = [] then
        (case str_find (hreq_path req) ''?path='' 0 of
           None \<Rightarrow> path | Some qpos \<Rightarrow> substr_from (hreq_path req) (qpos + 6))
      else path)"

definition api_delete :: "api_state http_handler" where
  "api_delete req rs =
     (let resp = fst rs; m = fst (snd rs); es = snd (snd rs); path = delete_path req
      in if path = [] then
           Inr (set_json ''{\"error\":\"missing 'path' field\"}'' (set_status 400 ''Bad Request'' resp), m, es)
         else
           (case remove_stream path m of
              Inl e \<Rightarrow> Inl e
            | Inr (ok, m, es') \<Rightarrow>
                if \<not> ok then
                  Inr (set_json ''{\"error\":\"stream not found\"}'' (set_status 404 ''Not Found'' resp), m, es @ es')
                else Inr (set_json ''{\"code\":0,\"message\":\"stream removed\"}'' resp, m, es @ es')))"

definition api_list :: "api_state http_handler" where
  "api_list req rs = Inr (set_json (list_json (get_all_stream_info (fst (snd rs)))) (fst rs), snd rs)"

definition api_get :: "api_state http_handler" where
  "api_get req rs =
     (let resp = fst rs; m = fst (snd rs);
          stream_path = (if length (hreq_path req) > length ''/api/streams''
                         then substr_from (hreq_path req) (length ''/api/streams'') else [])
      in if stream_path = [] then Inr (set_json (list_json (get_all_stream_info m)) resp, snd rs)
         else
           (case get_stream_info (with_slash stream_path) m of
              None \<Rightarrow> Inr (set_json ''{\"error\":\"stream not found\"}'' (set_status 404 ''Not Found'' resp), snd rs)
            | Some info \<Rightarrow>
                Inr (set_json (''{\"code\":0,\"data\":{'' @ info_fields info @ ''}}'') resp, snd rs)))"

definition api_stats :: "api_state http_handler" where
  "api_stats req rs =
     Inr (set_json (''{\"code\":0,\"data\":{'' @
            ''\"stream_count\":'' @ dec_nat (stream_count (fst (snd rs))) @ '','' @
            ''\"total_sinks\":'' @ dec_nat (total_sinks (fst (snd rs))) @ ''}}'') (fst rs), snd rs)"

definition api_default :: "api_state http_handler" where
  "api_default req rs =
     Inr (set_json ''{\"error\":\"not found\",\"hint\":\"available: POST /api/streams, DELETE /api/streams, GET /api/streams, GET /api/streams/<path>, GET /api/stats\"}''
            (set_status 404 ''Not Found'' (fst rs)), snd rs)"

definition api_routes :: "u16 \<Rightarrow> api_state http_route list" where
  "api_routes rtsp_port =
     add_route ''GET'' ''/api/stats'' api_stats
       (add_route ''GET'' ''/api/streams/'' api_get
         (add_route ''GET'' ''/api/streams'' api_list
           (add_route ''DELETE'' ''/api/streams'' api_delete
             (add_route ''POST'' ''/api/streams'' (api_post rtsp_port) []))))"

definition api_serve ::
  "u16 \<Rightarrow> http_request \<Rightarrow> api_state \<Rightarrow> cpp_error + http_response \<times> api_state" where
  "api_serve rtsp_port req s = run_handler (api_routes rtsp_port) (Some api_default) req s"

section \<open>Escaping\<close>

text \<open>What a JSON reader makes of the escapes.\<close>

fun json_unescape :: "bytes \<Rightarrow> bytes" where
  "json_unescape [] = []"
| "json_unescape [c] = [c]"
| "json_unescape (c # d # s) =
     (if c = CHR 0x5C then
        (if d = CHR ''n'' then CHR 0x0A else if d = CHR ''r'' then CHR 0x0D
         else if d = CHR ''t'' then CHR 0x09 else d) # json_unescape s
      else c # json_unescape (d # s))"

text \<open>Where a JSON reader sees the end of a string that starts here.\<close>

fun json_string_end :: "bytes \<Rightarrow> nat option" where
  "json_string_end [] = None"
| "json_string_end (c # s) =
     (if c = CHR 0x22 then Some 0
      else if c = CHR 0x5C then
        (case s of [] \<Rightarrow> None | d # s' \<Rightarrow> map_option (\<lambda>i. i + 2) (json_string_end s'))
      else map_option Suc (json_string_end s))"

lemma json_unescape_plain: "c \<noteq> CHR 0x5C \<Longrightarrow> json_unescape (c # s) = c # json_unescape s"
  by (cases s) simp_all

lemma json_escape_simps [simp]:
  "json_escape [] = []" "json_escape (c # s) = json_escape_char c @ json_escape s"
  by (simp_all add: json_escape_def)

text \<open>
  Whatever bytes a path or URL has, a JSON reader gets them back: the escaped text ends exactly
  where the closing quote of the reply is, and unescaping it gives the original.
\<close>

theorem json_escape_safe:
  "json_unescape (json_escape s) = s \<and>
    json_string_end (json_escape s @ CHR 0x22 # rest) = Some (length (json_escape s)) \<and>
    CHR 0x0A \<notin> set (json_escape s) \<and> CHR 0x0D \<notin> set (json_escape s)"
proof (induction s)
  case (Cons c s)
  then show ?case by (simp add: json_unescape_plain)
qed simp

section \<open>Reading the documented bodies\<close>

definition post_body :: "bytes \<Rightarrow> bytes \<Rightarrow> bytes" where
  "post_body path upstream = ''{\"path\":\"'' @ path @ ''\",\"upstream\":\"'' @ upstream @ ''\"}''"

definition delete_body :: "bytes \<Rightarrow> bytes" where
  "delete_body path = ''{\"path\":\"'' @ path @ ''\"}''"

lemma find_sub_skip:
  "c \<notin> set xs \<Longrightarrow> find_sub (c # p) (xs @ s) = map_option (\<lambda>i. length xs + i) (find_sub (c # p) s)"
  by (induction xs) (cases "find_sub (c # p) s"; simp)+

lemma prefix_upto_char:
  "c \<notin> set a \<Longrightarrow> c \<notin> set b \<Longrightarrow> prefix (a @ [c]) (b @ c # r) \<longleftrightarrow> a = b"
proof (induction a arbitrary: b)
  case Nil
  then show ?case by (cases b) auto
next
  case (Cons x a)
  then show ?case by (cases b) auto
qed

text \<open>After the key: the colon, the quotes, the value.\<close>

lemma extract_value_after:
  assumes "str_find json (CHR 0x22 # key @ [CHR 0x22]) 0 = Some pos"
    "json = pre @ CHR '':'' # CHR 0x22 # val @ CHR 0x22 # rest" "length pre = pos + length key + 2"
    "CHR 0x22 \<notin> set val"
  shows "extract_string_value json key = val"
proof -
  have "find_char json COLON (pos + length (CHR 0x22 # key @ [CHR 0x22])) = Some (length pre)"
    using find_char_append_from [of COLON "[]" _ pre] assms(2,3) by simp
  moreover have "find_char json (CHR 0x22) (length pre + 1) = Some (length pre + 1)"
    using find_char_append_from [of "CHR 0x22" "[]" "length pre + 1" "pre @ [COLON]"] assms(2) by simp
  moreover have "find_char json (CHR 0x22) (length pre + 1 + 1) = Some (length pre + 2 + length val)"
    using find_char_append_from [of "CHR 0x22" val "length pre + 2" "pre @ [COLON, CHR 0x22]"] assms(2,4) by simp
  moreover have "substr json (length pre + 1 + 1) (length pre + 2 + length val - (length pre + 1) - 1) = val"
    using assms(2) by (simp add: substr_def)
  ultimately show ?thesis
    using assms(1) by (simp add: extract_string_value_def Let_def)
qed

lemma extract_path:
  assumes "CHR 0x22 \<notin> set path"
  shows "extract_string_value (''{\"path\":\"'' @ path @ CHR 0x22 # rest) ''path'' = path"
  by (rule extract_value_after [where pos = 1 and pre = "''{\"path\"''"])
    (use assms in \<open>simp_all add: str_find_def\<close>)

lemma extract_upstream:
  assumes "CHR 0x22 \<notin> set path" "CHR 0x22 \<notin> set upstream" "path \<noteq> ''upstream''"
  shows "extract_string_value (post_body path upstream) ''upstream'' = upstream"
proof (rule extract_value_after)
  have "\<not> prefix (''upstream'' @ [CHR 0x22]) (path @ CHR 0x22 # s)" for s
    using assms(1,3) prefix_upto_char [of "CHR 0x22" "''upstream''" path s] by auto
  then have "find_sub (CHR 0x22 # ''upstream'' @ [CHR 0x22]) (CHR 0x22 # path @ CHR 0x22 # '','' @ CHR 0x22 # ''upstream\":'' @ s) =
      Some (length path + 3)" for s
    using assms(1) by (simp add: find_sub_skip)
  then show "str_find (post_body path upstream) (CHR 0x22 # ''upstream'' @ [CHR 0x22]) 0 =
      Some (length path + 11)"
    by (simp add: str_find_def post_body_def)
  show "post_body path upstream =
      (''{\"path\":\"'' @ path @ ''\",\"upstream\"'') @ CHR '':'' # CHR 0x22 # upstream @ CHR 0x22 # ''}''"
    by (simp add: post_body_def)
qed (use assms in simp_all)

section \<open>The API and the registry\<close>

lemma api_route_exact:
  "hreq_path req = ''/api/streams'' \<Longrightarrow> hreq_method req = ''POST'' \<Longrightarrow>
    api_serve port req s = api_post port req (http_response_new, s)"
  "hreq_path req = ''/api/streams'' \<Longrightarrow> hreq_method req = ''DELETE'' \<Longrightarrow>
    api_serve port req s = api_delete req (http_response_new, s)"
  by (simp_all add: api_serve_def run_handler_def api_routes_def add_route_def route_matches_def)

lemma set_json_fields [simp]:
  "hresp_status_code (set_json j r) = hresp_status_code r" "hresp_status_code (set_status c rs r) = c"
  "hresp_body (set_json j r) = j" "hresp_status_code http_response_new = 200"
  by (simp_all add: set_json_def set_status_def http_response_new_def)

text \<open>
  C37. The documented POST does what it says: for a path and an upstream without quotes, the body
  \<open>{"path":...,"upstream":...}\<close> adds exactly that stream to the registry, under its path with a
  leading slash, and is answered with 201; if the path is taken or there is no room, nothing
  changes and the answer is 409.
\<close>

theorem api_post_adds:
  assumes "hreq_method req = ''POST''" and "hreq_path req = ''/api/streams''"
    and "hreq_body req = post_body path upstream"
    and "CHR 0x22 \<notin> set path" and "CHR 0x22 \<notin> set upstream" and "path \<noteq> []" and "upstream \<noteq> []"
    and "path \<noteq> ''upstream''" and "rm_inv m"
  shows "\<exists>resp m' es'. api_serve port req (m, es) = Inr (resp, m', es') \<and>
    registry_of m' = registry_step (rm_max_sources m) (MgrAdd (with_slash path) upstream) (registry_of m) \<and>
    hresp_status_code resp =
      (if registry_of m (with_slash path) = None \<and> card (dom (registry_of m)) < rm_max_sources m
       then 201 else 409)"
proof -
  let ?path = "with_slash path"
  have fields: "extract_string_value (hreq_body req) ''path'' = path"
    "extract_string_value (hreq_body req) ''upstream'' = upstream"
    using extract_path [OF assms(4)] extract_upstream [OF assms(4,5,8)] assms(3) by (simp_all add: post_body_def)
  obtain ok m' es1 where add: "add_stream ?path upstream m = (ok, m', es1)"
    by (cases "add_stream ?path upstream m") auto
  have step: "mgr_step (MgrAdd ?path upstream) m = Inr (m', es1)" by (simp add: mgr_step_def add)
  have ok: "ok \<longleftrightarrow> registry_of m ?path = None \<and> card (dom (registry_of m)) < rm_max_sources m"
    using add registry_count [OF assms(9)]
    by (cases "rm_find m ?path")
      (auto simp: add_stream_def Let_def stream_count_def split: if_splits prod.splits)
  have "\<exists>resp. api_serve port req (m, es) = Inr (resp, m', es @ es1) \<and>
      hresp_status_code resp = (if ok then 201 else 409)"
    using assms(6,7) fields add by (simp add: api_route_exact(1) [OF assms(2,1)] api_post_def Let_def)
  with mgr_step_registry [OF assms(9) step] ok show ?thesis by auto
qed

definition demo_api_request :: "bytes \<Rightarrow> bytes \<Rightarrow> bytes \<Rightarrow> http_request" where
  "demo_api_request meth path body =
     http_request_new\<lparr>hreq_method := meth, hreq_path := path, hreq_body := body\<rparr>"

theorem api_post_adds_witness:
  "\<exists>resp m' es'. api_serve 8554 (demo_api_request ''POST'' ''/api/streams'' (post_body ''cam'' ''rtsp://h/1''))
      (demo_manager, []) = Inr (resp, m', es') \<and>
    registry_of m' = registry_step 2 (MgrAdd ''/cam'' ''rtsp://h/1'') (registry_of demo_manager) \<and>
    hresp_status_code resp = 201"
proof -
  let ?req = "demo_api_request ''POST'' ''/api/streams'' (post_body ''cam'' ''rtsp://h/1'')"
  have "hreq_method ?req = ''POST''" "hreq_path ?req = ''/api/streams''"
    "hreq_body ?req = post_body ''cam'' ''rtsp://h/1''" "CHR 0x22 \<notin> set ''cam''"
    "CHR 0x22 \<notin> set ''rtsp://h/1''" "''cam'' \<noteq> []" "''rtsp://h/1'' \<noteq> []" "''cam'' \<noteq> ''upstream''"
    "rm_inv demo_manager" by code_simp+
  note api_post_adds [OF this, of 8554 "[]"]
  moreover have "with_slash ''cam'' = ''/cam''" "rm_max_sources demo_manager = 2" by code_simp+
  moreover have "registry_of demo_manager = (\<lambda>_. None)"
    by (simp add: registry_of_def rm_find_def demo_manager_def relay_manager_new_def)
  ultimately show ?thesis by simp
qed

lemma find_route_in: "find_route rts req = Some rt \<Longrightarrow> rt \<in> set rts"
  by (induction rts) (auto split: if_splits)

text \<open>What a request does to the manager, as an operation of it.\<close>

definition slashed :: "relay_manager \<Rightarrow> bool" where
  "slashed m \<longleftrightarrow> (\<forall>path. has_stream path m \<longrightarrow> path \<noteq> [] \<and> hd path = CHR ''/'')"

lemma with_slash_hd: "with_slash path \<noteq> [] \<or> path = []" "path \<noteq> [] \<Longrightarrow> hd (with_slash path) = CHR ''/''"
  by (auto simp: with_slash_def)

lemma slashed_add:
  assumes "slashed m" "path \<noteq> []" "rm_inv m" "add_stream (with_slash path) url m = (ok, m', es)"
  shows "slashed m'"
  unfolding slashed_def
proof (intro allI impI)
  fix p assume p: "has_stream p m'"
  have step: "mgr_step (MgrAdd (with_slash path) url) m = Inr (m', es)" by (simp add: mgr_step_def assms(4))
  show "p \<noteq> [] \<and> hd p = CHR ''/''"
  proof (cases "p = with_slash path")
    case True
    with assms(2) show ?thesis using with_slash_hd [of path] by auto
  next
    case False
    with mgr_step_has_stream [OF assms(3) step _ p] assms(1) show ?thesis by (simp add: slashed_def)
  qed
qed

lemma slashed_remove: "slashed m \<Longrightarrow> rm_inv m \<Longrightarrow> remove_stream path m = Inr (ok, m', es) \<Longrightarrow> slashed m'"
  using mgr_step_has_stream [of m "MgrRemove path" m' es]
  by (auto simp: slashed_def mgr_step_def)

text \<open>A handler's outcome as the API promises it.\<close>

definition api_good :: "cpp_error + http_response \<times> api_state \<Rightarrow> bool" where
  "api_good r = (case r of
     Inl e \<Rightarrow> False
   | Inr (resp, m, es) \<Rightarrow>
       mgr_reachable m \<and> slashed m \<and> hresp_status_code resp \<in> {200, 201, 400, 404, 409})"

lemma api_good_Inr [simp]:
  "api_good (Inr (resp, m, es)) \<longleftrightarrow>
    mgr_reachable m \<and> slashed m \<and> hresp_status_code resp \<in> {200, 201, 400, 404, 409}"
  by (simp add: api_good_def)

lemma api_good_reads:
  assumes "mgr_reachable m" "slashed m"
  shows "api_good (api_list req (http_response_new, m, es))" "api_good (api_stats req (http_response_new, m, es))"
    "api_good (api_default req (http_response_new, m, es))" "api_good (api_get req (http_response_new, m, es))"
proof -
  show "api_good (api_list req (http_response_new, m, es))"
    unfolding api_list_def fst_conv snd_conv using assms by simp
  show "api_good (api_stats req (http_response_new, m, es))"
    unfolding api_stats_def fst_conv snd_conv using assms by simp
  show "api_good (api_default req (http_response_new, m, es))"
    unfolding api_default_def fst_conv snd_conv using assms by simp
  show "api_good (api_get req (http_response_new, m, es))"
    unfolding api_get_def Let_def fst_conv snd_conv using assms by (simp split: option.split)
qed

lemma api_good_post:
  assumes "mgr_reachable m" "slashed m"
  shows "api_good (api_post port req (http_response_new, m, es))"
proof -
  let ?p = "extract_string_value (hreq_body req) ''path''"
  let ?u = "extract_string_value (hreq_body req) ''upstream''"
  show ?thesis
  proof (cases "?p = [] \<or> ?u = []")
    case True
    with assms show ?thesis unfolding api_post_def Let_def fst_conv snd_conv by simp
  next
    case False
    obtain ok m' es1 where add: "add_stream (with_slash ?p) ?u m = (ok, m', es1)"
      by (cases "add_stream (with_slash ?p) ?u m") auto
    have step: "mgr_step (MgrAdd (with_slash ?p) ?u) m = Inr (m', es1)" by (simp add: mgr_step_def add)
    have "mgr_reachable m'" by (rule mgr_reachable.step [OF assms(1) _ step]) (simp add: mgr_enabled_def)
    moreover have "slashed m'"
      using slashed_add [OF assms(2) _ _ add] False mgr_reachable_inv [OF assms(1)] by (simp add: mgr_inv_def)
    ultimately show ?thesis
      using False add unfolding api_post_def Let_def fst_conv snd_conv by simp
  qed
qed

lemma mgr_step_removeE:
  assumes "mgr_step (MgrRemove path) m = Inr (m', es)"
  obtains ok where "remove_stream path m = Inr (ok, m', es)"
proof (cases "remove_stream path m")
  case (Inr r)
  then have "r = (fst r, m', es)" using assms by (simp add: mgr_step_def prod_eq_iff)
  with Inr that [of "fst r"] show thesis by simp
qed (use assms in \<open>simp add: mgr_step_def\<close>)

lemma api_good_delete:
  assumes "mgr_reachable m" "slashed m"
  shows "api_good (api_delete req (http_response_new, m, es))"
proof (cases "delete_path req = []")
  case True
  with assms show ?thesis unfolding api_delete_def Let_def fst_conv snd_conv by simp
next
  case False
  have inv: "mgr_inv m" using assms(1) by (rule mgr_reachable_inv)
  obtain m' es1 where step: "mgr_step (MgrRemove (delete_path req)) m = Inr (m', es1)"
    using mgr_inv_step [OF inv, of "MgrRemove (delete_path req)"] by (auto simp: mgr_enabled_def)
  obtain ok where rem: "remove_stream (delete_path req) m = Inr (ok, m', es1)"
    by (rule mgr_step_removeE [OF step])
  have "mgr_reachable m'" by (rule mgr_reachable.step [OF assms(1) _ step]) (simp add: mgr_enabled_def)
  moreover have "slashed m'" using slashed_remove [OF assms(2) _ rem] inv by (simp add: mgr_inv_def)
  ultimately show ?thesis
    by (simp only: api_delete_def Let_def fst_conv snd_conv False rem if_False sum.case prod.case)
      (cases ok; simp)
qed

lemma api_handlers:
  "find_route (api_routes port) req = Some rt \<Longrightarrow>
    route_handler rt \<in> {api_post port, api_delete, api_list, api_get, api_stats}"
  using find_route_in [of "api_routes port" req rt] by (auto simp: api_routes_def add_route_def)

lemma api_good_serve:
  assumes "mgr_reachable m" "slashed m"
  shows "api_good (api_serve port req (m, es))"
  using api_good_reads [OF assms] api_good_post [OF assms] api_good_delete [OF assms] api_handlers [of port req]
  by (cases "find_route (api_routes port) req") (auto simp: api_serve_def run_handler_def)

text \<open>No request changes the limit of the manager.\<close>

lemma add_stream_limit: "add_stream path url m = (ok, m', es) \<Longrightarrow> rm_max_sources m' = rm_max_sources m"
  by (auto simp: add_stream_def frame_simps split: if_splits prod.splits)

lemma remove_stream_limit: "remove_stream path m = Inr (ok, m', es) \<Longrightarrow> rm_max_sources m' = rm_max_sources m"
  by (auto simp: remove_stream_def frame_simps split: option.splits sum.splits)

lemma api_serve_limit:
  assumes "api_serve port req (m, es) = Inr (resp, m', es')"
  shows "rm_max_sources m' = rm_max_sources m"
proof -
  have "rm_max_sources m' = rm_max_sources m"
    if "h req (http_response_new, m, es) = Inr (resp, m', es')"
      and "h \<in> {api_post port, api_delete, api_list, api_get, api_stats, api_default}" for h
    using that
    by (auto simp: api_post_def api_delete_def api_list_def api_get_def api_stats_def api_default_def Let_def
        dest: add_stream_limit remove_stream_limit split: if_splits prod.splits sum.splits option.splits)
  with assms api_handlers [of port req] show ?thesis
    by (auto simp: api_serve_def run_handler_def split: option.splits)
qed

text \<open>
  C36. The API never fails: on every reachable state of the relay, every HTTP request, whatever its
  method, path and body, gets a response, with one of five statuses; the manager stays in a
  reachable state, and every stream the API creates has a path that starts with a slash.
\<close>

theorem api_safe:
  assumes "mgr_reachable m" and "slashed m"
  shows "\<exists>resp m' es'. api_serve port req (m, es) = Inr (resp, m', es') \<and> mgr_reachable m' \<and> slashed m' \<and>
    hresp_status_code resp \<in> {200, 201, 400, 404, 409}"
  using api_good_serve [OF assms, of port req es] by (auto simp: api_good_def split: sum.splits)

theorem api_safe_witness:
  "\<exists>resp m' es'. api_serve 8554 (demo_api_request ''DELETE'' ''/api/streams'' (delete_body ''/cam'')) (demo_manager, []) =
      Inr (resp, m', es') \<and> mgr_reachable m' \<and> hresp_status_code resp \<in> {200, 201, 400, 404, 409}"
proof -
  have "mgr_reachable demo_manager" by (simp add: demo_manager_def mgr_reachable.new)
  moreover have "slashed demo_manager"
    by (simp add: slashed_def has_stream_def rm_find_def demo_manager_def relay_manager_new_def)
  ultimately show ?thesis
    using api_safe [of demo_manager 8554 "demo_api_request ''DELETE'' ''/api/streams'' (delete_body ''/cam'')" "[]"]
    by blast
qed

section \<open>What the routes do not reach\<close>

text \<open>
  The route for one stream is never taken: the list route matches first, so a GET of
  \<open>/api/streams/\<close> and any path gets the list of all streams.
\<close>

theorem get_one_stream_lists_all:
  assumes "hreq_method req = ''GET''" and "hreq_path req = ''/api/streams/'' @ path"
  shows "api_serve port req (m, es) =
    Inr (set_json (list_json (get_all_stream_info m)) http_response_new, m, es)"
  using assms
  by (simp add: api_serve_def run_handler_def api_routes_def add_route_def route_matches_def api_list_def)

theorem get_one_stream_lists_all_witness:
  "api_serve 8554 (demo_api_request ''GET'' ''/api/streams/cam'' []) (demo_manager, []) =
    Inr (set_json (list_json (get_all_stream_info demo_manager)) http_response_new, demo_manager, [])"
  by (rule get_one_stream_lists_all [where path = "''cam''"]) (simp_all add: demo_api_request_def)

text \<open>
  A DELETE never works with the path in the query, which the handler reads: no route matches
  \<open>/api/streams?path=...\<close>, so the answer is 404 and nothing is removed.
\<close>

theorem delete_by_query_ignored:
  assumes "hreq_method req = ''DELETE''" and "hreq_path req = ''/api/streams?path='' @ path"
  shows "\<exists>resp. api_serve port req (m, es) = Inr (resp, m, es) \<and> hresp_status_code resp = 404"
  using assms
  by (simp add: api_serve_def run_handler_def api_routes_def add_route_def route_matches_def api_default_def)

theorem delete_by_query_ignored_witness:
  "\<exists>resp. api_serve 8554 (demo_api_request ''DELETE'' ''/api/streams?path=/cam'' []) (demo_manager, []) =
    Inr (resp, demo_manager, []) \<and> hresp_status_code resp = 404"
  by (rule delete_by_query_ignored [where path = "''/cam''"]) (simp_all add: demo_api_request_def)

text \<open>
  POST and DELETE name streams differently: POST puts a slash before a path that has none and
  DELETE does not, so a stream that was created without the slash is not found by the same name,
  and stays.
\<close>

theorem delete_needs_slash:
  assumes "hreq_method req = ''DELETE''" and "hreq_path req = ''/api/streams''"
    and "hreq_body req = delete_body path" and "CHR 0x22 \<notin> set path" and "path \<noteq> []"
    and "hd path \<noteq> CHR ''/''" and "slashed m"
  shows "\<exists>resp. api_serve port req (m, es) = Inr (resp, m, es) \<and> hresp_status_code resp = 404"
proof -
  have "delete_path req = path"
    using extract_path [OF assms(4), of "''}''"] assms(3,5) by (simp add: delete_path_def delete_body_def)
  moreover have "rm_find m path = None"
    using assms(6,7) by (auto simp: slashed_def has_stream_def)
  ultimately show ?thesis
    using assms(5) by (simp add: api_route_exact(2) [OF assms(2,1)] api_delete_def remove_stream_def)
qed

definition demo_cam :: "relay_manager" where
  "demo_cam = fst (snd (add_stream ''/cam'' ''rtsp://h/1'' demo_manager))"

theorem delete_needs_slash_witness:
  "\<exists>resp. api_serve 8554 (demo_api_request ''DELETE'' ''/api/streams'' (delete_body ''cam'')) (demo_cam, []) =
    Inr (resp, demo_cam, []) \<and> hresp_status_code resp = 404 \<and> has_stream ''/cam'' demo_cam"
proof -
  have "slashed demo_manager"
    by (simp add: slashed_def has_stream_def rm_find_def demo_manager_def relay_manager_new_def)
  moreover have "rm_inv demo_manager"
    using mgr_reachable_inv [of demo_manager] by (simp add: mgr_inv_def demo_manager_def mgr_reachable.new)
  moreover have "with_slash ''cam'' = ''/cam''" by (simp add: with_slash_def)
  ultimately have "slashed demo_cam"
    using slashed_add [of demo_manager "''cam''"] by (simp add: demo_cam_def prod_eq_iff)
  moreover have "has_stream ''/cam'' demo_cam" by code_simp
  ultimately show ?thesis
    using delete_needs_slash [of "demo_api_request ''DELETE'' ''/api/streams'' (delete_body ''cam'')" "''cam''" demo_cam 8554 "[]"]
    by (simp add: demo_api_request_def)
qed

end
