(* ===== verification/Protocol_Over_Tcp.thy ===== *)
theory Protocol_Over_Tcp
  imports Http_Api Rtsp_Session Tcp_Connection
begin

text \<open>
  The protocols on their connections: the message callbacks that \<open>HttpServer::start\<close> and
  \<open>RtspSession::start\<close> set, run by \<open>TcpConnection::handleRead\<close> on the event loop. A protocol keeps a
  log of its calls of \<open>send\<close> and \<open>shutdown\<close>; the callback makes the calls a chunk of input has added.
  The theorems compose the receive loops, the handlers, the connection and the loop: from the
  bytes the peer sends to the bytes written to its socket.
\<close>

section \<open>A protocol as a message callback\<close>

text \<open>
  \<open>run\<close> is the receive loop, \<open>calls\<close> the log. An exception leaves the callback, and nothing catches it:
  the state is then the error, and no further message is handled.
\<close>

definition log_cb ::
  "(byte_buffer \<Rightarrow> 's \<Rightarrow> (cpp_error + byte_buffer \<times> 's) option) \<Rightarrow> ('s \<Rightarrow> conn_call list) \<Rightarrow>
   (cpp_error + 's) message_cb" where
  "log_cb run calls u b =
     (case u of
        Inl e \<Rightarrow> ((u, b), [])
      | Inr s \<Rightarrow>
          (case run b s of
             None \<Rightarrow> ((u, b), [])
           | Some (Inl e) \<Rightarrow> ((Inl e, b), [])
           | Some (Inr (b', s')) \<Rightarrow> ((Inr s', b'), drop (length (calls s)) (calls s'))))"

definition http_call :: "http_effect \<Rightarrow> conn_call" where
  "http_call e = (case e of HttpSend d \<Rightarrow> CallSend d | HttpShutdown \<Rightarrow> CallShutdown)"

text \<open>The callback of \<open>HttpServer::start\<close>, and the one of \<open>RtspSession::start\<close>.\<close>

definition http_message_cb ::
  "'s http_route list \<Rightarrow> 's http_handler option \<Rightarrow> (cpp_error + http_conn \<times> 's) message_cb" where
  "http_message_cb routes dh = log_cb (http_on_message routes dh) (\<lambda>cs. map http_call (hc_out (fst cs)))"

definition rtsp_message_cb :: "(cpp_error + session_env) message_cb" where
  "rtsp_message_cb = log_cb handle_rtsp_message (\<lambda>e. map CallSend (ses_sent (env_out e)))"

section \<open>Calls and the input do not meet\<close>

text \<open>The state of the receiver: the input buffer and the user of the callbacks.\<close>

definition set_receiver :: "byte_buffer \<Rightarrow> 'u \<Rightarrow> 'u conn_world \<Rightarrow> 'u conn_world" where
  "set_receiver b u w = ((fst w)\<lparr>ce_user := u, ce_conn := (ce_conn (fst w))\<lparr>tc_input := b\<rparr>\<rparr>, snd w)"

lemma set_receiver_simps [simp]:
  "tc_input (conn_of (set_receiver b u w)) = b" "ce_user (fst (set_receiver b u w)) = u"
  "snd (set_receiver b u w) = snd w" "tc_fd (conn_of (set_receiver b u w)) = tc_fd (conn_of w)"
  "ce_writes (fst (set_receiver b u w)) = ce_writes (fst w)" "ce_trace (fst (set_receiver b u w)) = ce_trace (fst w)"
  "tc_state (conn_of (set_receiver b u w)) = tc_state (conn_of w)"
  "tc_output (conn_of (set_receiver b u w)) = tc_output (conn_of w)"
  "set_receiver b u (set_receiver b' u' w) = set_receiver b u w"
  by (simp_all add: set_receiver_def)

lemma set_receiver_id: "set_receiver (tc_input (conn_of w)) (ce_user (fst w)) w = w"
  by (simp add: set_receiver_def prod_eq_iff)

lemma send_receiver: "send_in_loop d (set_receiver b u w) = set_receiver b u (send_in_loop d w)"
proof -
  have buf: "buffer_output d (set_receiver b u w) = set_receiver b u (buffer_output d w)" for d w
    by (simp add: buffer_output_def enable_writing_def set_receiver_def)
  have err: "handle_error (set_receiver b u w) = set_receiver b u (handle_error w)" for w
    by (simp add: handle_error_def set_receiver_def Let_def)
  have emit: "((fst (set_receiver b u w))\<lparr>ce_trace := t\<rparr>, l) = set_receiver b u ((fst w)\<lparr>ce_trace := t\<rparr>, l)" for t l w
    by (simp add: set_receiver_def)
  have wr: "sock_write d (set_receiver b u w) = (fst (sock_write d w), set_receiver b u (snd (sock_write d w)))"
    by (simp add: sock_write_def set_receiver_def Let_def split: list.split write_result.split)
  show ?thesis
    by (simp add: send_in_loop_def wr buf err emit Let_def split_beta split: write_result.split)
qed

lemma call_receiver: "conn_do_call c (set_receiver b u w) = set_receiver b u (conn_do_call c w)"
  by (cases c) (simp add: conn_send_def send_receiver, simp add: conn_shutdown_def set_receiver_def)

lemma calls_receiver: "fold conn_do_call cs (set_receiver b u w) = set_receiver b u (fold conn_do_call cs w)"
  by (induction cs arbitrary: w) (simp_all add: call_receiver)

text \<open>While no write fails, the calls keep the descriptor.\<close>

definition writes_well :: "'u conn_world \<Rightarrow> bool" where
  "writes_well w \<longleftrightarrow> 0 \<le> tc_fd (conn_of w) \<and> WriteFailed \<notin> set (ce_writes (fst w))"

lemma writes_well_receiver [simp]: "writes_well (set_receiver b u w) = writes_well w"
  by (simp add: writes_well_def)

lemma writes_well_call: "writes_well w \<Longrightarrow> writes_well (conn_do_call c w)"
  by (cases c)
    (auto simp: writes_well_def conn_send_def send_in_loop_def sock_write_def buffer_output_def enable_writing_def
      conn_shutdown_def Let_def split: list.split write_result.split)

lemma writes_well_calls: "writes_well w \<Longrightarrow> writes_well (fold conn_do_call cs w)"
  by (induction cs arbitrary: w) (simp_all add: writes_well_call)

section \<open>A chunk at a time\<close>

text \<open>
  A read event on a connection whose callback is a receive loop with a log: the outcome is that of
  feeding the chunks to the loop, and the calls made are those the log has grown by.
\<close>

text \<open>No action takes anything out of the log.\<close>

definition log_grows :: "('i \<Rightarrow> 's \<Rightarrow> cpp_error + 's) \<Rightarrow> ('s \<Rightarrow> conn_call list) \<Rightarrow> bool" where
  "log_grows act calls \<longleftrightarrow> (\<forall>x s s'. act x s = Inr s' \<longrightarrow> prefix (calls s) (calls s'))"

lemma act_all_log:
  assumes "log_grows act calls"
  shows "act_all act xs s = Inr s' \<Longrightarrow> prefix (calls s) (calls s')"
proof (induction xs arbitrary: s)
  case (Cons x xs)
  obtain s1 where "act x s = Inr s1" "act_all act xs s1 = Inr s'" using Cons.prems by (auto split: sum.splits)
  with Cons.IH assms show ?case unfolding log_grows_def using prefix_order.trans by blast
qed simp

context framer
begin

lemma loop_log:
  assumes "log_grows act calls"
    and "bb_inv b" "message_loop nxt act b s = Some (Inr (b', s'))"
  shows "prefix (calls s) (calls s')"
  using loop_acts [OF assms(2,3)] act_all_log [OF assms(1)] by blast

lemma feed_log:
  assumes "log_grows act calls"
  shows "bb_inv b \<Longrightarrow> feed_chunks nxt act chunks b s = Some (Inr (b', s')) \<Longrightarrow> prefix (calls s) (calls s')"
proof (induction chunks arbitrary: b s)
  case (Cons c cs)
  have inv: "bb_inv (bb_append b c)" using Cons.prems(1) by (rule bb_inv_append)
  obtain b1 s1 where r: "message_loop nxt act (bb_append b c) s = Some (Inr (b1, s1))"
    "feed_chunks nxt act cs b1 s1 = Some (Inr (b', s'))"
    using Cons.prems(2) by (auto split: option.splits sum.splits)
  have "bb_inv b1" using loop_refines [OF inv, of act s] r(1) by blast
  with Cons.IH r loop_log [OF assms inv r(1)] show ?case
    using prefix_order.trans by blast
qed simp

text \<open>
  A read event on a connection whose callback is a receive loop with a log: the outcome is that of
  feeding the chunks to the loop, and the calls made are those the log has grown by.
\<close>

lemma read_loop_feed:
  assumes "log_grows act calls"
    and "run = message_loop nxt act"
  shows "bb_inv (tc_input (conn_of w)) \<Longrightarrow> ce_user (fst w) = Inr s \<Longrightarrow> writes_well w \<Longrightarrow>
    feed_chunks nxt act chunks (tc_input (conn_of w)) s = Some (Inr (b', s')) \<Longrightarrow>
    read_loop (log_cb run calls) (map ReadBytes chunks) w =
      set_receiver b' (Inr s') (fold conn_do_call (drop (length (calls s)) (calls s')) w)"
proof (induction chunks arbitrary: w s)
  case Nil
  then have "b' = tc_input (conn_of w)" "Inr s' = ce_user (fst w)" by simp_all
  with Nil show ?case using set_receiver_id [of w] by (auto simp: writes_well_def)
next
  case (Cons c cs)
  let ?b = "bb_append (tc_input (conn_of w)) c"
  have inv: "bb_inv ?b" using Cons.prems(1) by (rule bb_inv_append)
  obtain b1 s1 where r: "message_loop nxt act ?b s = Some (Inr (b1, s1))"
    "feed_chunks nxt act cs b1 s1 = Some (Inr (b', s'))"
    using Cons.prems(4) by (auto split: option.splits sum.splits)
  have b1: "bb_inv b1" using loop_refines [OF inv, of act s] r(1) by blast
  define new where "new = drop (length (calls s)) (calls s1)"
  define w1 where "w1 = set_receiver b1 (Inr s1) (fold conn_do_call new w)"
  have "call_message (log_cb run calls) (on_conn (\<lambda>c'. c'\<lparr>tc_input := ?b\<rparr>) w) =
      fold conn_do_call new (set_receiver b1 (Inr s1) w)"
    using Cons.prems(2) r(1) by (simp add: call_message_def log_cb_def assms(2) new_def set_receiver_def)
  then have step: "read_loop (log_cb run calls) (map ReadBytes (c # cs)) w = read_loop (log_cb run calls) (map ReadBytes cs) w1"
    using Cons.prems(3) by (simp add: writes_well_def calls_receiver w1_def)
  have "prefix (calls s) (calls s1)" "prefix (calls s1) (calls s')"
    using loop_log [OF assms(1) inv r(1)] feed_log [OF assms(1) b1 r(2)] by blast+
  then have calls: "drop (length (calls s)) (calls s') = new @ drop (length (calls s1)) (calls s')"
    by (auto simp: prefix_def new_def)
  have "read_loop (log_cb run calls) (map ReadBytes cs) w1 =
      set_receiver b' (Inr s') (fold conn_do_call (drop (length (calls s1)) (calls s')) w1)"
    using Cons.IH [of w1 s1] Cons.prems(3) b1 r(2) by (simp add: w1_def writes_well_calls)
  then show ?case unfolding step calls by (simp add: w1_def calls_receiver)
qed

end

section \<open>One read event\<close>

text \<open>A connection that was just accepted on a loop of its own, with what its socket has and takes.\<close>

lemma partition_nil: "partition_ok part \<Longrightarrow> part P [] = ([], [])"
proof -
  assume "partition_ok part"
  then have "mset (fst (part P [])) = {#}" "mset (snd (part P [])) = {#}" by (simp_all add: partition_ok_def)
  then show ?thesis by (simp add: prod_eq_iff)
qed

lemma fresh_empty: "tsb_readable (tsb_new 16384) = 0"
  by (simp add: tsb_readable_def tsb_new_def bb_readable_def byte_buffer_new_def)

definition ready_conn :: "int \<Rightarrow> bytes \<Rightarrow> 'u \<Rightarrow> read_result list \<Rightarrow> write_result list \<Rightarrow> conn_closure event_loop \<Rightarrow> 'u conn_world" where
  "ready_conn fd peer u rs ws el =
     ((fst (conn_fresh fd peer u el))\<lparr>ce_reads := rs, ce_writes := ws\<rparr>, snd (conn_fresh fd peer u el))"

lemma ready_conn_facts:
  "tc_fd (conn_of (ready_conn fd peer u rs ws el)) = fd" "tc_state (conn_of (ready_conn fd peer u rs ws el)) = ConnConnected"
  "tc_input (conn_of (ready_conn fd peer u rs ws el)) = byte_buffer_new 4096"
  "tsb_readable (tc_output (conn_of (ready_conn fd peer u rs ws el))) = 0"
  "ce_reads (fst (ready_conn fd peer u rs ws el)) = rs" "ce_writes (fst (ready_conn fd peer u rs ws el)) = ws"
  "ce_trace (fst (ready_conn fd peer u rs ws el)) = []" "ce_user (fst (ready_conn fd peer u rs ws el)) = u"
  "snd (ready_conn fd peer u rs ws el) = add_fd fd kEventRead (LoopClient OnEvents) el"
  by (simp_all add: ready_conn_def conn_fresh_def conn_start_def tcp_connection_new_def fresh_empty)

text \<open>A turn of the loop that finds the socket readable is a read.\<close>

lemma readable_round:
  assumes "partition_ok part" "fd \<noteq> efd"
    and "w = ready_conn fd peer u rs ws (event_loop_new self efd)"
  shows "loop_rounds part (conn_exec msg) ((t, PollReady [(fd, EPOLLIN)]) # env) w =
    loop_rounds part (conn_exec msg) env (handle_read msg w)"
proof -
  have el: "el_quit (snd w) = False" "el_pending (snd w) = []" "el_timers (snd w) = []"
    "entry_of (snd w) fd = Some \<lparr>fe_events = kEventRead, fe_read_cb = Some (LoopClient OnEvents), fe_write_cb = None,
       fe_error_cb = None, fe_node = 1\<rparr>"
    using assms(2) unfolding assms(3)
    by (simp_all add: ready_conn_facts event_loop_new_def add_fd_eq Let_def kEventRead_def kEventWrite_def kEventError_def)
  have self: "(fst w, (snd w)\<lparr>el_pending := []\<rparr>) = w" "(fst w, (snd w)\<lparr>el_timers := []\<rparr>) = w"
    using el(2,3) by (simp_all add: prod_eq_iff)
  have "process_tasks (conn_exec msg) w = w" using el(2) self(1) by (simp add: process_tasks_def Let_def)
  moreover have "process_timers part (conn_exec msg) t w = w"
    using el(3) self(2) partition_nil [OF assms(1)] by (simp add: process_timers_def)
  moreover have "dispatch_event (conn_exec msg) (fd, EPOLLIN) w = Inr (handle_read msg w)"
    by (simp add: dispatch_event_def el(4) call_cb_def EPOLLIN_def EPOLLOUT_def EPOLLERR_def EPOLLHUP_def
        kEventRead_def kEventError_def Let_def)
  ultimately show ?thesis using el(1) by (simp add: Let_def)
qed

text \<open>With a receive loop as the callback, it feeds the loop and makes the calls.\<close>

context framer
begin

lemma feed_exchange:
  assumes "log_grows act calls" and "feed_chunks nxt act chunks (byte_buffer_new 4096) s = Some (Inr (b, s'))"
    and "0 \<le> fd" "fd \<noteq> efd" "partition_ok part" "WriteFailed \<notin> set ws"
  shows "loop_rounds part (conn_exec (log_cb (message_loop nxt act) calls)) ((t, PollReady [(fd, EPOLLIN)]) # env)
      (ready_conn fd peer (Inr s) (map ReadBytes chunks) ws (event_loop_new self efd)) =
    loop_rounds part (conn_exec (log_cb (message_loop nxt act) calls)) env
      (set_receiver b (Inr s') (fold conn_do_call (drop (length (calls s)) (calls s'))
        (ready_conn fd peer (Inr s) [] ws (event_loop_new self efd))))"
proof -
  let ?w = "ready_conn fd peer (Inr s :: cpp_error + _) (map ReadBytes chunks) ws (event_loop_new self efd)"
  have r: "((fst ?w)\<lparr>ce_reads := []\<rparr>, snd ?w) = ready_conn fd peer (Inr s) [] ws (event_loop_new self efd)"
    by (simp add: ready_conn_def conn_fresh_def conn_start_def)
  have "handle_read (log_cb (message_loop nxt act) calls) ?w =
      set_receiver b (Inr s') (fold conn_do_call (drop (length (calls s)) (calls s'))
        (ready_conn fd peer (Inr s) [] ws (event_loop_new self efd)))"
    unfolding handle_read_def r ready_conn_facts(5)
    using assms(2,3,6)
    by (intro read_loop_feed [OF assms(1) refl]) (simp_all add: ready_conn_facts bb_inv_new writes_well_def)
  then show ?thesis by (simp only: readable_round [OF assms(5,4) refl])
qed

end

section \<open>HTTP\<close>

lemma http_log_grows: "log_grows (http_dispatch routes dh) (\<lambda>cs. map http_call (hc_out (fst cs)))"
  by (auto simp: log_grows_def http_dispatch_def http_conn_send_def http_conn_shutdown_def split: sum.splits if_splits)

text \<open>A send that the kernel takes whole, and the shutdowns after it.\<close>

lemma send_whole:
  assumes "tc_state (conn_of w) = ConnConnected" "tsb_readable (tc_output (conn_of w)) = 0"
    "0 \<le> tc_fd (conn_of w)" "ce_writes (fst w) = Wrote n # ws" "length d \<le> n"
  shows "conn_do_call (CallSend d) w = ((fst w)\<lparr>ce_writes := ws, ce_trace := ce_trace (fst w) @ [SockWrite d, CallWriteComplete]\<rparr>, snd w)"
  using assms by (simp add: conn_send_def send_in_loop_def sock_write_def Let_def min_def)

lemma shutdown_calls:
  "fold conn_do_call (replicate m CallShutdown) w =
    (if m = 0 then w
     else (on_conn (\<lambda>c. c\<lparr>tc_state := ConnDisconnecting\<rparr>)
       (fst w, (snd w)\<lparr>el_pending := el_pending (snd w) @ replicate m ShutdownTask, el_wakeup := el_wakeup (snd w) + m\<rparr>)))"
proof (induction m arbitrary: w)
  case (Suc m)
  have "conn_do_call CallShutdown w = on_conn (\<lambda>c. c\<lparr>tc_state := ConnDisconnecting\<rparr>)
      (fst w, (snd w)\<lparr>el_pending := el_pending (snd w) @ [ShutdownTask], el_wakeup := Suc (el_wakeup (snd w))\<rparr>)"
    by (simp add: conn_shutdown_def run_in_loop_def wakeup_def push_task_def)
  with Suc show ?case by simp
qed simp

lemma shutdown_tasks:
  "tsb_readable (tc_output (conn_of w)) = 0 \<Longrightarrow>
    fold (\<lambda>t. conn_exec msg (RunTask t)) (replicate m ShutdownTask) w =
      conn_emit (replicate m (SockShutdown (tc_fd (conn_of w)))) w"
proof (induction m arbitrary: w)
  case (Suc m)
  then show ?case using Suc.IH [of "conn_emit [SockShutdown (tc_fd (conn_of w))] w"] by (simp add: shutdown_task_def)
qed simp

text \<open>A response that the kernel takes whole, the shutdowns after it, and the turn of the loop that runs them.\<close>

lemma respond_round:
  assumes "partition_ok part" "0 \<le> fd" "fd \<noteq> efd" "length d \<le> n" "m \<noteq> 0"
  shows "\<exists>w. loop_rounds part (conn_exec msg) [(t, PollReady [])]
      (set_receiver b u (fold conn_do_call (CallSend d # replicate m CallShutdown)
        (ready_conn fd peer u0 [] [Wrote n] (event_loop_new self efd)))) = Inr w \<and>
    ce_trace (fst w) = [SockWrite d, CallWriteComplete] @ replicate m (SockShutdown fd) \<and> ce_user (fst w) = u"
proof -
  let ?w = "ready_conn fd peer u0 [] [Wrote n] (event_loop_new self efd)"
  let ?w2 = "on_conn (\<lambda>c. c\<lparr>tc_state := ConnDisconnecting\<rparr>)
      ((fst ?w)\<lparr>ce_writes := [], ce_trace := [SockWrite d, CallWriteComplete]\<rparr>,
       (snd ?w)\<lparr>el_pending := replicate m ShutdownTask, el_wakeup := el_wakeup (snd ?w) + m\<rparr>)"
  define w1 where "w1 = set_receiver b u ?w2"
  have el: "el_pending (snd ?w) = []" "el_timers (snd ?w) = []" "el_quit (snd ?w) = False"
    by (simp_all add: ready_conn_facts event_loop_new_def add_fd_eq Let_def)
  have sent: "set_receiver b u (fold conn_do_call (CallSend d # replicate m CallShutdown) ?w) = w1"
    using send_whole [of ?w n "[]" d] assms(2,4,5) el
    by (simp add: w1_def shutdown_calls ready_conn_facts del: fold_replicate)
  have "process_tasks (conn_exec msg) w1 =
      conn_emit (replicate m (SockShutdown fd)) (fst w1, (snd w1)\<lparr>el_pending := []\<rparr>)"
    by (simp add: process_tasks_def Let_def w1_def shutdown_tasks ready_conn_facts del: fold_replicate)
  then have "process_timers part (conn_exec msg) t (process_tasks (conn_exec msg) w1) =
      conn_emit (replicate m (SockShutdown fd)) (fst w1, (snd w1)\<lparr>el_pending := []\<rparr>)"
    using el partition_nil [OF assms(1)] by (simp add: process_timers_def w1_def)
  then have "loop_rounds part (conn_exec msg) [(t, PollReady [])] w1 =
      Inr (conn_emit (replicate m (SockShutdown fd)) (fst w1, (snd w1)\<lparr>el_pending := []\<rparr>))"
    using el by (simp add: w1_def Let_def)
  then show ?thesis unfolding sent by (auto simp: w1_def)
qed

text \<open>
  C6. One HTTP exchange, from the bytes of the client to the calls on its socket: whatever
  well-formed requests a client writes on a connection and however TCP cuts them, the turn of the
  event loop that finds the socket readable runs the handler of every request in order, writes
  exactly the response to the first one, and the next turn shuts the write side down, once for each
  request; nothing else is written.
\<close>

theorem http_exchange:
  assumes "list_all request_ok reqs" and "reqs \<noteq> []"
    and "concat chunks = concat (map print_request reqs)" and "chunks \<noteq> []" and "length (concat chunks) < 2 ^ 31"
    and "serve_all routes dh reqs s = Inr (resps, s')"
    and "length (http_serialize (hd resps)) \<le> n" and "0 \<le> fd" and "fd \<noteq> efd" and "partition_ok part"
  shows "\<exists>w c. loop_rounds part (conn_exec (http_message_cb routes dh)) [(t, PollReady [(fd, EPOLLIN)]), (t', PollReady [])]
      (ready_conn fd peer (Inr (http_conn_new, s)) (map ReadBytes chunks) [Wrote n] (event_loop_new self efd)) = Inr w \<and>
    ce_trace (fst w) = [SockWrite (http_serialize (hd resps)), CallWriteComplete] @ replicate (length reqs) (SockShutdown fd) \<and>
    ce_user (fst w) = Inr (c, s')"
proof -
  let ?msg = "http_message_cb routes dh"
  let ?d = "http_serialize (hd resps)"
  let ?m = "length reqs"
  let ?c = "\<lparr>hc_connected = False, hc_out = HttpSend ?d # replicate ?m HttpShutdown\<rparr>"
  obtain b where feed: "feed_chunks http_next (http_dispatch routes dh) chunks (byte_buffer_new 4096) (http_conn_new, s) =
      Some (Inr (b, ?c, s'))"
    using http_served [OF assms(1-6)] by blast
  have calls: "drop (length (map http_call (hc_out (fst (http_conn_new, s))))) (map http_call (hc_out (fst (?c, s')))) =
      CallSend ?d # replicate ?m CallShutdown"
    by (simp add: http_call_def http_conn_new_def)
  have "http_on_message routes dh = message_loop http_next (http_dispatch routes dh)"
    by (simp add: http_on_message_def fun_eq_iff)
  then have msg: "?msg = log_cb (message_loop http_next (http_dispatch routes dh)) (\<lambda>cs. map http_call (hc_out (fst cs)))"
    by (simp only: http_message_cb_def)
  have "WriteFailed \<notin> set [Wrote n]" by simp
  from httpf.feed_exchange [OF http_log_grows feed assms(8-10) this, folded msg, unfolded calls]
  show ?thesis
    using respond_round [OF assms(10) assms(8,9,7), of ?m ?msg t' b "Inr (?c, s')" peer "Inr (http_conn_new, s)" self] assms(2)
    by (auto simp del: fold.simps)
qed

text \<open>A request for the statistics of a relay without streams, cut after three bytes.\<close>

theorem http_exchange_witness:
  "\<exists>w c. loop_rounds List.partition (conn_exec (http_message_cb (api_routes 8554) (Some api_default)))
      [(0, PollReady [(9, EPOLLIN)]), (1, PollReady [])]
      (ready_conn 9 ''10.0.0.5:40000'' (Inr (http_conn_new, demo_manager, []))
        (map ReadBytes [take 3 (print_request demo_get), drop 3 (print_request demo_get)]) [Wrote 1000] (event_loop_new 0 7)) = Inr w \<and>
    ce_trace (fst w) =
      [SockWrite (''HTTP/1.1 200 OK'' @ CRLF @ ''Content-Length: 52'' @ CRLF @ ''Connection: close'' @ CRLF @
         ''Content-Type: application/json; charset=utf-8'' @ CRLF2 @
         ''{\"code\":0,\"data\":{\"stream_count\":0,\"total_sinks\":0}}''), CallWriteComplete, SockShutdown 9] \<and>
    ce_user (fst w) = Inr (c, demo_manager, [])"
proof -
  let ?wire = "print_request demo_get"
  let ?resp = "set_json ''{\"code\":0,\"data\":{\"stream_count\":0,\"total_sinks\":0}}'' http_response_new"
  have "list_all request_ok [demo_get]" by code_simp
  moreover have "concat [take 3 ?wire, drop 3 ?wire] = concat (map print_request [demo_get])"
    by (simp only: concat.simps append_Nil2 append_take_drop_id list.map)
  moreover have "length (concat [take 3 ?wire, drop 3 ?wire]) < 2 ^ 31" by code_simp
  moreover have "serve_all (api_routes 8554) (Some api_default) [demo_get] (demo_manager, []) = Inr ([?resp], demo_manager, [])"
    by code_simp
  moreover have "length (http_serialize (hd [?resp])) \<le> 1000" by code_simp
  ultimately obtain w c where w:
    "loop_rounds List.partition (conn_exec (http_message_cb (api_routes 8554) (Some api_default)))
      [(0, PollReady [(9, EPOLLIN)]), (1, PollReady [])]
      (ready_conn 9 ''10.0.0.5:40000'' (Inr (http_conn_new, demo_manager, []))
        (map ReadBytes [take 3 ?wire, drop 3 ?wire]) [Wrote 1000] (event_loop_new 0 7)) = Inr w"
    "ce_trace (fst w) = [SockWrite (http_serialize (hd [?resp])), CallWriteComplete] @ replicate (length [demo_get]) (SockShutdown 9)"
    "ce_user (fst w) = Inr (c, demo_manager, [])"
    using http_exchange [of "[demo_get]" "[take 3 ?wire, drop 3 ?wire]" "api_routes 8554" "Some api_default"
        "(demo_manager, [])" "[?resp]" "(demo_manager, [])" 1000 9 7 List.partition 0 1 "''10.0.0.5:40000''" 0]
    by (auto simp: partition_stable_ok)
  moreover have "http_serialize (hd [?resp]) = ''HTTP/1.1 200 OK'' @ CRLF @ ''Content-Length: 52'' @ CRLF @
      ''Connection: close'' @ CRLF @ ''Content-Type: application/json; charset=utf-8'' @ CRLF2 @
      ''{\"code\":0,\"data\":{\"stream_count\":0,\"total_sinks\":0}}''" by code_simp
  ultimately show ?thesis by (intro exI [of _ w] exI [of _ c]) (simp only: list.size replicate.simps append.simps, simp)
qed

section \<open>RTSP\<close>

text \<open>A session after a list of frames, and the requests among them.\<close>

fun session_after :: "rtsp_frame list \<Rightarrow> session_env \<Rightarrow> session_env" where
  "session_after [] e = e"
| "session_after (Interleaved ch d # fs) e = session_after fs e"
| "session_after (Message m # fs) e = session_after fs (process_request m e)"

fun requests_of :: "rtsp_frame list \<Rightarrow> rtsp_message list" where
  "requests_of [] = []"
| "requests_of (Interleaved ch d # fs) = requests_of fs"
| "requests_of (Message m # fs) = (if msg_type m = KRequest then m # requests_of fs else requests_of fs)"

lemma act_all_session: "act_all session_on_frame fs e = Inr (session_after fs e)"
  by (induction fs e rule: session_after.induct) (simp_all add: session_on_frame_def)

lemma process_other: "msg_type m \<noteq> KRequest \<Longrightarrow> process_request m e = e"
  by (simp add: process_request_def)

lemma rtsp_log_grows: "log_grows session_on_frame (\<lambda>e. map CallSend (ses_sent (env_out e)))"
  unfolding log_grows_def
proof (intro allI impI)
  fix f e e' assume "session_on_frame f e = Inr e'"
  then have "ses_sent (env_out e') = ses_sent (env_out e) \<or> (\<exists>d. ses_sent (env_out e') = ses_sent (env_out e) @ [d])"
    using answers_request [of _ e] process_other [of _ e]
    by (cases f) (auto simp: session_on_frame_def answers_def, metis)
  then show "prefix (map CallSend (ses_sent (env_out e))) (map CallSend (ses_sent (env_out e')))" by auto
qed

text \<open>What a session sends for a list of frames: an answer to each request.\<close>

definition answers_to :: "rtsp_message \<Rightarrow> rtsp_message \<Rightarrow> bool" where
  "answers_to req resp \<longleftrightarrow> msg_type resp = KResponse \<and> msg_cseq resp = msg_cseq req"

lemma session_after_answers:
  "\<exists>resps. ses_sent (env_out (session_after fs e)) = ses_sent (env_out e) @ map rtsp_serialize resps \<and>
    list_all2 answers_to (requests_of fs) resps"
proof (induction fs e rule: session_after.induct)
  case (1 e)
  show ?case by (rule exI [of _ "[]"]) simp
next
  case (3 m fs e)
  then obtain resps where r: "ses_sent (env_out (session_after fs (process_request m e))) =
      ses_sent (env_out (process_request m e)) @ map rtsp_serialize resps" "list_all2 answers_to (requests_of fs) resps"
    by blast
  show ?case
  proof (cases "msg_type m = KRequest")
    case True
    then obtain resp where "ses_sent (env_out (process_request m e)) = ses_sent (env_out e) @ [rtsp_serialize resp]"
      "answers_to m resp"
      using answers_request [OF True, of e] by (auto simp: answers_def answers_to_def)
    with r True show ?thesis by (intro exI [of _ "resp # resps"]) simp
  qed (use r process_other in \<open>auto intro!: exI [of _ resps]\<close>)
qed simp

lemma requests_of_received:
  "list_all2 answers_to (requests_of (map received_frame fs)) resps = list_all2 answers_to (requests_of fs) resps"
proof -
  have "msg_type (rtsp_received m) = msg_type m" "msg_cseq (rtsp_received m) = msg_cseq m" for m
    by (simp_all add: rtsp_received_def Let_def)
  then show ?thesis
    by (induction fs arbitrary: resps rule: requests_of.induct) (auto simp: list_all2_Cons1 answers_to_def)
qed

text \<open>Sends that the kernel takes whole.\<close>

lemma sends_whole:
  assumes "tc_state (conn_of w) = ConnConnected" "tsb_readable (tc_output (conn_of w)) = 0" "0 \<le> tc_fd (conn_of w)"
  shows "ce_writes (fst w) = map (\<lambda>d. Wrote (length d)) ds \<Longrightarrow>
    fold conn_do_call (map CallSend ds) w =
      ((fst w)\<lparr>ce_writes := [], ce_trace := ce_trace (fst w) @ concat (map (\<lambda>d. [SockWrite d, CallWriteComplete]) ds)\<rparr>, snd w)"
  using assms
proof (induction ds arbitrary: w)
  case Nil
  then show ?case by (simp add: prod_eq_iff)
next
  case (Cons d ds)
  have "conn_do_call (CallSend d) w = ((fst w)\<lparr>ce_writes := map (\<lambda>d. Wrote (length d)) ds,
      ce_trace := ce_trace (fst w) @ [SockWrite d, CallWriteComplete]\<rparr>, snd w)"
    using Cons.prems by (intro send_whole [where n = "length d"]) simp_all
  then show ?case using Cons.prems by (simp add: Cons.IH del: conn_do_call.simps)
qed

lemma wire_sends: "wire (concat (map (\<lambda>d. [SockWrite d, CallWriteComplete]) ds)) = concat ds"
  by (induction ds) simp_all

text \<open>
  C5. One RTSP exchange, from the bytes of the player to the bytes on its socket: whatever messages and
  interleaved packets a player sends and however TCP cuts them, the turn of the event loop that
  finds the socket readable handles all of them in order, and writes exactly one response for
  each request, in the order of the requests and with their sequence numbers, and nothing else
  (as long as the kernel takes each response whole).
\<close>

theorem rtsp_exchange:
  fixes e :: session_env
  defines "sent \<equiv> \<lambda>fs. drop (length (ses_sent (env_out e))) (ses_sent (env_out (session_after (map received_frame fs) e)))"
  assumes "list_all frame_ok fs" and "concat chunks = concat (map print_frame fs)" and "chunks \<noteq> []"
    and "length (concat chunks) < 2 ^ 31"
    and "0 \<le> fd" and "fd \<noteq> efd" and "partition_ok part"
    and "ws = map (\<lambda>d. Wrote (length d)) (sent fs)"
  shows "\<exists>w resps. loop_rounds part (conn_exec rtsp_message_cb) [(t, PollReady [(fd, EPOLLIN)])]
      (ready_conn fd peer (Inr e) (map ReadBytes chunks) ws (event_loop_new self efd)) = Inr w \<and>
    ce_user (fst w) = Inr (session_after (map received_frame fs) e) \<and>
    written w = concat (map rtsp_serialize resps) \<and> list_all2 answers_to (requests_of fs) resps"
proof -
  let ?e = "session_after (map received_frame fs) e"
  let ?r = "ready_conn fd peer (Inr e :: cpp_error + _) [] ws (event_loop_new self efd)"
  obtain b where feed: "feed_chunks rtsp_next_frame session_on_frame chunks (byte_buffer_new 4096) e = Some (Inr (b, ?e))"
    using rtsp_feed_printed [OF assms(2-5) act_all_session] by blast
  obtain resps where r: "ses_sent (env_out ?e) = ses_sent (env_out e) @ map rtsp_serialize resps"
    "list_all2 answers_to (requests_of fs) resps"
    using session_after_answers [of "map received_frame fs" e] requests_of_received by blast
  then have sent: "sent fs = map rtsp_serialize resps" by (simp add: sent_def)
  have "handle_rtsp_message = message_loop rtsp_next_frame session_on_frame"
    by (simp add: handle_rtsp_message_def fun_eq_iff)
  then have cb: "rtsp_message_cb = log_cb (message_loop rtsp_next_frame session_on_frame) (\<lambda>e. map CallSend (ses_sent (env_out e)))"
    by (simp only: rtsp_message_cb_def)
  have ok: "WriteFailed \<notin> set ws" using assms(9) by auto
  let ?w = "set_receiver b (Inr ?e)
      ((fst ?r)\<lparr>ce_writes := [], ce_trace := concat (map (\<lambda>d. [SockWrite d, CallWriteComplete]) (sent fs))\<rparr>, snd ?r)"
  have "fold conn_do_call (map CallSend (sent fs)) ?r =
      ((fst ?r)\<lparr>ce_writes := [], ce_trace := concat (map (\<lambda>d. [SockWrite d, CallWriteComplete]) (sent fs))\<rparr>, snd ?r)"
    using assms(6,9) by (subst sends_whole) (simp_all add: ready_conn_facts)
  moreover have "drop (length (map CallSend (ses_sent (env_out e)))) (map CallSend (ses_sent (env_out ?e))) =
      map CallSend (sent fs)"
    by (simp add: sent_def drop_map)
  ultimately have "loop_rounds part (conn_exec rtsp_message_cb) [(t, PollReady [(fd, EPOLLIN)])]
      (ready_conn fd peer (Inr e) (map ReadBytes chunks) ws (event_loop_new self efd)) = Inr ?w"
    unfolding cb rtspf.feed_exchange [OF rtsp_log_grows feed assms(6-8) ok] by simp
  moreover have "written ?w = concat (map rtsp_serialize resps)"
    by (simp add: wire_sends sent del: map_map)
  moreover have "ce_user (fst ?w) = Inr ?e" by simp
  ultimately show ?thesis using r(2) by blast
qed

text \<open>OPTIONS and a keep-alive, after a packet the session ignores.\<close>

definition demo_frames :: "rtsp_frame list" where
  "demo_frames = [Interleaved 0 ''x'', Message (request_new KOptions ''*'' 1), Message (request_new KGetParameter ''*'' 2)]"

theorem rtsp_exchange_witness:
  "let wire = concat (map print_frame demo_frames);
       answers = [rtsp_serialize (set_header ''Session'' ''0a1b2c3d'' (options_response 1)), rtsp_serialize (ok_response 2 ''0a1b2c3d'')]
   in \<exists>w. loop_rounds List.partition (conn_exec rtsp_message_cb) [(0, PollReady [(9, EPOLLIN)])]
        (ready_conn 9 [] (Inr demo_session) (map ReadBytes [wire]) (map (\<lambda>d. Wrote (length d)) answers) (event_loop_new 0 7)) = Inr w \<and>
      (\<exists>resps. written w = concat (map rtsp_serialize resps) \<and> map msg_cseq resps = [1, 2])"
proof -
  let ?wire = "concat (map print_frame demo_frames)"
  let ?e = "session_after (map received_frame demo_frames) demo_session"
  let ?answers = "[rtsp_serialize (set_header ''Session'' ''0a1b2c3d'' (options_response 1)), rtsp_serialize (ok_response 2 ''0a1b2c3d'')]"
  have ok: "list_all frame_ok demo_frames" by code_simp
  have wire: "concat [?wire] = ?wire" "[?wire] \<noteq> []" by simp_all
  have len: "length (concat [?wire]) < 2 ^ 31" by code_simp
  have "drop (length (ses_sent (env_out demo_session))) (ses_sent (env_out ?e)) = ?answers" by code_simp
  then have ws: "map (\<lambda>d. Wrote (length d)) ?answers =
      map (\<lambda>d. Wrote (length d)) (drop (length (ses_sent (env_out demo_session))) (ses_sent (env_out ?e)))"
    by (simp only:)
  have fds: "(0::int) \<le> 9" "(9::int) \<noteq> 7" by simp_all
  obtain w resps where w:
    "loop_rounds List.partition (conn_exec rtsp_message_cb) [(0, PollReady [(9, EPOLLIN)])]
      (ready_conn 9 [] (Inr demo_session) (map ReadBytes [?wire]) (map (\<lambda>d. Wrote (length d)) ?answers) (event_loop_new 0 7)) = Inr w"
    "ce_user (fst w) = Inr ?e" "written w = concat (map rtsp_serialize resps)"
    "list_all2 answers_to (requests_of demo_frames) resps"
    using rtsp_exchange [OF ok wire len fds partition_stable_ok ws, of 0 "[]" 0] by (elim exE conjE)
  have "map msg_cseq resps = [1, 2]"
    using w(4) by (auto simp: demo_frames_def list_all2_Cons1 answers_to_def request_new_def)
  with w(1,3) show ?thesis unfolding Let_def by (intro exI [of _ w] exI [of _ resps] conjI)
qed

end
