(* ===== verification/Event_Loop_Kqueue.thy ===== *)
theory Event_Loop_Kqueue
  imports Event_Loop
begin

text \<open>
  The macOS branch of \<open>src/src/event_loop.cpp\<close>: \<open>kevent\<close> in the place of \<open>epoll_ctl\<close> and
  \<open>epoll_wait\<close>, a pipe in the place of the eventfd. The branches share the entries, the tasks and
  the timers; the theorems show that they also do the same: the loop runs the same callbacks in the
  same order on corresponding events, and the two kernels watch the same descriptors.
\<close>

section \<open>Operations\<close>

text \<open>A change of a filter: \<open>True\<close> is \<open>EV_ADD | EV_ENABLE\<close>, \<open>False\<close> is \<open>EV_DELETE\<close>.\<close>

definition kq_add_fd :: "int \<Rightarrow> u32 \<Rightarrow> 'c loop_cb \<Rightarrow> 'c event_loop \<Rightarrow> 'c event_loop" where
  "kq_add_fd fd events cb el =
     (let el = add_entry fd events cb el;
          el = (if has_event events kEventRead then poll_call (KevChanges [(fd, KevRead, True)]) el else el)
      in if has_event events kEventWrite then poll_call (KevChanges [(fd, KevWrite, True)]) el else el)"

definition kq_mod_fd :: "int \<Rightarrow> u32 \<Rightarrow> 'c event_loop \<Rightarrow> 'c event_loop" where
  "kq_mod_fd fd events el =
     (case mod_entry fd events el of
        None \<Rightarrow> el
      | Some el \<Rightarrow>
          poll_call (KevChanges [(fd, KevRead, has_event events kEventRead),
                                 (fd, KevWrite, has_event events kEventWrite)]) el)"

definition kq_del_fd :: "int \<Rightarrow> 'c event_loop \<Rightarrow> 'c event_loop" where
  "kq_del_fd fd el = poll_call (KevChanges [(fd, KevRead, False), (fd, KevWrite, False)]) (del_entry fd el)"

text \<open>One byte into the pipe, which refuses it when it holds \<open>cap\<close> bytes.\<close>

definition kq_wakeup :: "nat \<Rightarrow> 'c event_loop \<Rightarrow> 'c event_loop" where
  "kq_wakeup cap el = (if el_wakeup el < cap then el\<lparr>el_wakeup := Suc (el_wakeup el)\<rparr> else el)"

text \<open>The loop reads up to 256 bytes at a time until the pipe is empty.\<close>

function kq_drain_pipe :: "nat \<Rightarrow> nat" where
  "kq_drain_pipe n = (let k = min 256 n in if k = 0 then n else kq_drain_pipe (n - k))"
  by pat_completeness auto
termination by (relation "measure id") auto

declare kq_drain_pipe.simps [simp del]

definition kq_handle_wakeup :: "'c event_loop \<Rightarrow> 'c event_loop" where
  "kq_handle_wakeup el = el\<lparr>el_wakeup := kq_drain_pipe (el_wakeup el)\<rparr>"

definition kq_event_loop_new :: "nat \<Rightarrow> int \<Rightarrow> 'c event_loop" where
  "kq_event_loop_new self pipe_read =
     kq_add_fd pipe_read kEventRead LoopWakeup
       \<lparr>el_quit = False, el_thread = self, el_wakeup = 0, el_pending = [], el_fds = [], el_nodes = 0,
        el_timers = [], el_next_timer_id = 1, el_ctl = []\<rparr>"

text \<open>Seconds and nanoseconds of a wait in milliseconds.\<close>

definition kq_timespec :: "int \<Rightarrow> int \<times> int" where
  "kq_timespec timeout = (timeout div 1000, (timeout mod 1000) * 1000000)"

section \<open>The loop\<close>

definition EV_EOF :: u32 where "EV_EOF = 0x8000"

type_synonym kevent = "int \<times> kev_filter \<times> u32"

definition kq_call_cb ::
  "('s, 'c) loop_exec \<Rightarrow> 'c loop_cb option \<Rightarrow> int \<Rightarrow> u32 \<Rightarrow> 's \<times> 'c event_loop \<Rightarrow> 's \<times> 'c event_loop" where
  "kq_call_cb exec cb fd ev w =
     (case cb of
        None \<Rightarrow> w
      | Some LoopWakeup \<Rightarrow> (fst w, kq_handle_wakeup (snd w))
      | Some (LoopClient c) \<Rightarrow> exec (RunEvent c fd ev) w)"

definition kq_dispatch_event ::
  "('s, 'c) loop_exec \<Rightarrow> kevent \<Rightarrow> 's \<times> 'c event_loop \<Rightarrow> cpp_error + 's \<times> 'c event_loop" where
  "kq_dispatch_event exec = (\<lambda>(evfd, filt, flags) w.
     (case map_of (el_fds (snd w)) evfd of
        None \<Rightarrow> Inr w
      | Some it \<Rightarrow>
          (let w = (if filt = KevRead \<or> has_event flags EV_EOF
                    then kq_call_cb exec (fe_read_cb it) evfd kEventRead w else w)
           in if filt = KevWrite then
                (case map_of (el_fds (snd w)) evfd of
                   None \<Rightarrow> Inl UseAfterFree
                 | Some e \<Rightarrow>
                     if fe_node e \<noteq> fe_node it then Inl UseAfterFree
                     else Inr (kq_call_cb exec (fe_write_cb e) evfd kEventWrite w))
              else Inr w)))"

fun kq_dispatch_events ::
  "('s, 'c) loop_exec \<Rightarrow> kevent list \<Rightarrow> 's \<times> 'c event_loop \<Rightarrow> cpp_error + 's \<times> 'c event_loop" where
  "kq_dispatch_events exec [] w = Inr w"
| "kq_dispatch_events exec (ev # evs) w =
     (case kq_dispatch_event exec ev w of Inl e \<Rightarrow> Inl e | Inr w \<Rightarrow> kq_dispatch_events exec evs w)"

datatype kevent_result = KeventInterrupted | KeventFailed | KeventReady "kevent list"

fun kq_loop_rounds ::
  "(('c loop_timer \<Rightarrow> bool) \<Rightarrow> 'c loop_timer list \<Rightarrow> 'c loop_timer list \<times> 'c loop_timer list) \<Rightarrow>
   ('s, 'c) loop_exec \<Rightarrow> (int \<times> kevent_result) list \<Rightarrow> 's \<times> 'c event_loop \<Rightarrow> cpp_error + 's \<times> 'c event_loop" where
  "kq_loop_rounds part exec [] w = Inr w"
| "kq_loop_rounds part exec ((now, polled) # env) w =
     (if el_quit (snd w) then Inr w
      else let w = process_timers part exec now (process_tasks exec w)
           in case polled of
                KeventInterrupted \<Rightarrow> kq_loop_rounds part exec env w
              | KeventFailed \<Rightarrow> Inr w
              | KeventReady evs \<Rightarrow>
                  (case kq_dispatch_events exec evs w of
                     Inl e \<Rightarrow> Inl e
                   | Inr w \<Rightarrow> kq_loop_rounds part exec env w))"

section \<open>The same loop\<close>

lemma kq_drain_pipe_0: "kq_drain_pipe n = 0"
proof (induction n rule: less_induct)
  case (less n)
  show ?case by (subst kq_drain_pipe.simps) (auto simp: Let_def less)
qed

lemma kq_handle_wakeup_eq: "kq_handle_wakeup = handle_wakeup"
  by (simp add: fun_eq_iff kq_handle_wakeup_def handle_wakeup_def kq_drain_pipe_0)

lemma kq_call_cb_eq: "kq_call_cb = call_cb"
  by (simp add: fun_eq_iff kq_call_cb_def call_cb_def kq_handle_wakeup_eq split: option.split loop_cb.split)

text \<open>The event of \<open>epoll\<close> that reports what an event of \<open>kevent\<close> reports.\<close>

definition as_epoll :: "kevent \<Rightarrow> int \<times> u32" where
  "as_epoll = (\<lambda>(fd, filt, flags).
     (fd, (if filt = KevRead then EPOLLIN else EPOLLOUT) OR (if has_event flags EV_EOF then EPOLLHUP else 0)))"

fun as_epoll_result :: "kevent_result \<Rightarrow> poll_result" where
  "as_epoll_result KeventInterrupted = PollInterrupted"
| "as_epoll_result KeventFailed = PollFailed"
| "as_epoll_result (KeventReady evs) = PollReady (map as_epoll evs)"

lemma as_epoll_bits:
  "has_event ((if r then EPOLLIN else EPOLLOUT) OR (if h then EPOLLHUP else 0)) (EPOLLIN OR EPOLLHUP OR EPOLLERR) \<longleftrightarrow> r \<or> h"
  "has_event ((if r then EPOLLIN else EPOLLOUT) OR (if h then EPOLLHUP else 0)) EPOLLOUT \<longleftrightarrow> \<not> r"
  by (cases r; cases h; simp add: EPOLLIN_def EPOLLOUT_def EPOLLERR_def EPOLLHUP_def)+

lemma kq_dispatch_event_eq: "kq_dispatch_event exec ev w = dispatch_event exec (as_epoll ev) w"
proof -
  obtain fd filt flags where ev: "ev = (fd, filt, flags)" by (cases ev)
  have "filt = KevWrite \<longleftrightarrow> filt \<noteq> KevRead" by (cases filt) simp_all
  then show ?thesis
    by (simp only: ev as_epoll_def kq_dispatch_event_def dispatch_event_def kq_call_cb_eq prod.case as_epoll_bits)
qed

lemma kq_dispatch_events_eq: "kq_dispatch_events exec evs w = dispatch_events exec (map as_epoll evs) w"
  by (induction evs arbitrary: w) (simp_all add: kq_dispatch_event_eq split: sum.split)

lemma kq_loop_rounds_eq:
  "kq_loop_rounds part exec env w = loop_rounds part exec (map (\<lambda>(now, r). (now, as_epoll_result r)) env) w"
  by (induction part exec env w rule: kq_loop_rounds.induct)
    (simp_all add: Let_def kq_dispatch_events_eq split: kevent_result.split sum.split)

section \<open>The same descriptors\<close>

text \<open>
  What the kernels watch after the calls made so far. \<open>epoll_ctl\<close> refuses to add a descriptor twice and
  to change one it does not have. \<open>kevent\<close>, with no room for events, applies the changes of its list
  until one fails, as deleting a filter that is not there does.
\<close>

fun epoll_kernel :: "poll_request \<Rightarrow> (int \<Rightarrow> u32 option) \<Rightarrow> int \<Rightarrow> u32 option" where
  "epoll_kernel (CtlAdd fd m) k = (if k fd = None then k(fd := Some m) else k)"
| "epoll_kernel (CtlMod fd m) k = (if k fd = None then k else k(fd := Some m))"
| "epoll_kernel (CtlDel fd) k = k(fd := None)"
| "epoll_kernel (KevChanges cs) k = k"

definition epoll_watches :: "'c event_loop \<Rightarrow> int \<Rightarrow> kev_filter \<Rightarrow> bool" where
  "epoll_watches el fd f =
     (case fold epoll_kernel (el_ctl el) (\<lambda>_. None) fd of
        None \<Rightarrow> False
      | Some m \<Rightarrow> has_event m (case f of KevRead \<Rightarrow> EPOLLIN | KevWrite \<Rightarrow> EPOLLOUT))"

fun kev_apply :: "(int \<times> kev_filter \<times> bool) list \<Rightarrow> (int \<Rightarrow> kev_filter \<Rightarrow> bool) \<Rightarrow> int \<Rightarrow> kev_filter \<Rightarrow> bool" where
  "kev_apply [] k = k"
| "kev_apply ((fd, f, add) # cs) k =
     (if add then kev_apply cs (k(fd := (k fd)(f := True)))
      else if k fd f then kev_apply cs (k(fd := (k fd)(f := False)))
      else k)"

fun kqueue_kernel :: "poll_request \<Rightarrow> (int \<Rightarrow> kev_filter \<Rightarrow> bool) \<Rightarrow> int \<Rightarrow> kev_filter \<Rightarrow> bool" where
  "kqueue_kernel (KevChanges cs) k = kev_apply cs k"
| "kqueue_kernel _ k = k"

definition kqueue_watches :: "'c event_loop \<Rightarrow> int \<Rightarrow> kev_filter \<Rightarrow> bool" where
  "kqueue_watches el = fold kqueue_kernel (el_ctl el) (\<lambda>_ _. False)"

text \<open>The calls on descriptors a client makes, on both platforms.\<close>

datatype 'c fd_call = FdAdd int u32 'c | FdMod int u32 | FdDel int

fun do_fd_call :: "'c fd_call \<Rightarrow> 'c event_loop \<Rightarrow> 'c event_loop" where
  "do_fd_call (FdAdd fd ev c) el = add_fd fd ev (LoopClient c) el"
| "do_fd_call (FdMod fd ev) el = mod_fd fd ev el"
| "do_fd_call (FdDel fd) el = del_fd fd el"

fun kq_do_fd_call :: "'c fd_call \<Rightarrow> 'c event_loop \<Rightarrow> 'c event_loop" where
  "kq_do_fd_call (FdAdd fd ev c) el = kq_add_fd fd ev (LoopClient c) el"
| "kq_do_fd_call (FdMod fd ev) el = kq_mod_fd fd ev el"
| "kq_do_fd_call (FdDel fd) el = kq_del_fd fd el"

text \<open>
  A client that adds a descriptor only when it is not watched yet, and always watches for reads: the
  listening sockets and the connections do so.
\<close>

fun fd_calls_ok :: "'c fd_call list \<Rightarrow> int set \<Rightarrow> bool" where
  "fd_calls_ok [] fds = True"
| "fd_calls_ok (FdAdd fd ev c # cs) fds =
     (fd \<notin> fds \<and> has_event ev kEventRead \<and> fd_calls_ok cs (insert fd fds))"
| "fd_calls_ok (FdMod fd ev # cs) fds = (has_event ev kEventRead \<and> fd_calls_ok cs fds)"
| "fd_calls_ok (FdDel fd # cs) fds = fd_calls_ok cs (fds - {fd})"

lemma kernel_steps:
  "fold epoll_kernel (el_ctl (poll_call c el)) k = epoll_kernel c (fold epoll_kernel (el_ctl el) k)"
  "kqueue_watches (poll_call c el) = kqueue_kernel c (kqueue_watches el)"
  by (simp_all add: poll_call_def kqueue_watches_def)

text \<open>Both kernels watch what the entries say.\<close>

definition entries_watched :: "'c event_loop \<Rightarrow> int \<Rightarrow> kev_filter \<Rightarrow> bool" where
  "entries_watched el fd f =
     (case entry_of el fd of
        None \<Rightarrow> False
      | Some e \<Rightarrow> f = KevRead \<or> has_event (fe_events e) kEventWrite)"

definition kernels_agree :: "'c event_loop \<Rightarrow> 'c event_loop \<Rightarrow> bool" where
  "kernels_agree el kel \<longleftrightarrow>
     el_fds kel = el_fds el \<and> el_nodes kel = el_nodes el \<and>
     (\<forall>fd e. entry_of el fd = Some e \<longrightarrow> has_event (fe_events e) kEventRead) \<and>
     fold epoll_kernel (el_ctl el) (\<lambda>_. None) = (\<lambda>fd. map_option (\<lambda>e. epoll_mask (fe_events e)) (entry_of el fd)) \<and>
     kqueue_watches kel = entries_watched el"

lemma epoll_mask_bits:
  "has_event (epoll_mask ev) EPOLLIN \<longleftrightarrow> has_event ev kEventRead"
  "has_event (epoll_mask ev) EPOLLOUT \<longleftrightarrow> has_event ev kEventWrite"
  by (simp_all add: epoll_mask_def EPOLLIN_def EPOLLOUT_def)

lemma kernels_agree_watches: "kernels_agree el kel \<Longrightarrow> epoll_watches el fd f = kqueue_watches kel fd f"
  by (cases f)
    (auto simp: kernels_agree_def epoll_watches_def entries_watched_def epoll_mask_bits simp del: map_of_eq_Some_iff
      split: option.split)

lemma kernels_agree_add:
  assumes "kernels_agree el kel" "entry_of el fd = None" "has_event ev kEventRead"
  shows "kernels_agree (add_fd fd ev cb el) (kq_add_fd fd ev cb kel)"
proof -
  have el: "el_fds (add_entry fd ev cb kel) = el_fds (add_entry fd ev cb el)"
    "el_nodes (add_entry fd ev cb kel) = el_nodes (add_entry fd ev cb el)"
    using assms(1,2) by (simp_all add: kernels_agree_def add_entry_def Let_def)
  have ctl: "el_ctl (add_entry fd ev cb el) = el_ctl el" for el :: "'a event_loop"
    by (simp add: add_entry_def Let_def)
  have e: "entry_of (add_entry fd ev cb el) fd' = (if fd' = fd then
      Some \<lparr>fe_events = ev, fe_read_cb = Some cb, fe_write_cb = (if has_event ev kEventWrite then Some cb else None),
        fe_error_cb = (if has_event ev kEventError then Some cb else None), fe_node = el_nodes el\<rparr>
      else entry_of el fd')" for fd'
    using assms(2,3) by (simp add: add_entry_def Let_def AList.update_conv')
  have kq: "kqueue_watches (kq_add_fd fd ev cb kel) = entries_watched (add_entry fd ev cb el)"
    using assms ctl [of kel]
    by (auto simp: kq_add_fd_def kernel_steps Let_def fun_eq_iff kernels_agree_def entries_watched_def e kqueue_watches_def
        poll_call_def simp del: map_of_eq_Some_iff split: option.splits intro: kev_filter.exhaust)
  show ?thesis
    using assms kq el ctl [of el]
    by (auto simp: kernels_agree_def add_fd_def kernel_steps e fun_eq_iff entries_watched_def kq_add_fd_def Let_def
        poll_call_def simp del: map_of_eq_Some_iff)
qed

lemma kernels_agree_mod:
  assumes "kernels_agree el kel" "has_event ev kEventRead"
  shows "kernels_agree (mod_fd fd ev el) (kq_mod_fd fd ev kel)"
proof (cases "entry_of el fd")
  case None
  with assms(1) show ?thesis by (simp add: mod_fd_def kq_mod_fd_def mod_entry_def kernels_agree_def)
next
  case (Some e)
  let ?e = "e\<lparr>fe_events := ev, fe_read_cb := (if fe_read_cb e = None then fe_error_cb e else fe_read_cb e)\<rparr>"
  let ?upd = "\<lambda>el. el\<lparr>el_fds := AList.update fd ?e (el_fds el)\<rparr>"
  have m: "mod_entry fd ev el = Some (?upd el)" "mod_entry fd ev kel = Some (?upd kel)"
    using assms Some by (simp_all add: mod_entry_def kernels_agree_def Let_def)
  have "kqueue_watches (kq_mod_fd fd ev kel) = entries_watched (?upd el)"
  proof (intro ext)
    fix fd' f
    have k: "kqueue_watches (?upd kel) = entries_watched el"
      using assms(1) by (simp add: kernels_agree_def kqueue_watches_def)
    show "kqueue_watches (kq_mod_fd fd ev kel) fd' f = entries_watched (?upd el) fd' f"
      using assms(2) Some
      by (cases f) (auto simp: kq_mod_fd_def m kernel_steps k entries_watched_def AList.update_conv' simp del: map_of_eq_Some_iff)
  qed
  then show ?thesis
    using assms Some
    by (auto simp: kernels_agree_def mod_fd_def kq_mod_fd_def m kernel_steps AList.update_conv' fun_eq_iff entries_watched_def
        poll_call_def simp del: map_of_eq_Some_iff)
qed

lemma kernels_agree_del:
  assumes "kernels_agree el kel"
  shows "kernels_agree (del_fd fd el) (kq_del_fd fd kel)"
proof -
  have k: "kqueue_watches (del_entry fd kel) = entries_watched el"
    using assms by (simp add: kernels_agree_def kqueue_watches_def del_entry_def)
  have entry: "entry_of (del_entry fd l) fd' = (if fd' = fd then None else entry_of l fd')" for l :: "'a event_loop" and fd'
    by (simp add: del_entry_def AList.delete_conv')
  have "kqueue_watches (kq_del_fd fd kel) = entries_watched (del_entry fd el)"
  proof (intro ext)
    fix fd' f
    show "kqueue_watches (kq_del_fd fd kel) fd' f = entries_watched (del_entry fd el) fd' f"
      by (cases f)
        (auto simp: kq_del_fd_def kernel_steps k entries_watched_def entry fun_eq_iff
          simp del: map_of_eq_Some_iff split: option.splits)
  qed
  then show ?thesis
    using assms
    by (auto simp: kernels_agree_def del_fd_def kq_del_fd_def kernel_steps del_entry_def AList.delete_conv' fun_eq_iff
        entries_watched_def poll_call_def simp del: map_of_eq_Some_iff split: if_splits)
qed

lemma kernels_agree_calls:
  "kernels_agree el kel \<Longrightarrow> fd_calls_ok cs (dom (entry_of el)) \<Longrightarrow>
    kernels_agree (fold do_fd_call cs el) (fold kq_do_fd_call cs kel)"
proof (induction cs arbitrary: el kel)
  case (Cons c cs)
  show ?case
  proof (cases c)
    case (FdAdd fd ev cb)
    have "dom (entry_of (add_fd fd ev (LoopClient cb) el)) = insert fd (dom (entry_of el))"
      by (auto simp: add_fd_eq Let_def AList.update_conv')
    moreover have "kernels_agree (add_fd fd ev (LoopClient cb) el) (kq_add_fd fd ev (LoopClient cb) kel)"
      using Cons.prems FdAdd by (intro kernels_agree_add) (auto simp: domIff)
    ultimately show ?thesis using Cons.IH Cons.prems(2) FdAdd by simp
  next
    case (FdMod fd ev)
    have "dom (entry_of (mod_fd fd ev el)) = dom (entry_of el)"
      by (auto simp: frame_simps AList.update_conv' split: option.split if_splits)
    with Cons.IH Cons.prems kernels_agree_mod [OF Cons.prems(1)] FdMod show ?thesis by simp
  next
    case (FdDel fd)
    have "dom (entry_of (del_fd fd el)) = dom (entry_of el) - {fd}"
      by (auto simp: del_fd_eq AList.delete_conv' split: if_splits)
    with Cons.IH Cons.prems kernels_agree_del [OF Cons.prems(1)] FdDel show ?thesis by simp
  qed
qed simp

lemma kernels_agree_new: "kernels_agree (event_loop_new self fd) (kq_event_loop_new self fd)"
proof -
  let ?el = "\<lparr>el_quit = False, el_thread = self, el_wakeup = 0, el_pending = [], el_fds = [], el_nodes = 0,
        el_timers = [], el_next_timer_id = 1, el_ctl = []\<rparr>"
  have "kernels_agree ?el ?el" by (simp add: kernels_agree_def kqueue_watches_def entries_watched_def fun_eq_iff)
  from kernels_agree_add [OF this, of fd kEventRead LoopWakeup] show ?thesis
    by (simp add: event_loop_new_def kq_event_loop_new_def kEventRead_def)
qed



text \<open>The wait handed to \<open>kevent\<close> is the one handed to \<open>epoll_wait\<close>, and never a null pointer.\<close>

lemma kq_timespec_exact:
  assumes "kq_timespec timeout = (sec, nsec)" "0 \<le> timeout"
  shows "sec * 1000000000 + nsec = timeout * 1000000 \<and> 0 \<le> sec \<and> 0 \<le> nsec \<and> nsec < 1000000000"
proof -
  have "sec = timeout div 1000" "nsec = timeout mod 1000 * 1000000" using assms(1) by (simp_all add: kq_timespec_def)
  then show ?thesis
    using assms(2) by (simp add: pos_imp_zdiv_nonneg_iff) presburger
qed

text \<open>
  The client of \<open>TcpClient::doConnect\<close> is not of that kind: it watches a socket for writes only while
  it connects. \<open>delFd\<close> deletes the read filter first, which is not there, so \<open>kevent\<close> stops and the write
  filter stays. The connection made from the socket is then reported as writable again and again,
  and no callback ever answers; with \<open>epoll\<close> it is not.
\<close>

theorem kqueue_write_filter_stays:
  assumes "\<not> kqueue_watches el fd KevRead" and "fold epoll_kernel (el_ctl el') (\<lambda>_. None) fd = None"
  shows "kqueue_watches (kq_add_fd fd kEventRead cb' (kq_del_fd fd (kq_add_fd fd kEventWrite cb el))) fd KevWrite \<and>
    \<not> epoll_watches (add_fd fd kEventRead cb' (del_fd fd (add_fd fd kEventWrite cb el'))) fd KevWrite"
proof -
  have frame: "kqueue_watches (add_entry fd ev c l) = kqueue_watches l" "kqueue_watches (del_entry fd l) = kqueue_watches l"
    "el_ctl (add_entry fd ev c l) = el_ctl l" "el_ctl (del_entry fd l) = el_ctl l" for ev c and l :: "'a event_loop"
    by (simp_all add: kqueue_watches_def add_entry_def del_entry_def Let_def)
  have "kqueue_watches (kq_add_fd fd kEventRead cb' (kq_del_fd fd (kq_add_fd fd kEventWrite cb el))) fd KevWrite"
    using assms(1) by (simp add: kq_add_fd_def kq_del_fd_def kernel_steps frame kEventRead_def kEventWrite_def Let_def)
  moreover have "\<not> epoll_watches (add_fd fd kEventRead cb' (del_fd fd (add_fd fd kEventWrite cb el'))) fd KevWrite"
    using assms(2)
    by (simp add: epoll_watches_def add_fd_def del_fd_def kernel_steps frame epoll_mask_def kEventRead_def kEventWrite_def
        EPOLLIN_def EPOLLOUT_def)
  ultimately show ?thesis by blast
qed

theorem kqueue_write_filter_stays_witness:
  "kqueue_watches (kq_add_fd 9 kEventRead (LoopClient ()) (kq_del_fd 9 (kq_add_fd 9 kEventWrite (LoopClient ())
      (kq_event_loop_new 0 7)))) 9 KevWrite"
proof -
  have "\<not> kqueue_watches (kq_event_loop_new 0 7 :: unit event_loop) 9 KevRead"
    "fold epoll_kernel (el_ctl (event_loop_new 0 7 :: unit event_loop)) (\<lambda>_. None) 9 = None" by code_simp+
  from kqueue_write_filter_stays [OF this] show ?thesis by blast
qed

end
