(* ===== verification/Loop_Wakeup.thy ===== *)
theory Loop_Wakeup
  imports Event_Loop
begin

text \<open>
  The tasks of an event loop, with the threads that post them: the steps of the loop's own thread
  (\<open>processTasks\<close>, \<open>epoll_wait\<close>, \<open>handleWakeup\<close>) and, between any two of them, the two steps of a
  thread in \<open>runInLoop\<close>: the task is pushed under the mutex, and the eventfd is written after the
  mutex is released. No task is lost, none overtakes another, and none waits for a timeout.
\<close>

datatype loop_pc = AtTasks | AtRunning | AtWait | AtDispatch

text \<open>
  \<open>tl_owed\<close> counts the threads between the two steps of \<open>runInLoop\<close>; \<open>tl_running\<close> is the local
  vector that \<open>processTasks\<close> swaps with \<open>pending_tasks_\<close>; \<open>tl_posted\<close> and \<open>tl_ran\<close> are the
  history.
\<close>

record 'c task_loop =
  tl_loop :: "'c event_loop"
  tl_pc :: loop_pc
  tl_owed :: nat
  tl_running :: "'c list"
  tl_posted :: "'c list"
  tl_ran :: "'c list"

definition task_loop_new :: "'c event_loop \<Rightarrow> 'c task_loop" where
  "task_loop_new el = \<lparr>tl_loop = el, tl_pc = AtTasks, tl_owed = 0, tl_running = [], tl_posted = [], tl_ran = []\<rparr>"

text \<open>\<open>epoll_wait\<close> may return for another descriptor or a timeout at any time, so \<open>poll\<close> is always
  possible; the eventfd is reported only when its counter is positive.\<close>

inductive task_step :: "'c task_loop \<Rightarrow> 'c task_loop \<Rightarrow> bool" where
  push: "task_step s (s\<lparr>tl_loop := push_task c (tl_loop s), tl_owed := Suc (tl_owed s),
      tl_posted := tl_posted s @ [c]\<rparr>)"
| wake: "tl_owed s = Suc n \<Longrightarrow> task_step s (s\<lparr>tl_loop := wakeup (tl_loop s), tl_owed := n\<rparr>)"
| swap: "tl_pc s = AtTasks \<Longrightarrow>
    task_step s (s\<lparr>tl_loop := (tl_loop s)\<lparr>el_pending := []\<rparr>, tl_running := el_pending (tl_loop s), tl_pc := AtRunning\<rparr>)"
| run: "tl_pc s = AtRunning \<Longrightarrow> tl_running s = c # cs \<Longrightarrow>
    task_step s (s\<lparr>tl_running := cs, tl_ran := tl_ran s @ [c]\<rparr>)"
| wait: "tl_pc s = AtRunning \<Longrightarrow> tl_running s = [] \<Longrightarrow> task_step s (s\<lparr>tl_pc := AtWait\<rparr>)"
| poll: "tl_pc s = AtWait \<Longrightarrow> task_step s (s\<lparr>tl_pc := AtDispatch\<rparr>)"
| drain: "tl_pc s = AtDispatch \<Longrightarrow> 0 < el_wakeup (tl_loop s) \<Longrightarrow>
    task_step s (s\<lparr>tl_loop := handle_wakeup (tl_loop s)\<rparr>)"
| again: "tl_pc s = AtDispatch \<Longrightarrow> task_step s (s\<lparr>tl_pc := AtTasks\<rparr>)"

inductive_cases task_stepE: "task_step s s'"

inductive task_reachable :: "'c event_loop \<Rightarrow> 'c task_loop \<Rightarrow> bool" for el where
  new: "task_reachable el (task_loop_new el)"
| step: "task_reachable el s \<Longrightarrow> task_step s s' \<Longrightarrow> task_reachable el s'"

definition task_inv :: "'c task_loop \<Rightarrow> bool" where
  "task_inv s \<longleftrightarrow> tl_posted s = tl_ran s @ tl_running s @ el_pending (tl_loop s) \<and>
     (tl_running s \<noteq> [] \<longrightarrow> tl_pc s = AtRunning) \<and>
     (tl_pc s \<in> {AtRunning, AtWait} \<and> el_pending (tl_loop s) \<noteq> [] \<longrightarrow>
        0 < el_wakeup (tl_loop s) \<or> 0 < tl_owed s)"

lemma task_inv_step: "task_step s s' \<Longrightarrow> task_inv s \<Longrightarrow> task_inv s'"
  by (erule task_stepE) (auto simp: task_inv_def push_task_def wakeup_def handle_wakeup_def)

lemma task_reachable_inv: "task_reachable el s \<Longrightarrow> el_pending el = [] \<Longrightarrow> task_inv s"
  by (induction rule: task_reachable.induct)
    (auto simp: task_inv_step, simp add: task_inv_def task_loop_new_def)



end
