(* ===== verification/Tcp_Server.thy ===== *)
theory Tcp_Server
  imports Loop_Wakeup Rtsp_Session
begin

text \<open>
  \<open>TcpServer\<close> of \<open>src/src/tcp_server.h\<close> and \<open>tcp_server.cpp\<close>: the listening socket, the IO threads
  and the assignment of accepted connections to their loops. What the socket calls return are
  arguments. The lambda that sets a connection up runs the connection callback and starts the
  connection; it is recorded with the loop it was given.
\<close>

text \<open>The closures on the loops of the servers; \<open>StatsTimer\<close> is the one \<open>main\<close> adds to its own loop.\<close>

datatype srv_closure = AcceptEvents | SetupConn int bytes | StatsTimer

datatype loop_ref = AcceptRef | IoRef nat

record tcp_server =
  srv_accept :: "srv_closure event_loop"
  srv_io :: "srv_closure event_loop list"
  srv_next_loop :: u64
  srv_listen_fd :: int
  srv_port :: u16
  srv_backlog :: int
  srv_started :: "(int \<times> bytes) list"

definition tcp_server_new :: "srv_closure event_loop \<Rightarrow> u16 \<Rightarrow> int \<Rightarrow> tcp_server" where
  "tcp_server_new el port backlog =
     \<lparr>srv_accept = el, srv_io = [], srv_next_loop = 0, srv_listen_fd = -1, srv_port = port,
      srv_backlog = backlog, srv_started = []\<rparr>"

text \<open>A failure of \<open>socket\<close>, \<open>bind\<close> or \<open>listen\<close> aborts the process.\<close>

definition srv_start :: "int \<Rightarrow> bool \<Rightarrow> bool \<Rightarrow> tcp_server \<Rightarrow> tcp_server option" where
  "srv_start sock_fd bind_ok listen_ok srv =
     (let srv = srv\<lparr>srv_listen_fd := sock_fd\<rparr>
      in if sock_fd < 0 \<or> \<not> bind_ok \<or> \<not> listen_ok then None
         else Some (srv\<lparr>srv_accept := add_fd sock_fd kEventRead (LoopClient AcceptEvents) (srv_accept srv)\<rparr>))"

text \<open>
  The new thread enters \<open>loop()\<close>, which makes the loop its own. Before that the loop counts as one of
  the thread that constructed it; \<open>early_setups_inline\<close> says what follows.
\<close>

definition add_io_thread :: "nat \<Rightarrow> int \<Rightarrow> nat \<Rightarrow> tcp_server \<Rightarrow> nat \<times> tcp_server" where
  "add_io_thread self efd thread srv =
     (let srv = srv\<lparr>srv_io := srv_io srv @ [loop_start thread (event_loop_new self efd)]\<rparr>
      in (length (srv_io srv), srv))"

definition get_next_loop :: "tcp_server \<Rightarrow> loop_ref \<times> tcp_server" where
  "get_next_loop srv =
     (if srv_io srv = [] then (AcceptRef, srv)
      else (IoRef (unat (srv_next_loop srv) mod length (srv_io srv)), srv\<lparr>srv_next_loop := srv_next_loop srv + 1\<rparr>))"

definition srv_loop :: "tcp_server \<Rightarrow> loop_ref \<Rightarrow> srv_closure event_loop" where
  "srv_loop srv r = (case r of AcceptRef \<Rightarrow> srv_accept srv | IoRef i \<Rightarrow> srv_io srv ! i)"

definition srv_post :: "loop_ref \<Rightarrow> srv_closure \<Rightarrow> tcp_server \<Rightarrow> tcp_server" where
  "srv_post r c srv =
     (case r of
        AcceptRef \<Rightarrow> srv\<lparr>srv_accept := run_in_loop c (srv_accept srv)\<rparr>
      | IoRef i \<Rightarrow> srv\<lparr>srv_io := (srv_io srv)[i := run_in_loop c (srv_io srv ! i)]\<rparr>)"

definition run_setup :: "int \<Rightarrow> bytes \<Rightarrow> tcp_server \<Rightarrow> tcp_server" where
  "run_setup fd peer srv = srv\<lparr>srv_started := srv_started srv @ [(fd, peer)]\<rparr>"

datatype accept_result = Accepted int "u8 list" u16 | AcceptAgain | AcceptInterrupted | AcceptFailed

definition peer_text :: "u8 list \<Rightarrow> u16 \<Rightarrow> bytes" where
  "peer_text ip port = inet_ntop ip @ '':'' @ dec_nat (unat port)"

definition accept_one :: "nat \<Rightarrow> int \<Rightarrow> bytes \<Rightarrow> tcp_server \<Rightarrow> tcp_server" where
  "accept_one self conn_fd peer_addr srv =
     (let (r, srv) = get_next_loop srv
      in if is_in_loop_thread self (srv_loop srv r) then run_setup conn_fd peer_addr srv
         else srv_post r (SetupConn conn_fd peer_addr) srv)"

fun accept_loop :: "nat \<Rightarrow> accept_result list \<Rightarrow> tcp_server \<Rightarrow> tcp_server" where
  "accept_loop self [] srv = srv"
| "accept_loop self (r # rs) srv =
     (case r of
        AcceptAgain \<Rightarrow> srv
      | AcceptInterrupted \<Rightarrow> accept_loop self rs srv
      | AcceptFailed \<Rightarrow> srv
      | Accepted conn_fd ip port \<Rightarrow> accept_loop self rs (accept_one self conn_fd (peer_text ip port) srv))"

text \<open>
  The destructor closes the listening socket and joins the IO threads; a thread that is joined
  must have left its loop, which it does only after \<open>quit()\<close> on that loop. \<open>None\<close>: the join blocks
  for good.
\<close>

definition tcp_server_destroy :: "tcp_server \<Rightarrow> int list option" where
  "tcp_server_destroy srv =
     (if \<forall>el \<in> set (srv_io srv). el_quit el
      then Some (if srv_listen_fd srv \<ge> 0 then [srv_listen_fd srv] else []) else None)"

section \<open>Who serves a connection\<close>

text \<open>The connections one readiness of the listening socket brings.\<close>

fun accepted :: "accept_result list \<Rightarrow> (int \<times> bytes) list" where
  "accepted [] = []"
| "accepted (r # rs) =
     (case r of
        AcceptAgain \<Rightarrow> []
      | AcceptInterrupted \<Rightarrow> accepted rs
      | AcceptFailed \<Rightarrow> []
      | Accepted fd ip port \<Rightarrow> (fd, peer_text ip port) # accepted rs)"

text \<open>The connections the loop \<open>j\<close> of \<open>n\<close> gets when they are dealt in turn from the counter \<open>k\<close> on.\<close>

fun dealt :: "nat \<Rightarrow> nat \<Rightarrow> nat \<Rightarrow> 'a list \<Rightarrow> 'a list" where
  "dealt n j k [] = []"
| "dealt n j k (x # xs) = (if k mod n = j then x # dealt n j (Suc k) xs else dealt n j (Suc k) xs)"

lemma accept_one_io:
  assumes "srv_io srv \<noteq> []" and "\<forall>el \<in> set (srv_io srv). el_thread el \<noteq> self"
    and "k = unat (srv_next_loop srv)" and "Suc k < 2 ^ 64" and "i = k mod length (srv_io srv)"
  shows "accept_one self fd peer srv =
    srv\<lparr>srv_next_loop := srv_next_loop srv + 1,
        srv_io := (srv_io srv)[i := run_in_loop (SetupConn fd peer) (srv_io srv ! i)]\<rparr>"
    and "unat (srv_next_loop srv + 1) = Suc k"
proof -
  have "i < length (srv_io srv)" using assms(1,5) by simp
  then have thread: "el_thread (srv_io srv ! (unat (srv_next_loop srv) mod length (srv_io srv))) \<noteq> self"
    using assms(2,3,5) by simp
  then show "accept_one self fd peer srv = srv\<lparr>srv_next_loop := srv_next_loop srv + 1,
      srv_io := (srv_io srv)[i := run_in_loop (SetupConn fd peer) (srv_io srv ! i)]\<rparr>"
    unfolding assms(5,3) using assms(1)
    by (auto simp: accept_one_def get_next_loop_def is_in_loop_thread_def srv_loop_def srv_post_def)
  show "unat (srv_next_loop srv + 1) = Suc k"
    using assms(3,4) by (simp add: unat_word_ariths)
qed

text \<open>
  While the IO threads have not entered their loops, these belong to the accepting thread: it
  sets every connection up itself, on loops that other threads are about to run, and posts nothing.
\<close>

lemma early_setups_inline:
  "srv_io srv \<noteq> [] \<Longrightarrow> \<forall>el \<in> set (srv_io srv). el_thread el = self \<Longrightarrow>
    srv_io (accept_loop self rs srv) = srv_io srv \<and> srv_started (accept_loop self rs srv) = srv_started srv @ accepted rs"
proof (induction self rs srv rule: accept_loop.induct)
  case (2 self r rs srv)
  show ?case
  proof (cases r)
    case (Accepted fd ip port)
    have "el_thread (srv_io srv ! (unat (srv_next_loop srv) mod length (srv_io srv))) = self"
      using "2.prems" by simp
    then have one: "accept_one self fd p srv = srv\<lparr>srv_next_loop := srv_next_loop srv + 1, srv_started := srv_started srv @ [(fd, p)]\<rparr>"
      for p
      using "2.prems"(1) by (simp add: accept_one_def get_next_loop_def is_in_loop_thread_def srv_loop_def run_setup_def)
    then show ?thesis using "2.IH" Accepted "2.prems" by simp
  qed (use 2 in simp_all)
qed simp

lemma run_in_loop_task: "el_pending (run_in_loop c el) = el_pending el @ [c]" "el_thread (run_in_loop c el) = el_thread el"
  "el_quit (run_in_loop c el) = el_quit el"
  by (simp_all add: run_in_loop_def wakeup_def push_task_def)

lemma accept_loop_io:
  assumes "srv_io srv \<noteq> []" and "\<forall>el \<in> set (srv_io srv). el_thread el \<noteq> self"
    and "unat (srv_next_loop srv) + length (accepted rs) < 2 ^ 64" and "j < length (srv_io srv)"
  shows "length (srv_io (accept_loop self rs srv)) = length (srv_io srv) \<and>
    el_pending (srv_io (accept_loop self rs srv) ! j) = el_pending (srv_io srv ! j) @
      map (\<lambda>(fd, peer). SetupConn fd peer)
        (dealt (length (srv_io srv)) j (unat (srv_next_loop srv)) (accepted rs))"
  using assms
proof (induction rs arbitrary: srv)
  case (Cons r rs)
  show ?case
  proof (cases r)
    case (Accepted fd ip port)
    let ?k = "unat (srv_next_loop srv)"
    let ?i = "?k mod length (srv_io srv)"
    define srv1 where "srv1 = accept_one self fd (peer_text ip port) srv"
    have k: "Suc ?k < 2 ^ 64" using Cons.prems(3) Accepted by simp
    note one = accept_one_io(1) [OF Cons.prems(1,2) refl k refl, where fd = fd and peer = "peer_text ip port", folded srv1_def]
      accept_one_io(2) [OF Cons.prems(1,2) refl k refl]
    have i: "?i < length (srv_io srv)" using Cons.prems(1) by simp
    have io: "srv_io srv1 = (srv_io srv)[?i := run_in_loop (SetupConn fd (peer_text ip port)) (srv_io srv ! ?i)]"
      and next_k: "unat (srv_next_loop srv1) = Suc ?k"
      using one by simp_all
    have "\<forall>el \<in> set (srv_io srv1). el_thread el \<noteq> self"
      using Cons.prems(2) i unfolding io
      by (metis insertE nth_mem run_in_loop_task(2) set_update_subset_insert subsetD)
    moreover have "srv_io srv1 \<noteq> []" "j < length (srv_io srv1)" "length (srv_io srv1) = length (srv_io srv)"
      using Cons.prems io by simp_all
    moreover have "unat (srv_next_loop srv1) + length (accepted rs) < 2 ^ 64"
      using Cons.prems(3) Accepted next_k by simp
    ultimately have ih: "length (srv_io (accept_loop self rs srv1)) = length (srv_io srv) \<and>
        el_pending (srv_io (accept_loop self rs srv1) ! j) = el_pending (srv_io srv1 ! j) @
          map (\<lambda>(fd, peer). SetupConn fd peer) (dealt (length (srv_io srv)) j (Suc ?k) (accepted rs))"
      using Cons.IH [of srv1] next_k by simp
    have "accept_loop self (r # rs) srv = accept_loop self rs srv1" using Accepted by (simp add: srv1_def)
    moreover have "el_pending (srv_io srv1 ! j) = el_pending (srv_io srv ! j) @
        (if ?i = j then [SetupConn fd (peer_text ip port)] else [])"
      using Cons.prems(4) by (simp add: io run_in_loop_task nth_list_update)
    ultimately show ?thesis using ih Accepted by simp
  qed (use Cons in simp_all)
qed simp

text \<open>How many of the numbers below \<open>x\<close> are \<open>j\<close> modulo \<open>n\<close>.\<close>

lemma dealt_count_step:
  assumes "j < n"
  shows "(Suc x + (n - 1 - j)) div n = (x + (n - 1 - j)) div n + (if x mod n = j then 1 else 0 :: nat)"
proof -
  have x: "x = x div n * n + x mod n" by simp
  have "x mod n < n" using assms by simp
  have "(x + (n - 1 - j)) div n = x div n + (x mod n + (n - 1 - j)) div n"
    using assms by (subst x) (simp only: add.assoc div_mult_self3)
  moreover have "(Suc x + (n - 1 - j)) div n = x div n + (Suc (x mod n) + (n - 1 - j)) div n"
    using assms by (subst x) (simp only: add.assoc add_Suc_right [symmetric] div_mult_self3)
  moreover have "(x mod n + (n - 1 - j)) div n = (if x mod n > j then 1 else 0)"
    using assms \<open>x mod n < n\<close> by (auto intro!: div_nat_eqI; linarith)
  moreover have "(Suc (x mod n) + (n - 1 - j)) div n = (if x mod n \<ge> j then 1 else 0)"
    using assms \<open>x mod n < n\<close> by (auto intro!: div_nat_eqI; linarith)
  ultimately show ?thesis by auto
qed

lemma length_dealt:
  assumes "j < n"
  shows "length (dealt n j k xs) + (k + (n - 1 - j)) div n = (k + length xs + (n - 1 - j)) div n"
proof (induction xs arbitrary: k)
  case (Cons x xs)
  show ?case using Cons [of "Suc k"] dealt_count_step [OF assms, of k] by auto
qed simp

lemma dealt_balanced:
  assumes "j < n"
  shows "length (dealt n j k xs) \<in> {length xs div n, Suc (length xs div n)}"
proof -
  let ?a = "k + (n - 1 - j)"
  have "(?a + length xs) div n = ?a div n + length xs div n + (?a mod n + length xs mod n) div n"
    by (rule div_add1_eq)
  moreover have "(?a mod n + length xs mod n) div n \<le> 1"
  proof -
    have "?a mod n + length xs mod n < 2 * n"
      using assms mod_less_divisor [of n ?a] mod_less_divisor [of n "length xs"] by linarith
    then show ?thesis using less_mult_imp_div_less [of _ 2 n] by (metis One_nat_def Suc_1 less_Suc_eq_le)
  qed
  moreover have "length (dealt n j k xs) + ?a div n = (?a + length xs) div n"
    using length_dealt [OF assms, of k xs] by (simp add: ac_simps)
  ultimately show ?thesis by auto
qed

text \<open>
  One readiness of the listening socket hands every connection that is waiting to exactly one
  IO loop, in the order of their arrival and in turn: each loop gets its share of them, rounded up
  or down, at the end of its task queue. (The counter is a 64-bit word; the claim is about the
  \<open>2 ^ 64\<close> connections before it wraps.)
\<close>

theorem connections_dealt_in_turn:
  assumes "srv_io srv \<noteq> []" and "\<forall>el \<in> set (srv_io srv). el_thread el \<noteq> self"
    and "unat (srv_next_loop srv) + length (accepted rs) < 2 ^ 64" and "j < length (srv_io srv)"
    and "share = dealt (length (srv_io srv)) j (unat (srv_next_loop srv)) (accepted rs)"
  shows "el_pending (srv_io (accept_loop self rs srv) ! j) =
      el_pending (srv_io srv ! j) @ map (\<lambda>(fd, peer). SetupConn fd peer) share \<and>
    length share \<in> {length (accepted rs) div length (srv_io srv), Suc (length (accepted rs) div length (srv_io srv))}"
  unfolding assms(5) using accept_loop_io [OF assms(1-4)] dealt_balanced [OF assms(4)] by blast

definition demo_server :: tcp_server where
  "demo_server = snd (add_io_thread 0 8 2 (snd (add_io_thread 0 7 1 (tcp_server_new (event_loop_new 0 5) 8554 512))))"

theorem connections_dealt_in_turn_witness:
  "el_pending (srv_io (accept_loop 0 [Accepted 20 [10, 0, 0, 1] 5000, AcceptInterrupted, Accepted 21 [10, 0, 0, 1] 5001,
      Accepted 22 [10, 0, 0, 2] 5000, AcceptAgain] demo_server) ! 0) =
    [SetupConn 20 ''10.0.0.1:5000'', SetupConn 22 ''10.0.0.2:5000'']"
proof -
  let ?rs = "[Accepted 20 [10, 0, 0, 1] 5000, AcceptInterrupted, Accepted 21 [10, 0, 0, 1] 5001,
      Accepted 22 [10, 0, 0, 2] 5000, AcceptAgain]"
  have "srv_io demo_server \<noteq> []" "\<forall>el \<in> set (srv_io demo_server). el_thread el \<noteq> 0"
    "unat (srv_next_loop demo_server) + length (accepted ?rs) < 2 ^ 64" "0 < length (srv_io demo_server)"
    by (simp_all add: demo_server_def add_io_thread_def tcp_server_new_def loop_start_def)
  note connections_dealt_in_turn [OF this refl]
  moreover have "dealt (length (srv_io demo_server)) 0 (unat (srv_next_loop demo_server)) (accepted ?rs) =
      [(20, ''10.0.0.1:5000''), (22, ''10.0.0.2:5000'')]" by code_simp
  moreover have "el_pending (srv_io demo_server ! 0) = []" by code_simp
  ultimately show ?thesis by simp
qed

section \<open>The end of the server\<close>

text \<open>
  What can happen to the server: its methods, the callbacks of its sockets, the loops running their
  tasks, and the signal, whose handler stops the main loop.
\<close>

datatype server_op =
    SrvStart int bool bool
  | SrvAddIo nat int nat
  | SrvAccept nat "accept_result list"
  | SrvRunTasks nat
  | SrvSignal

definition run_io_tasks :: "nat \<Rightarrow> tcp_server \<Rightarrow> tcp_server" where
  "run_io_tasks i srv =
     (if i < length (srv_io srv) then
        let tasks = el_pending (srv_io srv ! i);
            srv = srv\<lparr>srv_io := (srv_io srv)[i := (srv_io srv ! i)\<lparr>el_pending := []\<rparr>]\<rparr>
        in fold (\<lambda>c. case c of SetupConn fd peer \<Rightarrow> run_setup fd peer | _ \<Rightarrow> (\<lambda>s. s)) tasks srv
      else srv)"

fun server_step :: "server_op \<Rightarrow> tcp_server \<Rightarrow> tcp_server option" where
  "server_step (SrvStart fd b l) srv = srv_start fd b l srv"
| "server_step (SrvAddIo self efd thread) srv = Some (snd (add_io_thread self efd thread srv))"
| "server_step (SrvAccept self rs) srv = Some (accept_loop self rs srv)"
| "server_step (SrvRunTasks i) srv = Some (run_io_tasks i srv)"
| "server_step SrvSignal srv = Some (srv\<lparr>srv_accept := loop_quit (srv_accept srv)\<rparr>)"

fun server_run :: "server_op list \<Rightarrow> tcp_server \<Rightarrow> tcp_server option" where
  "server_run [] srv = Some srv"
| "server_run (op # ops) srv = (case server_step op srv of None \<Rightarrow> None | Some srv \<Rightarrow> server_run ops srv)"

definition io_running :: "nat \<Rightarrow> tcp_server \<Rightarrow> bool" where
  "io_running n srv \<longleftrightarrow> n \<le> length (srv_io srv) \<and> (\<forall>el \<in> set (srv_io srv). \<not> el_quit el)"

lemma io_running_update:
  "io_running n srv \<Longrightarrow> \<not> el_quit el \<Longrightarrow> io_running n (srv\<lparr>srv_io := (srv_io srv)[i := el]\<rparr>)"
  by (auto simp: io_running_def dest: set_update_subset_insert [THEN subsetD])

lemma io_running_frame [simp]:
  "io_running n (srv\<lparr>srv_next_loop := k\<rparr>) = io_running n srv" "io_running n (srv\<lparr>srv_accept := el\<rparr>) = io_running n srv"
  "io_running n (srv\<lparr>srv_listen_fd := fd\<rparr>) = io_running n srv" "io_running n (run_setup fd peer srv) = io_running n srv"
  by (simp_all add: io_running_def run_setup_def)

lemma io_running_post: "io_running n srv \<Longrightarrow> (\<forall>i. r = IoRef i \<longrightarrow> i < length (srv_io srv)) \<Longrightarrow> io_running n (srv_post r c srv)"
  by (cases r) (auto simp: srv_post_def io_running_def run_in_loop_task dest!: set_update_subset_insert [THEN subsetD])

lemma io_running_accept_one: "io_running n srv \<Longrightarrow> io_running n (accept_one self fd peer srv)"
  by (auto simp: accept_one_def get_next_loop_def split: if_splits intro!: io_running_post)

lemma io_running_accept: "io_running n srv \<Longrightarrow> io_running n (accept_loop self rs srv)"
  by (induction rs arbitrary: srv) (auto simp: io_running_accept_one split: accept_result.split)

lemma io_running_tasks: "io_running n srv \<Longrightarrow> io_running n (run_io_tasks i srv)"
proof -
  have fold: "io_running n (fold (\<lambda>c. case c of SetupConn fd peer \<Rightarrow> run_setup fd peer | _ \<Rightarrow> (\<lambda>s. s)) cs srv)"
    if "io_running n srv" for cs srv
    using that by (induction cs arbitrary: srv) (auto split: srv_closure.split)
  assume run: "io_running n srv"
  show ?thesis
  proof (cases "i < length (srv_io srv)")
    case True
    then have "\<not> el_quit ((srv_io srv ! i)\<lparr>el_pending := []\<rparr>)" using run by (simp add: io_running_def)
    from fold [OF io_running_update [OF run this]] True show ?thesis by (simp add: run_io_tasks_def Let_def)
  qed (use run in \<open>simp add: run_io_tasks_def\<close>)
qed

lemma io_running_step: "io_running n srv \<Longrightarrow> server_step op srv = Some srv' \<Longrightarrow> io_running n srv'"
  by (cases op)
    (auto simp: srv_start_def Let_def io_running_accept io_running_tasks split: if_splits,
     auto simp: io_running_def add_io_thread_def loop_start_def event_loop_new_def add_fd_eq)

lemma io_running_run: "io_running n srv \<Longrightarrow> server_run ops srv = Some srv' \<Longrightarrow> io_running n srv'"
  by (induction ops arbitrary: srv) (auto split: option.splits dest: io_running_step)

text \<open>
  A server with an IO thread never ends: the signal stops the main loop only, no operation
  stops the loop of an IO thread, and so the destructor waits for the thread for good.
\<close>

theorem shutdown_hangs:
  assumes "server_run (SrvAddIo self efd thread # ops) (tcp_server_new el port backlog) = Some srv"
  shows "tcp_server_destroy srv = None"
proof -
  have "io_running 1 (snd (add_io_thread self efd thread (tcp_server_new el port backlog)))"
    by (simp add: io_running_def add_io_thread_def loop_start_def tcp_server_new_def)
  then have "io_running 1 srv" using assms io_running_run by auto
  then have "\<exists>el \<in> set (srv_io srv). \<not> el_quit el"
    unfolding io_running_def by (cases "srv_io srv") auto
  then show ?thesis by (auto simp: tcp_server_destroy_def)
qed

theorem shutdown_hangs_witness:
  "\<exists>srv. server_run [SrvAddIo 0 7 1, SrvStart 6 True True, SrvSignal] (tcp_server_new (event_loop_new 0 5) 8554 512) =
      Some srv \<and> el_quit (srv_accept srv) \<and> tcp_server_destroy srv = None"
proof -
  let ?r = "server_run [SrvAddIo 0 7 1, SrvStart 6 True True, SrvSignal] (tcp_server_new (event_loop_new 0 5) 8554 512)"
  have ok: "case ?r of None \<Rightarrow> False | Some srv \<Rightarrow> el_quit (srv_accept srv)"
    by (simp add: srv_start_def loop_quit_def wakeup_def)
  then obtain srv where "?r = Some srv" by (auto split: option.splits)
  with ok shutdown_hangs [of 0 7 1 "[SrvStart 6 True True, SrvSignal]"] show ?thesis by auto
qed

end
