(* ===== verification/Relay_Main.thy ===== *)
theory Relay_Main
  imports Config Http_Api Tcp_Server
begin

text \<open>
  \<open>main\<close> of \<open>src/src/main.cpp\<close>: the process that the configuration file describes. It owns the
  main loop, the manager, the RTSP server with its IO threads and the HTTP server; the signal
  handler and the statistics timer reach them. What the system calls return at the start
  is the record \<open>boot_env\<close>; what can happen afterwards is \<open>proc_op\<close>. The loop is one object that
  both servers point to: it is lent to a server for each of its operations.
\<close>

section \<open>The start\<close>

record boot_env =
  be_self :: nat                         \<comment> \<open>the thread of \<open>main\<close>\<close>
  be_poll :: int                         \<comment> \<open>\<open>epoll_create1\<close> and \<open>eventfd\<close>, for the main loop and the IO loops\<close>
  be_efd :: int
  be_io_poll :: "nat \<Rightarrow> int"
  be_io_efd :: "nat \<Rightarrow> int"
  be_io_thread :: "nat \<Rightarrow> nat"
  be_rtsp_sock :: "int \<times> bool \<times> bool"    \<comment> \<open>\<open>socket\<close>, and whether \<open>bind\<close> and \<open>listen\<close> succeed\<close>
  be_http_sock :: "int \<times> bool \<times> bool"
  be_now :: int
  be_rng :: "nat \<Rightarrow> u32"                  \<comment> \<open>the numbers of the generator of session identifiers\<close>

record relay_process =
  rp_config :: server_config
  rp_signal_loop :: bool                 \<comment> \<open>\<open>g_main_loop\<close> points to the main loop\<close>
  rp_mgr :: relay_manager
  rp_effects :: "mgr_effect list"
  rp_rtsp :: tcp_server
  rp_http :: tcp_server
  rp_sessions :: "(int \<times> session) list"
  rp_rng :: "nat \<Rightarrow> u32"
  rp_accepts :: "int \<Rightarrow> accept_result list"
  rp_responses :: "http_response list"
  rp_log :: "bytes list"

type_synonym proc_world = "relay_process \<times> srv_closure event_loop"

definition config_path :: "bytes list \<Rightarrow> bytes" where
  "config_path argv = (if length argv > 1 then argv ! 1 else ''rtsp_relay.conf'')"

text \<open>What the file system holds is an argument.\<close>

definition main_config :: "(bytes \<Rightarrow> bytes option) \<Rightarrow> bytes list \<Rightarrow> server_config" where
  "main_config files argv = config_parse (files (config_path argv))"

text \<open>A product of two \<open>int\<close>.\<close>

definition int_mul :: "int \<Rightarrow> int \<Rightarrow> cpp_error + int" where
  "int_mul a b = (if - (2 ^ 31) \<le> a * b \<and> a * b < 2 ^ 31 then Inr (a * b) else Inl SignedOverflow)"

fun add_io_threads :: "boot_env \<Rightarrow> nat list \<Rightarrow> tcp_server \<Rightarrow> cpp_error + tcp_server" where
  "add_io_threads be [] srv = Inr srv"
| "add_io_threads be (i # is) srv =
     (case event_loop_open (be_io_poll be i) (be_io_efd be i) (be_self be) :: cpp_error + srv_closure event_loop of
        Inl e \<Rightarrow> Inl e
      | Inr _ \<Rightarrow> add_io_threads be is (snd (add_io_thread (be_self be) (be_io_efd be i) (be_io_thread be i) srv)))"

definition start_server :: "int \<times> bool \<times> bool \<Rightarrow> tcp_server \<Rightarrow> cpp_error + tcp_server" where
  "start_server sock srv =
     (case sock of (fd, bind_ok, listen_ok) \<Rightarrow>
        (case srv_start fd bind_ok listen_ok srv of None \<Rightarrow> Inl Aborted | Some srv \<Rightarrow> Inr srv))"

text \<open>Everything before \<open>main_loop.loop()\<close>.\<close>

definition main_boot :: "boot_env \<Rightarrow> server_config \<Rightarrow> cpp_error + proc_world" where
  "main_boot be cfg =
     (case event_loop_open (be_poll be) (be_efd be) (be_self be) of
        Inl e \<Rightarrow> Inl e
      | Inr el \<Rightarrow>
     (let mgr = relay_manager_new\<lparr>rm_max_sources := cfg_max_sources cfg\<rparr>
      in case add_io_threads be [0..<nat (cfg_io_threads cfg)] (tcp_server_new el (cfg_rtsp_port cfg) (cfg_backlog cfg)) of
        Inl e \<Rightarrow> Inl e
      | Inr rtsp \<Rightarrow>
     (let http = tcp_server_new el (cfg_http_port cfg) 256
      in case int_mul (cfg_stats_interval_sec cfg) 1000 of
        Inl e \<Rightarrow> Inl e
      | Inr delay \<Rightarrow>
     (let el = snd (add_timer (be_now be) delay StatsTimer True el)
      in case start_server (be_rtsp_sock be) (rtsp\<lparr>srv_accept := el\<rparr>) of
        Inl e \<Rightarrow> Inl e
      | Inr rtsp \<Rightarrow>
     (case start_server (be_http_sock be) (http\<lparr>srv_accept := srv_accept rtsp\<rparr>) of
        Inl e \<Rightarrow> Inl e
      | Inr http \<Rightarrow>
          Inr (\<lparr>rp_config = cfg, rp_signal_loop = True, rp_mgr = mgr, rp_effects = [],
                rp_rtsp = rtsp, rp_http = http, rp_sessions = [], rp_rng = be_rng be,
                rp_accepts = (\<lambda>_. []), rp_responses = [], rp_log = []\<rparr>,
               srv_accept http))))))"

section \<open>While it runs\<close>

definition signal_handler :: "proc_world \<Rightarrow> proc_world" where
  "signal_handler w = (fst w, if rp_signal_loop (fst w) then loop_quit (snd w) else snd w)"

text \<open>The connection callback of the RTSP server: a session for every connection that is set up.\<close>

definition rtsp_connection :: "int \<times> bytes \<Rightarrow> relay_process \<Rightarrow> relay_process" where
  "rtsp_connection conn p =
     (let self = length (rp_sessions p)
      in p\<lparr>rp_sessions := rp_sessions p @ [(fst conn, session_new self (snd conn) (rp_rng p self))]\<rparr>)"

definition start_sessions :: "relay_process \<Rightarrow> relay_process" where
  "start_sessions p = fold rtsp_connection (drop (length (rp_sessions p)) (srv_started (rp_rtsp p))) p"

definition on_rtsp :: "(tcp_server \<Rightarrow> tcp_server) \<Rightarrow> proc_world \<Rightarrow> proc_world" where
  "on_rtsp f w =
     (let srv = f ((rp_rtsp (fst w))\<lparr>srv_accept := snd w\<rparr>)
      in (start_sessions ((fst w)\<lparr>rp_rtsp := srv\<rparr>), srv_accept srv))"

definition on_http :: "(tcp_server \<Rightarrow> tcp_server) \<Rightarrow> proc_world \<Rightarrow> proc_world" where
  "on_http f w =
     (let srv = f ((rp_http (fst w))\<lparr>srv_accept := snd w\<rparr>)
      in ((fst w)\<lparr>rp_http := srv\<rparr>, srv_accept srv))"

text \<open>What the timer prints.\<close>

definition print_stats :: "relay_process \<Rightarrow> relay_process" where
  "print_stats p =
     (let stats = get_stats (rp_mgr p)
      in p\<lparr>rp_log := rp_log p @
             [''[Stats] === '' @ dec_nat (length stats) @ '' streams ==='' ] @
             map (\<lambda>s. ''[Stats]   '' @ c_str s) stats @
             [''[Stats] total sinks: '' @ dec_nat (total_sinks (rp_mgr p))]\<rparr>)"

text \<open>
  The closures of the main loop. \<open>[this]\<close> of the accept callback is the server that listens on the
  descriptor.
\<close>

fun main_exec :: "nat \<Rightarrow> (relay_process, srv_closure) loop_exec" where
  "main_exec self (RunEvent AcceptEvents fd ev) w =
     (let rs = rp_accepts (fst w) fd;
          w = ((fst w)\<lparr>rp_accepts := (rp_accepts (fst w))(fd := [])\<rparr>, snd w)
      in if fd = srv_listen_fd (rp_rtsp (fst w)) then on_rtsp (accept_loop self rs) w
         else on_http (accept_loop self rs) w)"
| "main_exec self (RunTimer StatsTimer) w = (print_stats (fst w), snd w)"
| "main_exec self _ w = w"

text \<open>
  What happens to the process: the kernel has results for \<open>accept\<close>, the main loop makes some turns,
  a signal comes, an IO thread runs its tasks, a request arrives on an HTTP connection, a session or
  a source calls the manager.
\<close>

datatype proc_op =
    ProcAcceptable int "accept_result list"
  | ProcLoop "(int \<times> poll_result) list"
  | ProcSignal
  | ProcIoTasks nat
  | ProcApi http_request
  | ProcMgr mgr_op

type_synonym main_partition =
  "(srv_closure loop_timer \<Rightarrow> bool) \<Rightarrow> srv_closure loop_timer list \<Rightarrow>
   srv_closure loop_timer list \<times> srv_closure loop_timer list"

fun proc_step :: "main_partition \<Rightarrow> nat \<Rightarrow> proc_op \<Rightarrow> proc_world \<Rightarrow> cpp_error + proc_world" where
  "proc_step part self (ProcAcceptable fd rs) w = Inr ((fst w)\<lparr>rp_accepts := (rp_accepts (fst w))(fd := rs)\<rparr>, snd w)"
| "proc_step part self (ProcLoop env) w = loop_rounds part (main_exec self) env w"
| "proc_step part self ProcSignal w = Inr (signal_handler w)"
| "proc_step part self (ProcIoTasks i) w = Inr (on_rtsp (run_io_tasks i) w)"
| "proc_step part self (ProcApi req) w =
     (case api_serve (cfg_rtsp_port (rp_config (fst w))) req (rp_mgr (fst w), rp_effects (fst w)) of
        Inl e \<Rightarrow> Inl e
      | Inr (resp, m, es) \<Rightarrow>
          Inr ((fst w)\<lparr>rp_mgr := m, rp_effects := es, rp_responses := rp_responses (fst w) @ [resp]\<rparr>, snd w))"
| "proc_step part self (ProcMgr op) w =
     (case mgr_step op (rp_mgr (fst w)) of
        Inl e \<Rightarrow> Inl e
      | Inr (m, es) \<Rightarrow> Inr ((fst w)\<lparr>rp_mgr := m, rp_effects := rp_effects (fst w) @ es\<rparr>, snd w))"

text \<open>\<open>addStream\<close> is called by the API only.\<close>

definition proc_enabled :: "proc_op \<Rightarrow> proc_world \<Rightarrow> bool" where
  "proc_enabled op w \<longleftrightarrow>
     (case op of
        ProcMgr mop \<Rightarrow> mgr_enabled mop (rp_mgr (fst w)) \<and> (\<forall>path url. mop \<noteq> MgrAdd path url)
      | _ \<Rightarrow> True)"

inductive proc_reachable :: "main_partition \<Rightarrow> boot_env \<Rightarrow> server_config \<Rightarrow> proc_world \<Rightarrow> bool"
  for part be cfg where
  boot: "main_boot be cfg = Inr w \<Longrightarrow> proc_reachable part be cfg (fst w, loop_start (be_self be) (snd w))"
| step: "proc_reachable part be cfg w \<Longrightarrow> proc_enabled op w \<Longrightarrow> proc_step part (be_self be) op w = Inr w' \<Longrightarrow>
    proc_reachable part be cfg w'"

section \<open>The end\<close>

text \<open>
  After the loop: \<open>g_main_loop\<close> is reset, and the local objects are destroyed in the reverse order of
  their declarations. The result is the descriptors closed by the servers and the calls of the
  sources; \<^theory_text>\<open>None\<close> is a destructor that never returns.
\<close>

definition main_end :: "proc_world \<Rightarrow> (cpp_error + int list \<times> mgr_effect list) option" where
  "main_end w =
     (case tcp_server_destroy (rp_http (fst w)) of
        None \<Rightarrow> None
      | Some closed_http \<Rightarrow>
          (case tcp_server_destroy (rp_rtsp (fst w)) of
             None \<Rightarrow> None
           | Some closed_rtsp \<Rightarrow>
               (case relay_manager_destroy (rp_mgr (fst w)) of
                  Inl e \<Rightarrow> Some (Inl e)
                | Inr (m, es) \<Rightarrow> Some (Inr (closed_http @ closed_rtsp, es)))))"

section \<open>What a server does to the loop it is lent\<close>

lemma accept_one_loop:
  assumes "el_thread (srv_accept srv) = self"
  shows "srv_accept (accept_one self fd peer srv) = srv_accept srv"
  using assms
  by (auto simp: accept_one_def get_next_loop_def is_in_loop_thread_def srv_loop_def srv_post_def run_setup_def)

lemma accept_loop_loop:
  "el_thread (srv_accept srv) = self \<Longrightarrow> srv_accept (accept_loop self rs srv) = srv_accept srv"
  by (induction rs arbitrary: srv) (simp_all add: accept_one_loop split: accept_result.split)

text \<open>What accepting and running tasks leave alone, and that they only add connections.\<close>

definition srv_grows :: "tcp_server \<Rightarrow> tcp_server \<Rightarrow> bool" where
  "srv_grows srv srv' \<longleftrightarrow> prefix (srv_started srv) (srv_started srv') \<and> srv_listen_fd srv' = srv_listen_fd srv \<and>
     map el_quit (srv_io srv') = map el_quit (srv_io srv)"

lemma srv_grows_refl [simp]: "srv_grows srv srv"
  by (simp add: srv_grows_def)

lemma srv_grows_trans: "srv_grows a b \<Longrightarrow> srv_grows b c \<Longrightarrow> srv_grows a c"
  by (auto simp: srv_grows_def)

lemma srv_grows_setup [simp]: "srv_grows srv (run_setup fd peer srv)"
  by (simp add: srv_grows_def run_setup_def)

lemma srv_grows_io: "el_quit el = el_quit (srv_io srv ! i) \<Longrightarrow> srv_grows srv (srv\<lparr>srv_io := (srv_io srv)[i := el]\<rparr>)"
  by (cases "i < length (srv_io srv)") (auto simp: srv_grows_def map_update list_eq_iff_nth_eq nth_list_update)

lemma srv_grows_accept_one: "srv_grows srv (accept_one self fd peer srv)"
proof -
  have "srv_grows srv (srv_post r c (srv\<lparr>srv_next_loop := k\<rparr>))" for r c k
    using srv_grows_io [of "run_in_loop c (srv_io srv ! i)" srv i for i]
    by (cases r) (simp_all add: srv_post_def run_in_loop_task srv_grows_def)
  moreover have "srv_grows srv (srv_post r c srv)" for r c
    using srv_grows_io [of "run_in_loop c (srv_io srv ! i)" srv i for i]
    by (cases r) (simp_all add: srv_post_def run_in_loop_task srv_grows_def)
  moreover have "srv_grows srv (run_setup fd peer (srv\<lparr>srv_next_loop := k\<rparr>))" for k
    by (simp add: srv_grows_def run_setup_def)
  ultimately show ?thesis by (simp add: accept_one_def get_next_loop_def)
qed

lemma srv_grows_accept: "srv_grows srv (accept_loop self rs srv)"
  by (induction rs arbitrary: srv)
    (auto split: accept_result.split intro: srv_grows_trans [OF srv_grows_accept_one])

lemma srv_grows_tasks: "srv_grows srv (run_io_tasks i srv)"
proof -
  have "srv_grows srv (fold (\<lambda>c. case c of SetupConn fd peer \<Rightarrow> run_setup fd peer | _ \<Rightarrow> (\<lambda>s. s)) cs srv)" for cs srv
    by (induction cs arbitrary: srv)
      (auto split: srv_closure.split intro: srv_grows_trans [OF srv_grows_setup])
  then show ?thesis
    using srv_grows_trans [OF srv_grows_io [of "(srv_io srv ! i)\<lparr>el_pending := []\<rparr>" srv i]]
    by (simp add: run_io_tasks_def Let_def)
qed

lemma run_io_tasks_loop: "srv_accept (run_io_tasks i srv) = srv_accept srv"
proof -
  have "srv_accept (fold (\<lambda>c. case c of SetupConn fd peer \<Rightarrow> run_setup fd peer | _ \<Rightarrow> (\<lambda>s. s)) cs srv) = srv_accept srv"
    for cs srv
    by (induction cs arbitrary: srv) (auto simp: run_setup_def split: srv_closure.split)
  then show ?thesis by (simp add: run_io_tasks_def Let_def)
qed

lemma srv_grows_lent [simp]: "srv_grows (srv\<lparr>srv_accept := el\<rparr>) srv' = srv_grows srv srv'"
  by (simp add: srv_grows_def)

section \<open>Sessions\<close>

text \<open>Every connection of the RTSP server that was set up has one session, with its peer's address.\<close>

definition sessions_from :: "(nat \<Rightarrow> u32) \<Rightarrow> nat \<Rightarrow> (int \<times> bytes) list \<Rightarrow> (int \<times> session) list" where
  "sessions_from rng n conns = map (\<lambda>(i, fd, peer). (fd, session_new i peer (rng i))) (List.enumerate n conns)"

lemma length_sessions_from [simp]: "length (sessions_from rng n conns) = length conns"
  by (simp add: sessions_from_def)

lemma sessions_from_append:
  "sessions_from rng n (xs @ ys) = sessions_from rng n xs @ sessions_from rng (n + length xs) ys"
  by (simp add: sessions_from_def enumerate_append_eq)

lemma fold_rtsp_connection:
  "fold rtsp_connection cs p = p\<lparr>rp_sessions := rp_sessions p @ sessions_from (rp_rng p) (length (rp_sessions p)) cs\<rparr>"
  by (induction cs arbitrary: p) (auto simp: rtsp_connection_def sessions_from_def Let_def)

definition sessions_ok :: "relay_process \<Rightarrow> bool" where
  "sessions_ok p \<longleftrightarrow> rp_sessions p = sessions_from (rp_rng p) 0 (srv_started (rp_rtsp p))"

lemma sessions_ok_start:
  assumes "sessions_ok p" "srv_grows (rp_rtsp p) srv"
  shows "start_sessions (p\<lparr>rp_rtsp := srv\<rparr>) =
      p\<lparr>rp_rtsp := srv, rp_sessions := sessions_from (rp_rng p) 0 (srv_started srv)\<rparr>"
proof -
  obtain new where new: "srv_started srv = srv_started (rp_rtsp p) @ new"
    using assms(2) by (auto simp: srv_grows_def prefix_def)
  show ?thesis
    using assms(1)
    by (simp add: start_sessions_def fold_rtsp_connection sessions_ok_def new sessions_from_append)
qed

section \<open>What stays true of the process\<close>

text \<open>The sockets of the two servers are made, bound and listening.\<close>

definition sock_ok :: "int \<times> bool \<times> bool \<Rightarrow> bool" where
  "sock_ok sock \<longleftrightarrow> 0 \<le> fst sock \<and> fst (snd sock) \<and> snd (snd sock)"

definition listens :: "srv_closure event_loop \<Rightarrow> int \<Rightarrow> bool" where
  "listens el fd \<longleftrightarrow>
     (case entry_of el fd of None \<Rightarrow> False | Some e \<Rightarrow> fe_read_cb e = Some (LoopClient AcceptEvents))"

definition proc_inv :: "boot_env \<Rightarrow> server_config \<Rightarrow> proc_world \<Rightarrow> bool" where
  "proc_inv be cfg w \<longleftrightarrow>
     rp_config (fst w) = cfg \<and> rp_signal_loop (fst w) \<and>
     mgr_reachable (rp_mgr (fst w)) \<and> slashed (rp_mgr (fst w)) \<and>
     rm_max_sources (rp_mgr (fst w)) = cfg_max_sources cfg \<and> sessions_ok (fst w) \<and>
     srv_listen_fd (rp_rtsp (fst w)) = fst (be_rtsp_sock be) \<and>
     srv_listen_fd (rp_http (fst w)) = fst (be_http_sock be) \<and>
     map el_quit (srv_io (rp_rtsp (fst w))) = replicate (nat (cfg_io_threads cfg)) False \<and>
     srv_io (rp_http (fst w)) = [] \<and> el_thread (snd w) = be_self be \<and>
     sock_ok (be_rtsp_sock be) \<and> sock_ok (be_http_sock be) \<and>
     listens (snd w) (fst (be_rtsp_sock be)) \<and> listens (snd w) (fst (be_http_sock be))"

text \<open>A server that grew and gave the loop back as it was.\<close>

lemma proc_inv_on_rtsp:
  assumes "proc_inv be cfg w" "\<And>srv. srv_grows srv (f srv)" "\<And>srv. el_thread (srv_accept srv) = be_self be \<Longrightarrow> srv_accept (f srv) = srv_accept srv"
  shows "proc_inv be cfg (on_rtsp f w)" and "snd (on_rtsp f w) = snd w"
proof -
  let ?srv = "f ((rp_rtsp (fst w))\<lparr>srv_accept := snd w\<rparr>)"
  have g: "srv_grows (rp_rtsp (fst w)) ?srv"
    using assms(2) [of "(rp_rtsp (fst w))\<lparr>srv_accept := snd w\<rparr>"] by simp
  have el: "srv_accept ?srv = snd w" using assms(1,3) by (simp add: proc_inv_def)
  then show "snd (on_rtsp f w) = snd w" by (simp add: on_rtsp_def Let_def)
  have "on_rtsp f w = ((fst w)\<lparr>rp_rtsp := ?srv, rp_sessions := sessions_from (rp_rng (fst w)) 0 (srv_started ?srv)\<rparr>, snd w)"
    using sessions_ok_start [OF _ g] assms(1) el by (simp add: on_rtsp_def Let_def proc_inv_def)
  with assms(1) g show "proc_inv be cfg (on_rtsp f w)"
    by (simp add: proc_inv_def sessions_ok_def srv_grows_def)
qed

lemma proc_inv_on_http:
  assumes "proc_inv be cfg w" "\<And>srv. srv_grows srv (f srv)" "\<And>srv. el_thread (srv_accept srv) = be_self be \<Longrightarrow> srv_accept (f srv) = srv_accept srv"
  shows "proc_inv be cfg (on_http f w)" and "snd (on_http f w) = snd w"
proof -
  let ?srv = "f ((rp_http (fst w))\<lparr>srv_accept := snd w\<rparr>)"
  have g: "srv_grows (rp_http (fst w)) ?srv"
    using assms(2) [of "(rp_http (fst w))\<lparr>srv_accept := snd w\<rparr>"] by simp
  have el: "srv_accept ?srv = snd w" using assms(1,3) by (simp add: proc_inv_def)
  then show "snd (on_http f w) = snd w" by (simp add: on_http_def Let_def)
  from assms(1) g el show "proc_inv be cfg (on_http f w)"
    by (auto simp: proc_inv_def sessions_ok_def srv_grows_def on_http_def Let_def)
qed

lemma proc_inv_frame [simp]:
  "proc_inv be cfg ((fst w)\<lparr>rp_accepts := a\<rparr>, snd w) = proc_inv be cfg w"
  "proc_inv be cfg ((fst w)\<lparr>rp_log := l\<rparr>, snd w) = proc_inv be cfg w"
  by (simp_all add: proc_inv_def sessions_ok_def)

lemma main_exec_inv:
  assumes "proc_inv be cfg w"
  shows "proc_inv be cfg (main_exec (be_self be) call w) \<and> snd (main_exec (be_self be) call w) = snd w"
proof (cases "(be_self be, call, w)" rule: main_exec.cases)
  case (1 self fd ev w')
  have inv: "proc_inv be cfg ((fst w)\<lparr>rp_accepts := (rp_accepts (fst w))(fd := [])\<rparr>, snd w)" using assms by simp
  let ?f = "accept_loop (be_self be) (rp_accepts (fst w) fd)"
  note r = proc_inv_on_rtsp [OF inv, where f = ?f] proc_inv_on_http [OF inv, where f = ?f]
  with 1 show ?thesis by (cases "fd = srv_listen_fd (rp_rtsp (fst w))") (auto simp: Let_def srv_grows_accept accept_loop_loop)
qed (use assms in \<open>simp_all add: print_stats_def Let_def\<close>)

interpretation main_keeps: loop_property "main_exec (be_self be)" "proc_inv be cfg" for be cfg
  by unfold_locales (simp_all add: main_exec_inv, simp_all add: proc_inv_def listens_def)

text \<open>The descriptors of the event loops.\<close>

definition loops_ok :: "boot_env \<Rightarrow> nat list \<Rightarrow> bool" where
  "loops_ok be is \<longleftrightarrow> 0 \<le> be_poll be \<and> 0 \<le> be_efd be \<and> (\<forall>i \<in> set is. 0 \<le> be_io_poll be i \<and> 0 \<le> be_io_efd be i)"

lemma add_io_threads_io:
  "add_io_threads be is srv =
    (if \<forall>i \<in> set is. 0 \<le> be_io_poll be i \<and> 0 \<le> be_io_efd be i
     then Inr (srv\<lparr>srv_io := srv_io srv @
       map (\<lambda>i. loop_start (be_io_thread be i) (event_loop_new (be_self be) (be_io_efd be i))) is\<rparr>)
     else Inl Aborted)"
  by (induction "is" arbitrary: srv) (auto simp: add_io_thread_def event_loop_open_def Let_def)

lemma start_server_facts:
  "start_server (fd, b, l) srv =
    (if fd < 0 \<or> \<not> b \<or> \<not> l then Inl Aborted
     else Inr (srv\<lparr>srv_listen_fd := fd, srv_accept := add_fd fd kEventRead (LoopClient AcceptEvents) (srv_accept srv)\<rparr>))"
  by (simp add: start_server_def srv_start_def Let_def)

lemma listens_add:
  "listens (add_fd fd kEventRead (LoopClient AcceptEvents) el) fd' \<longleftrightarrow> fd' = fd \<or> listens el fd'"
  by (auto simp: listens_def add_fd_eq kEventRead_def Let_def AList.update_conv')

text \<open>
  The start of the process, for every configuration: it meets undefined behaviour exactly
  if the loops can be made and the statistics interval, in seconds, does not fit an \<open>int\<close> as milliseconds, aborts exactly if an
  event loop or a socket cannot be made, or a socket not bound or listened on, and otherwise succeeds, with the number of IO loops,
  the limit of streams and the two ports of the configuration, both sockets watched, and one timer, due
  after the interval and with the interval as its period (so a period of 0 seconds prints once, a
  negative one once and at once).
\<close>

theorem main_boot_outcome:
  "case main_boot be cfg of
     Inl e \<Rightarrow>
       (if \<not> loops_ok be [0..<nat (cfg_io_threads cfg)] then e = Aborted
        else if \<bar>cfg_stats_interval_sec cfg\<bar> > 2147483 then e = SignedOverflow
        else e = Aborted \<and> \<not> (sock_ok (be_rtsp_sock be) \<and> sock_ok (be_http_sock be)))
   | Inr (p, el) \<Rightarrow>
       loops_ok be [0..<nat (cfg_io_threads cfg)] \<and> \<bar>cfg_stats_interval_sec cfg\<bar> \<le> 2147483 \<and> sock_ok (be_rtsp_sock be) \<and> sock_ok (be_http_sock be) \<and>
       length (srv_io (rp_rtsp p)) = nat (cfg_io_threads cfg) \<and> srv_io (rp_http p) = [] \<and>
       srv_port (rp_rtsp p) = cfg_rtsp_port cfg \<and> srv_port (rp_http p) = cfg_http_port cfg \<and>
       rm_max_sources (rp_mgr p) = cfg_max_sources cfg \<and>
       listens el (fst (be_rtsp_sock be)) \<and> listens el (fst (be_http_sock be)) \<and>
       map (\<lambda>t. (tm_expire_ms t, tm_interval_ms t)) (el_timers el) =
         [(be_now be + cfg_stats_interval_sec cfg * 1000, cfg_stats_interval_sec cfg * 1000)]"
proof -
  obtain fd1 b1 l1 where r: "be_rtsp_sock be = (fd1, b1, l1)" by (cases "be_rtsp_sock be")
  obtain fd2 b2 l2 where h: "be_http_sock be = (fd2, b2, l2)" by (cases "be_http_sock be")
  have ov: "int_mul (cfg_stats_interval_sec cfg) 1000 =
      (if \<bar>cfg_stats_interval_sec cfg\<bar> > 2147483 then Inl SignedOverflow else Inr (cfg_stats_interval_sec cfg * 1000))"
    by (auto simp: int_mul_def)
  show ?thesis
    unfolding main_boot_def Let_def ov r h start_server_facts
    by (auto simp: sock_ok_def loops_ok_def event_loop_open_def add_io_threads_io listens_add tcp_server_new_def relay_manager_new_def add_timer_def Let_def)
      (auto simp: add_fd_eq event_loop_new_def Let_def)
qed

definition demo_boot :: boot_env where
  "demo_boot =
     \<lparr>be_self = 0, be_poll = 3, be_efd = 4, be_io_poll = (\<lambda>i. 10 + int i), be_io_efd = (\<lambda>i. 50 + int i), be_io_thread = Suc, be_rtsp_sock = (5, True, True),
      be_http_sock = (6, True, True), be_now = 0, be_rng = (\<lambda>i. of_nat (7 * i + 1))\<rparr>"

theorem main_boot_outcome_witness:
  "main_boot demo_boot (config_parse_string (''[server]'' @ [LF] @ ''stats_interval_sec = 3000000'')) = Inl SignedOverflow \<and>
    (case main_boot demo_boot (config_parse_string ''[server]'') of
       Inl e \<Rightarrow> False | Inr (p, el) \<Rightarrow> length (srv_io (rp_rtsp p)) = 4 \<and> listens el 5 \<and> listens el 6)"
proof -
  let ?c1 = "config_parse_string (''[server]'' @ [LF] @ ''stats_interval_sec = 3000000'')"
  let ?c2 = "config_parse_string ''[server]''"
  have c: "cfg_stats_interval_sec ?c1 = 3000000" "cfg_stats_interval_sec ?c2 = 10" "cfg_io_threads ?c2 = 4"
    by code_simp+
  have ok: "sock_ok (be_rtsp_sock demo_boot) \<and> sock_ok (be_http_sock demo_boot)" by code_simp
  have loops: "loops_ok demo_boot is" for "is" by (simp add: loops_ok_def demo_boot_def)
  show ?thesis
    using main_boot_outcome [where be = demo_boot and cfg = ?c1] main_boot_outcome [where be = demo_boot and cfg = ?c2] c ok loops
    by (auto split: sum.splits simp: demo_boot_def)
qed

lemma proc_inv_boot:
  assumes "main_boot be cfg = Inr w"
  shows "proc_inv be cfg (fst w, loop_start (be_self be) (snd w))"
proof -
  obtain fd1 b1 l1 where r: "be_rtsp_sock be = (fd1, b1, l1)" by (cases "be_rtsp_sock be")
  obtain fd2 b2 l2 where h: "be_http_sock be = (fd2, b2, l2)" by (cases "be_http_sock be")
  have start: "listens (el\<lparr>el_thread := n, el_quit := q\<rparr>) fd = listens el fd" for n q el fd
    by (simp add: listens_def)
  show ?thesis
    using assms mgr_reachable.new [of "cfg_max_sources cfg"]
    unfolding main_boot_def Let_def r h start_server_facts
    by (auto simp: proc_inv_def sock_ok_def event_loop_open_def r h start listens_add add_io_threads_io comp_def map_replicate_const tcp_server_new_def sessions_ok_def sessions_from_def
        slashed_def has_stream_def rm_find_def relay_manager_new_def loop_start_def split: sum.splits if_splits)
qed

section \<open>The process as a whole\<close>

lemma main_dispatch_total:
  assumes "proc_inv be cfg w"
  shows "\<exists>w'. dispatch_event (main_exec (be_self be)) ev w = Inr w'"
proof -
  have same: "el_fds (snd (call_cb (main_exec (be_self be)) cb fd e w)) = el_fds (snd w)" for cb fd e
    using main_exec_inv [OF assms] by (simp add: call_cb_def frame_simps split: option.split loop_cb.split)
  show ?thesis
    by (cases ev) (auto simp: dispatch_event_def Let_def same split: option.split)
qed

lemma slashed_step:
  assumes "slashed m" "rm_inv m" "mgr_step op m = Inr (m', es)" "\<forall>path url. op \<noteq> MgrAdd path url"
  shows "slashed m'"
  using mgr_step_has_stream [OF assms(2,3)] assms(1,4) by (auto simp: slashed_def)

lemma mgr_step_limit:
  "mgr_step op m = Inr (m', es) \<Longrightarrow> rm_max_sources m' = rm_max_sources m"
  by (auto simp: mgr_step_def add_sink_def remove_sink_def with_source_def frame_simps
      split: mgr_op.splits option.splits sum.splits dest: remove_stream_limit,
     metis add_stream_limit prod.collapse)

lemma proc_inv_mgr:
  "proc_inv be cfg w \<Longrightarrow> mgr_reachable m \<Longrightarrow> slashed m \<Longrightarrow> rm_max_sources m = cfg_max_sources cfg \<Longrightarrow>
    proc_inv be cfg ((fst w)\<lparr>rp_mgr := m, rp_effects := es\<rparr>, snd w)"
  by (simp add: proc_inv_def sessions_ok_def)

lemma proc_inv_step:
  assumes "proc_inv be cfg w" "proc_enabled op w"
  shows "\<exists>w'. proc_step part (be_self be) op w = Inr w' \<and> proc_inv be cfg w'"
proof (cases op)
  case (ProcLoop env)
  obtain w' where "loop_rounds part (main_exec (be_self be)) env w = Inr w'"
    using main_keeps.rounds_total [where be = be and cfg = cfg, OF main_dispatch_total [of be cfg] assms(1)] by blast
  with main_keeps.keeps_rounds [OF assms(1)] ProcLoop show ?thesis by auto
next
  case ProcSignal
  with assms(1) show ?thesis
    by (auto simp: signal_handler_def proc_inv_def loop_quit_def wakeup_def listens_def)
next
  case (ProcIoTasks i)
  with proc_inv_on_rtsp(1) [OF assms(1) srv_grows_tasks] show ?thesis by (simp add: run_io_tasks_loop)
next
  case (ProcApi req)
  let ?m = "rp_mgr (fst w)"
  have "api_good (api_serve (cfg_rtsp_port cfg) req (?m, rp_effects (fst w)))"
    using assms(1) by (intro api_good_serve) (simp_all add: proc_inv_def)
  then obtain resp m es where r: "api_serve (cfg_rtsp_port cfg) req (?m, rp_effects (fst w)) = Inr (resp, m, es)"
    and m: "mgr_reachable m" "slashed m"
    by (auto simp: api_good_def split: sum.splits)
  have "rm_max_sources m = cfg_max_sources cfg"
    using api_serve_limit [OF r] assms(1) by (simp add: proc_inv_def)
  with proc_inv_mgr [OF assms(1) m] r ProcApi assms(1) show ?thesis
    by (auto simp: proc_inv_def sessions_ok_def)
next
  case (ProcMgr mop)
  let ?m = "rp_mgr (fst w)"
  have m: "mgr_reachable ?m" "mgr_inv ?m" "slashed ?m" "rm_max_sources ?m = cfg_max_sources cfg"
    using assms(1) mgr_reachable_inv by (simp_all add: proc_inv_def)
  have en: "mgr_enabled mop ?m" "\<forall>path url. mop \<noteq> MgrAdd path url"
    using assms(2) ProcMgr by (simp_all add: proc_enabled_def)
  obtain m' es where r: "mgr_step mop ?m = Inr (m', es)" using mgr_inv_step [OF m(2) en(1)] by blast
  have "mgr_reachable m'" using mgr_reachable.step [OF m(1) en(1) r] .
  moreover have "slashed m'" using slashed_step [OF m(3) _ r en(2)] m(2) by (simp add: mgr_inv_def)
  moreover have "rm_max_sources m' = cfg_max_sources cfg" using mgr_step_limit [OF r] m(4) by simp
  ultimately show ?thesis using proc_inv_mgr [OF assms(1)] r ProcMgr by auto
qed (use assms in simp)

lemma proc_reachable_inv: "proc_reachable part be cfg w \<Longrightarrow> proc_inv be cfg w"
proof (induction rule: proc_reachable.induct)
  case (step w op w')
  then show ?case using proc_inv_step [of be cfg w op part] by auto
qed (rule proc_inv_boot)


text \<open>A run from the start, for concrete processes.\<close>

fun proc_run :: "main_partition \<Rightarrow> nat \<Rightarrow> proc_op list \<Rightarrow> proc_world \<Rightarrow> cpp_error + proc_world" where
  "proc_run part self [] w = Inr w"
| "proc_run part self (op # ops) w =
     (case proc_step part self op w of Inl e \<Rightarrow> Inl e | Inr w \<Rightarrow> proc_run part self ops w)"

lemma proc_run_reachable:
  "proc_run part (be_self be) ops w = Inr w' \<Longrightarrow> list_all (\<lambda>op. \<forall>mop. op \<noteq> ProcMgr mop) ops \<Longrightarrow>
    proc_reachable part be cfg w \<Longrightarrow> proc_reachable part be cfg w'"
proof (induction ops arbitrary: w)
  case (Cons op ops)
  obtain w1 where w1: "proc_step part (be_self be) op w = Inr w1" "proc_run part (be_self be) ops w1 = Inr w'"
    using Cons.prems(1) by (auto split: sum.splits)
  have "proc_enabled op w" using Cons.prems(2) by (cases op) (simp_all add: proc_enabled_def)
  then have "proc_reachable part be cfg w1" using Cons.prems(3) w1(1) proc_reachable.step by blast
  with Cons w1(2) show ?case by simp
qed simp

text \<open>
  A player connects, the main loop accepts it and hands it to the first IO loop, which sets it up.
\<close>

definition demo_ops :: "proc_op list" where
  "demo_ops = [ProcAcceptable 5 [Accepted 20 [10, 0, 0, 1] 5000, AcceptAgain], ProcLoop [(1, PollReady [(5, EPOLLIN)])],
     ProcIoTasks 0, ProcSignal]"

definition demo_cfg :: server_config where
  "demo_cfg = main_config
     [''relay.conf'' \<mapsto> ''[server]'' @ [LF] @ ''io_threads=2'' @ [LF] @ ''max_sources=1''] [''rtsp_relay'', ''relay.conf'']"

lemma demo_process:
  obtains w where "proc_reachable List.partition demo_boot demo_cfg w" "map fst (rp_sessions (fst w)) = [20]" "el_quit (snd w)"
proof -
  let ?out = "case main_boot demo_boot demo_cfg of
      Inl e \<Rightarrow> Inl e
    | Inr w \<Rightarrow> proc_run List.partition (be_self demo_boot) demo_ops (fst w, loop_start (be_self demo_boot) (snd w))"
  have "case ?out of Inl e \<Rightarrow> False | Inr w \<Rightarrow> map fst (rp_sessions (fst w)) = [20] \<and> el_quit (snd w)"
    by code_simp
  then obtain w0 w where w: "main_boot demo_boot demo_cfg = Inr w0"
    "proc_run List.partition (be_self demo_boot) demo_ops (fst w0, loop_start (be_self demo_boot) (snd w0)) = Inr w"
    "map fst (rp_sessions (fst w)) = [20]" "el_quit (snd w)"
    by (auto split: sum.splits)
  have "list_all (\<lambda>op. \<forall>mop. op \<noteq> ProcMgr mop) demo_ops" by (simp add: demo_ops_def)
  with w(1,2) have "proc_reachable List.partition demo_boot demo_cfg w"
    using proc_run_reachable proc_reachable.boot by metis
  from that [OF this w(3,4)] show thesis .
qed


section \<open>The end of the process\<close>

lemma stop_all_total:
  "\<forall>(path, rel) \<in> set rels. src_inv (rel_source rel) \<Longrightarrow> \<exists>es'. stop_all rels es = Inr es'"
proof (induction rels arbitrary: es)
  case (Cons pr rels)
  obtain path rel where pr: "pr = (path, rel)" by (cases pr)
  obtain s' es1 where "source_stop (rel_source rel, []) = Inr (s', es1)"
    using Cons.prems pr src_inv_stop [of "(rel_source rel, [])"] by auto
  with Cons pr show ?case by simp
qed simp

lemma manager_destroy_total: "mgr_inv m \<Longrightarrow> \<exists>m' es. relay_manager_destroy m = Inr (m', es)"
proof -
  assume inv: "mgr_inv m"
  have "src_inv (rel_source rel)" if "(path, rel) \<in> set (rm_streams m)" for path rel
  proof -
    have "rm_find m path = Some rel" using inv that by (simp add: mgr_inv_def rm_inv_def rm_find_def)
    then show ?thesis using inv by (auto simp: mgr_inv_def relay_ok_def)
  qed
  then obtain es where "stop_all (rm_streams m) [] = Inr es" using stop_all_total [of "rm_streams m" "[]"] by blast
  then show ?thesis by (simp add: relay_manager_destroy_def)
qed



end
