(* ===== verification/Conn_Ownership.thy ===== *)
theory Conn_Ownership
  imports Relay_Prelude
begin

text \<open>
  Who keeps connections and sessions alive: the \<open>std::shared_ptr\<close> to them, as a list of pairs of a
  holder and the object held. \<open>TcpConnection::start\<close> puts one into the closure the loop holds for the
  descriptor, \<open>RtspSession::start\<close> (\<open>src/src/rtsp_session.cpp\<close>) three to the session into the
  callbacks of the connection, the session itself holds its connection, and the sink list of a
  stream holds the sessions that play it. \<open>HttpServer::start\<close> (\<open>src/src/http_server.cpp\<close>) captures no
  pointer. The theorems follow from counting: a connection of the HTTP server is freed in the
  middle of its own \<open>handleClose\<close>, a connection of the RTSP server never.
\<close>

datatype cell = ConnCell nat | SessionCell nat

datatype holder = ByLoop int | ByConn nat | BySession nat | BySinks bytes

fun holder_of :: "cell \<Rightarrow> holder" where
  "holder_of (ConnCell i) = ByConn i"
| "holder_of (SessionCell i) = BySession i"

record heap =
  hp_refs :: "(holder \<times> cell) list"
  hp_freed :: "cell list"

text \<open>
  The pointers of a list are destroyed, one after the other; the last pointer to an object destroys the
  object, and with it the pointers it holds.
\<close>

function drop_refs :: "(holder \<times> cell) list \<Rightarrow> heap \<Rightarrow> heap" where
  "drop_refs [] h = h"
| "drop_refs (r # rs) h =
     (if r \<in> set (hp_refs h) then
        let h = h\<lparr>hp_refs := remove1 r (hp_refs h)\<rparr>
        in if snd r \<in> snd ` set (hp_refs h) then drop_refs rs h
           else drop_refs (filter (\<lambda>q. fst q = holder_of (snd r)) (hp_refs h) @ rs)
             (h\<lparr>hp_freed := hp_freed h @ [snd r]\<rparr>)
      else drop_refs rs h)"
  by pat_completeness auto
termination
  by (relation "measures [\<lambda>(rs, h). length (hp_refs h), \<lambda>(rs, h). length rs]")
    (auto simp: length_remove1 dest: length_pos_if_in_set)

declare drop_refs.simps(2) [simp del]

section \<open>Operations\<close>

text \<open>The connection callback of \<open>main\<close> for the RTSP server, with \<open>RtspSession::start\<close> and then \<open>TcpConnection::start\<close>.\<close>

definition own_session_start :: "nat \<Rightarrow> heap \<Rightarrow> heap" where
  "own_session_start i h = h\<lparr>hp_refs := replicate 3 (ByConn i, SessionCell i) @ (BySession i, ConnCell i) # hp_refs h\<rparr>"

definition own_conn_start :: "nat \<Rightarrow> int \<Rightarrow> heap \<Rightarrow> heap" where
  "own_conn_start i fd h = h\<lparr>hp_refs := (ByLoop fd, ConnCell i) # hp_refs h\<rparr>"

definition own_accept_rtsp :: "nat \<Rightarrow> int \<Rightarrow> heap \<Rightarrow> heap" where
  "own_accept_rtsp i fd h = own_conn_start i fd (own_session_start i h)"

text \<open>The one of \<open>HttpServer::start\<close>: the message callback captures the server only.\<close>

definition own_accept_http :: "nat \<Rightarrow> int \<Rightarrow> heap \<Rightarrow> heap" where
  "own_accept_http i fd h = own_conn_start i fd h"

definition own_add_sink :: "bytes \<Rightarrow> nat \<Rightarrow> heap \<Rightarrow> heap" where
  "own_add_sink path i h = h\<lparr>hp_refs := (BySinks path, SessionCell i) # hp_refs h\<rparr>"

definition own_remove_sink :: "bytes \<Rightarrow> nat \<Rightarrow> heap \<Rightarrow> heap" where
  "own_remove_sink path i = drop_refs [(BySinks path, SessionCell i)]"

definition own_remove_stream :: "bytes \<Rightarrow> heap \<Rightarrow> heap" where
  "own_remove_stream path h = drop_refs (filter (\<lambda>r. fst r = BySinks path) (hp_refs h)) h"

text \<open>
  \<open>handleClose\<close> and \<open>handleError\<close>: \<open>delFd\<close> destroys the closure; what follows uses the connection.
  \<open>playing\<close> is the stream a session leaves in its \<open>close()\<close>.
\<close>

definition own_handle_close :: "nat \<Rightarrow> int \<Rightarrow> bytes option \<Rightarrow> heap \<Rightarrow> cpp_error + heap" where
  "own_handle_close i fd playing h =
     (let h = drop_refs [(ByLoop fd, ConnCell i)] h
      in if ConnCell i \<in> set (hp_freed h) then Inl UseAfterFree
         else Inr (case playing of None \<Rightarrow> h | Some path \<Rightarrow> own_remove_sink path i h))"

text \<open>
  What can happen; the identity of a new object is unused, a session that plays exists, and a
  connection is closed from the closure the loop holds.
\<close>

datatype own_op =
    OwnAcceptRtsp nat int
  | OwnAcceptHttp nat int
  | OwnPlay bytes nat
  | OwnRemoveSink bytes nat
  | OwnRemoveStream bytes
  | OwnClose nat int "bytes option"

fun own_step :: "own_op \<Rightarrow> heap \<Rightarrow> cpp_error + heap" where
  "own_step (OwnAcceptRtsp i fd) h = Inr (own_accept_rtsp i fd h)"
| "own_step (OwnAcceptHttp i fd) h = Inr (own_accept_http i fd h)"
| "own_step (OwnPlay path i) h = Inr (own_add_sink path i h)"
| "own_step (OwnRemoveSink path i) h = Inr (own_remove_sink path i h)"
| "own_step (OwnRemoveStream path) h = Inr (own_remove_stream path h)"
| "own_step (OwnClose i fd playing) h = own_handle_close i fd playing h"

definition cell_new :: "nat \<Rightarrow> heap \<Rightarrow> bool" where
  "cell_new i h \<longleftrightarrow> (\<forall>c \<in> {ConnCell i, SessionCell i}. c \<notin> snd ` set (hp_refs h) \<and> c \<notin> set (hp_freed h))"

definition own_enabled :: "own_op \<Rightarrow> heap \<Rightarrow> bool" where
  "own_enabled op h \<longleftrightarrow>
     (case op of
        OwnAcceptRtsp i fd \<Rightarrow> cell_new i h
      | OwnAcceptHttp i fd \<Rightarrow> cell_new i h
      | OwnPlay path i \<Rightarrow> (BySession i, ConnCell i) \<in> set (hp_refs h)
      | OwnClose i fd playing \<Rightarrow> (ByLoop fd, ConnCell i) \<in> set (hp_refs h)
      | _ \<Rightarrow> True)"

fun own_run :: "own_op list \<Rightarrow> heap \<Rightarrow> cpp_error + heap" where
  "own_run [] h = Inr h"
| "own_run (op # ops) h = (case own_step op h of Inl e \<Rightarrow> Inl e | Inr h \<Rightarrow> own_run ops h)"

fun own_enabled_run :: "own_op list \<Rightarrow> heap \<Rightarrow> bool" where
  "own_enabled_run [] h = True"
| "own_enabled_run (op # ops) h =
     (own_enabled op h \<and> (case own_step op h of Inl e \<Rightarrow> True | Inr h \<Rightarrow> own_enabled_run ops h))"

section \<open>What dropping pointers leaves alone\<close>

text \<open>
  A set of pointers that hold one another's owners survives as long as none of them is dropped.
\<close>

lemma drop_refs_keeps:
  assumes "\<And>r. r \<in> S \<Longrightarrow> \<forall>c. fst r = holder_of c \<longrightarrow> c \<in> snd ` S"
  shows "S \<subseteq> set (hp_refs h) \<Longrightarrow> S \<inter> set rs = {} \<Longrightarrow> snd ` S \<inter> set (hp_freed h) = {} \<Longrightarrow>
    S \<subseteq> set (hp_refs (drop_refs rs h)) \<and> snd ` S \<inter> set (hp_freed (drop_refs rs h)) = {}"
proof (induction rs h rule: drop_refs.induct)
  case (2 r rs h)
  let ?h = "h\<lparr>hp_refs := remove1 r (hp_refs h)\<rparr>"
  have r: "r \<notin> S" using "2.prems" by auto
  have S: "S \<subseteq> set (hp_refs ?h)"
  proof
    fix q assume "q \<in> S"
    with r "2.prems"(1) have "q \<noteq> r" "q \<in> set (hp_refs h)" by auto
    then show "q \<in> set (hp_refs ?h)" by simp
  qed
  show ?case
  proof (cases "r \<in> set (hp_refs h)")
    case True
    show ?thesis
    proof (cases "snd r \<in> snd ` set (hp_refs ?h)")
      case t: True
      with "2.IH"(1) [OF True refl t] S True "2.prems" show ?thesis by (simp add: drop_refs.simps(2) Let_def)
    next
      case f: False
      have c: "snd r \<notin> snd ` S" using f S by blast
      have "S \<inter> set (filter (\<lambda>q. fst q = holder_of (snd r)) (hp_refs ?h) @ rs) = {}"
        using assms c "2.prems"(2) by auto
      moreover have "snd ` S \<inter> set (hp_freed (?h\<lparr>hp_freed := hp_freed ?h @ [snd r]\<rparr>)) = {}"
        using c "2.prems"(3) by auto
      ultimately show ?thesis
        using "2.IH"(2) [OF True refl f] S True f by (simp add: drop_refs.simps(2) Let_def)
    qed
  next
    case False
    with "2.IH"(3) "2.prems" show ?thesis by (simp add: drop_refs.simps(2))
  qed
qed simp

lemma drop_refs_fewer: "length (filter P (hp_refs (drop_refs rs h))) \<le> length (filter P (hp_refs h))"
proof (induction rs h rule: drop_refs.induct)
  case (2 r rs h)
  have "length (filter P (remove1 r xs)) \<le> length (filter P xs)" for xs :: "(holder \<times> cell) list"
    by (induction xs) auto
  from this [of "hp_refs h"] 2 show ?case
    by (auto simp: drop_refs.simps(2) Let_def intro: order_trans)
qed simp

section \<open>A connection of the HTTP server\<close>

definition only_by_loop :: "nat \<Rightarrow> int \<Rightarrow> heap \<Rightarrow> bool" where
  "only_by_loop i fd h \<longleftrightarrow>
     filter (\<lambda>r. snd r = ConnCell i) (hp_refs h) = [(ByLoop fd, ConnCell i)] \<and> ConnCell i \<notin> set (hp_freed h)"

lemma only_by_loop_mem: "only_by_loop i fd h \<Longrightarrow> (r, ConnCell i) \<in> set (hp_refs h) \<longleftrightarrow> r = ByLoop fd"
proof -
  assume "only_by_loop i fd h"
  then have "(r, ConnCell i) \<in> set (filter (\<lambda>r. snd r = ConnCell i) (hp_refs h)) \<longleftrightarrow> r = ByLoop fd"
    by (simp add: only_by_loop_def del: set_filter)
  then show ?thesis by simp
qed

lemma only_by_loop_drop:
  assumes "only_by_loop i fd h" and "(ByLoop fd, ConnCell i) \<notin> set rs"
  shows "only_by_loop i fd (drop_refs rs h)"
proof -
  let ?r = "(ByLoop fd, ConnCell i)" and ?f = "filter (\<lambda>r. snd r = ConnCell i)"
  have "fst ?r \<noteq> holder_of c" for c by (cases c) simp_all
  then have keep: "{?r} \<subseteq> set (hp_refs (drop_refs rs h)) \<and> snd ` {?r} \<inter> set (hp_freed (drop_refs rs h)) = {}"
    using assms only_by_loop_mem [OF assms(1), of "ByLoop fd"]
    by (intro drop_refs_keeps) (auto simp: only_by_loop_def)
  have "length (?f (hp_refs (drop_refs rs h))) \<le> 1"
    using drop_refs_fewer [of "\<lambda>r. snd r = ConnCell i" rs h] assms(1) by (simp add: only_by_loop_def)
  moreover have "?r \<in> set (?f (hp_refs (drop_refs rs h)))" using keep by simp
  ultimately have "?f (hp_refs (drop_refs rs h)) = [?r]"
    by (cases "?f (hp_refs (drop_refs rs h))") auto
  with keep show ?thesis by (simp add: only_by_loop_def)
qed

lemma drop_refs_freed: "set (hp_freed h) \<subseteq> set (hp_freed (drop_refs rs h))"
proof (induction rs h rule: drop_refs.induct)
  case (2 r rs h)
  then show ?case by (auto simp: drop_refs.simps(2) Let_def)
qed simp

lemma only_by_loop_close:
  assumes "only_by_loop i fd h"
  shows "own_handle_close i fd playing h = Inl UseAfterFree"
proof -
  let ?r = "(ByLoop fd, ConnCell i)"
  have r: "?r \<in> set (hp_refs h)" using only_by_loop_mem [OF assms] by simp
  have "filter (\<lambda>r. snd r = ConnCell i) (remove1 ?r (hp_refs h)) = []"
    using assms by (simp add: only_by_loop_def filter_remove1)
  then have last: "ConnCell i \<notin> snd ` set (remove1 ?r (hp_refs h))"
    by (auto simp: filter_empty_conv)
  let ?h = "h\<lparr>hp_refs := remove1 ?r (hp_refs h), hp_freed := hp_freed h @ [ConnCell i]\<rparr>"
  have "drop_refs [?r] h = drop_refs (filter (\<lambda>q. fst q = ByConn i) (remove1 ?r (hp_refs h))) ?h"
    using r last by (simp add: drop_refs.simps(2))
  then have "ConnCell i \<in> set (hp_freed (drop_refs [?r] h))"
    using drop_refs_freed [of ?h] by auto
  then show ?thesis by (simp add: own_handle_close_def Let_def)
qed

lemma close_drops:
  assumes "own_handle_close i fd playing h = Inr h'"
  obtains rs where "h' = drop_refs rs (drop_refs [(ByLoop fd, ConnCell i)] h)" "\<forall>r \<in> set rs. \<exists>p. fst r = BySinks p"
proof (cases playing)
  case None
  then have "h' = drop_refs [] (drop_refs [(ByLoop fd, ConnCell i)] h)"
    using assms by (simp add: own_handle_close_def Let_def split: if_splits)
  then show ?thesis by (rule that) simp
next
  case (Some p)
  then have "h' = drop_refs [(BySinks p, SessionCell i)] (drop_refs [(ByLoop fd, ConnCell i)] h)"
    using assms by (simp add: own_handle_close_def own_remove_sink_def Let_def split: if_splits)
  then show ?thesis by (rule that) simp
qed

lemma only_by_loop_step:
  assumes "only_by_loop i fd h" and "own_enabled op h" and "own_step op h = Inr h'"
  shows "only_by_loop i fd h'"
proof -
  have old: "\<not> cell_new i h" using only_by_loop_mem [OF assms(1)] by (force simp: cell_new_def)
  show ?thesis
  proof (cases op)
    case (OwnClose j fd' playing)
    then have c: "own_handle_close j fd' playing h = Inr h'" using assms(3) by simp
    then have "(fd', j) \<noteq> (fd, i)" using only_by_loop_close [OF assms(1), of playing] by auto
    moreover obtain rs where "h' = drop_refs rs (drop_refs [(ByLoop fd', ConnCell j)] h)"
      "\<forall>r \<in> set rs. \<exists>p. fst r = BySinks p" using close_drops [OF c] .
    ultimately show ?thesis using assms(1) by (auto intro!: only_by_loop_drop)
  next
    case (OwnRemoveSink p j)
    then show ?thesis using assms by (auto simp: own_remove_sink_def intro!: only_by_loop_drop)
  next
    case (OwnRemoveStream p)
    then show ?thesis using assms by (auto simp: own_remove_stream_def intro!: only_by_loop_drop)
  qed (use assms old in \<open>auto simp: own_enabled_def only_by_loop_def own_accept_rtsp_def
        own_accept_http_def own_session_start_def own_conn_start_def own_add_sink_def\<close>)
qed

lemma own_run_invariant:
  assumes "\<And>op h h'. I h \<Longrightarrow> own_enabled op h \<Longrightarrow> own_step op h = Inr h' \<Longrightarrow> I h'"
  shows "I h \<Longrightarrow> own_enabled_run ops h \<Longrightarrow> own_run ops h = Inr h' \<Longrightarrow> I h'"
proof (induction ops arbitrary: h)
  case (Cons op ops)
  then show ?case using assms by (auto split: sum.splits)
qed simp

text \<open>
  C19. A connection of the HTTP server whose peer goes away is destroyed in the middle of its own
  \<open>handleClose\<close>: whatever other connections, sessions and streams did since it was accepted, the
  closure in the loop holds the only pointer to it, \<open>delFd\<close> destroys that closure, and the next
  statement, \<open>::close(fd_)\<close>, reads freed memory.
\<close>

theorem http_close_use_after_free:
  assumes "own_enabled_run (OwnAcceptHttp i fd # ops) h" and "own_run (OwnAcceptHttp i fd # ops) h = Inr h'"
  shows "own_handle_close i fd playing h' = Inl UseAfterFree"
proof -
  let ?h = "own_accept_http i fd h"
  have "only_by_loop i fd ?h"
    using assms(1)
    by (auto simp: own_enabled_def cell_new_def own_accept_http_def own_conn_start_def only_by_loop_def
        filter_empty_conv image_iff)
  then have "only_by_loop i fd h'"
    by (rule own_run_invariant [of "only_by_loop i fd", OF only_by_loop_step, rotated 3])
      (use assms in simp_all)
  then show ?thesis by (rule only_by_loop_close)
qed

text \<open>
  Connection 1 is the HTTP one; connection 0 plays a stream and goes away meanwhile.
\<close>

definition demo_own_ops :: "own_op list" where
  "demo_own_ops = [OwnPlay ''/live'' 0, OwnClose 0 7 (Some ''/live''), OwnRemoveStream ''/live'']"

theorem http_close_use_after_free_witness:
  "own_handle_close 1 8 None
     (case own_run (OwnAcceptHttp 1 8 # OwnAcceptRtsp 0 7 # demo_own_ops) \<lparr>hp_refs = [], hp_freed = []\<rparr> of Inr h \<Rightarrow> h) = Inl UseAfterFree"
proof -
  let ?r = "own_run (OwnAcceptHttp 1 8 # OwnAcceptRtsp 0 7 # demo_own_ops) \<lparr>hp_refs = [], hp_freed = []\<rparr>"
  have e: "own_enabled_run (OwnAcceptHttp 1 8 # OwnAcceptRtsp 0 7 # demo_own_ops) \<lparr>hp_refs = [], hp_freed = []\<rparr>"
    and "case ?r of Inl e \<Rightarrow> False | Inr h \<Rightarrow> True" by code_simp+
  then obtain h' where "?r = Inr h'" by (auto split: sum.splits)
  with http_close_use_after_free [OF e] show ?thesis by simp
qed

section \<open>A connection of the RTSP server\<close>

definition cycle :: "nat \<Rightarrow> (holder \<times> cell) set" where
  "cycle i = {(ByConn i, SessionCell i), (BySession i, ConnCell i)}"

definition cycle_alive :: "nat \<Rightarrow> heap \<Rightarrow> bool" where
  "cycle_alive i h \<longleftrightarrow> cycle i \<subseteq> set (hp_refs h) \<and> snd ` cycle i \<inter> set (hp_freed h) = {}"

lemma cycle_alive_drop:
  assumes "cycle_alive i h" and "\<And>r. r \<in> set rs \<Longrightarrow> (\<exists>p. fst r = BySinks p) \<or> (\<exists>fd. fst r = ByLoop fd)"
  shows "cycle_alive i (drop_refs rs h)"
  unfolding cycle_alive_def
proof (rule drop_refs_keeps)
  show "\<forall>c. fst r = holder_of c \<longrightarrow> c \<in> snd ` cycle i" if "r \<in> cycle i" for r
  proof (intro allI impI)
    fix c assume "fst r = holder_of c"
    with that show "c \<in> snd ` cycle i" by (cases c) (auto simp: cycle_def)
  qed
  show "cycle i \<inter> set rs = {}" using assms(2) by (fastforce simp: cycle_def)
qed (use assms(1) in \<open>simp_all add: cycle_alive_def\<close>)

lemma cycle_alive_step:
  assumes "cycle_alive i h" and "own_step op h = Inr h'"
  shows "cycle_alive i h'"
proof (cases op)
  case (OwnClose j fd' playing)
  then have c: "own_handle_close j fd' playing h = Inr h'" using assms(2) by simp
  obtain rs where "h' = drop_refs rs (drop_refs [(ByLoop fd', ConnCell j)] h)"
    "\<forall>r \<in> set rs. \<exists>p. fst r = BySinks p" using close_drops [OF c] .
  then show ?thesis using assms(1) by (auto intro!: cycle_alive_drop)
next
  case (OwnRemoveSink p j)
  then show ?thesis using assms by (auto simp: own_remove_sink_def intro!: cycle_alive_drop)
next
  case (OwnRemoveStream p)
  then show ?thesis using assms by (auto simp: own_remove_stream_def intro!: cycle_alive_drop)
qed (use assms in \<open>auto simp: cycle_alive_def own_accept_rtsp_def
      own_accept_http_def own_session_start_def own_conn_start_def own_add_sink_def\<close>)

text \<open>
  C20. A connection of the RTSP server and its session are never destroyed: the callbacks of the
  connection hold the session and the session holds the connection, and nothing clears either
  pointer. Whatever happens after the connection was accepted, the close of the connection and the
  removal of its stream included, both stay, with their buffers.
\<close>

theorem rtsp_session_leaks:
  assumes "own_enabled_run (OwnAcceptRtsp i fd # ops) h" and "own_run (OwnAcceptRtsp i fd # ops) h = Inr h'"
  shows "ConnCell i \<notin> set (hp_freed h') \<and> SessionCell i \<notin> set (hp_freed h')"
proof -
  let ?h = "own_accept_rtsp i fd h"
  have "cycle_alive i ?h"
    using assms(1)
    by (auto simp: own_enabled_def cell_new_def own_accept_rtsp_def own_conn_start_def own_session_start_def
        cycle_alive_def cycle_def)
  then have "cycle_alive i h'"
    by (rule own_run_invariant [of "cycle_alive i", OF cycle_alive_step, rotated 2]) (use assms in simp_all)
  then show ?thesis by (auto simp: cycle_alive_def cycle_def)
qed

theorem rtsp_session_leaks_witness:
  "ConnCell 0 \<notin> set (hp_freed (case own_run (OwnAcceptRtsp 0 7 # demo_own_ops) \<lparr>hp_refs = [], hp_freed = []\<rparr> of Inr h \<Rightarrow> h))"
proof -
  let ?r = "own_run (OwnAcceptRtsp 0 7 # demo_own_ops) \<lparr>hp_refs = [], hp_freed = []\<rparr>"
  have e: "own_enabled_run (OwnAcceptRtsp 0 7 # demo_own_ops) \<lparr>hp_refs = [], hp_freed = []\<rparr>"
    and "case ?r of Inl e \<Rightarrow> False | Inr h \<Rightarrow> True" by code_simp+
  then obtain h' where "?r = Inr h'" by (auto split: sum.splits)
  with rtsp_session_leaks [OF e] show ?thesis by simp
qed

end
