(* ===== verification/Relay_Over_Tcp.thy ===== *)
theory Relay_Over_Tcp
  imports Protocol_Over_Tcp Relay_System
begin

text \<open>
  The relay on its connections and threads: the message callback that \<open>RtspSource\<close> sets on the
  upstream connection (\<open>src/src/rtsp_source.cpp\<close>) runs on the main loop, with the manager and the
  sessions behind it; what a session sends to a player whose connection lives on an IO loop becomes
  tasks of that loop, which its next turn writes to the socket. The theorem follows the packets from
  the socket of the upstream server to the socket of the player.
\<close>

section \<open>The upstream connection\<close>

text \<open>The requests that the source of a stream has sent.\<close>

definition upstream_sends :: "bytes \<Rightarrow> world \<Rightarrow> bytes list" where
  "upstream_sends path w =
     concat (map (\<lambda>(p, e). case e of SrcSend d \<Rightarrow> if p = path then [d] else [] | _ \<Rightarrow> []) (w_up w))"

definition upstream_message_cb :: "(nat \<Rightarrow> int) \<Rightarrow> bytes \<Rightarrow> (cpp_error + world) message_cb" where
  "upstream_message_cb n path =
     log_cb (message_loop rtsp_next_frame (relay_on_frame n path)) (\<lambda>w. map CallSend (upstream_sends path w))"

lemma push_sinks_up [simp]: "w_up (push_sinks n d is w) = w_up w"
  by (induction "is" arbitrary: w) (simp_all split: option.split prod.split)

lemma deliver_up: "prefix (w_up w) (w_up (deliver n es w))"
  by (induction n es w rule: deliver.induct) (auto simp: mgr_on_rtp_data_def dest: append_prefixD)

lemma relay_log_grows: "log_grows (relay_on_frame n path) (\<lambda>w. map CallSend (upstream_sends path w))"
  unfolding log_grows_def
proof (intro allI impI)
  fix f w w' assume "relay_on_frame n path f w = Inr w'"
  then obtain m es where "w' = deliver n es (w\<lparr>w_mgr := m\<rparr>)"
    by (auto simp: relay_on_frame_def relay_source_event_def split: sum.splits)
  then have "prefix (w_up w) (w_up w')" using deliver_up [of "w\<lparr>w_mgr := m\<rparr>" n es] by simp
  then show "prefix (map CallSend (upstream_sends path w)) (map CallSend (upstream_sends path w'))"
    by (auto simp: upstream_sends_def prefix_def)
qed

lemma calls_user: "ce_user (fst (set_receiver b u w)) = u"
  by simp

section \<open>The player's connection\<close>

text \<open>Sends from another thread become tasks, in order.\<close>

lemma posted_sends:
  "tc_state (conn_of w) = ConnConnected \<Longrightarrow>
    fold (conn_send False) ds w =
      (fst w, (snd w)\<lparr>el_pending := el_pending (snd w) @ map SendTask ds, el_wakeup := el_wakeup (snd w) + length ds\<rparr>)"
proof (induction ds arbitrary: w)
  case (Cons d ds)
  have "conn_send False d w =
      (fst w, (snd w)\<lparr>el_pending := el_pending (snd w) @ [SendTask d], el_wakeup := Suc (el_wakeup (snd w))\<rparr>)"
    using Cons.prems by (simp add: conn_send_def run_in_loop_def wakeup_def push_task_def)
  with Cons show ?case by simp
qed (simp add: prod_eq_iff)

text \<open>A turn of the loop that was woken runs them.\<close>

lemma sends_as_tasks:
  "fold (\<lambda>t. conn_exec msg (RunTask t)) (map SendTask ds) w = fold conn_do_call (map CallSend ds) w"
proof (induction ds arbitrary: w)
  case (Cons d ds)
  have "conn_send True d w = send_in_loop d w" by (simp add: conn_send_def send_in_loop_def)
  with Cons show ?case by simp
qed simp

lemma woken_round:
  assumes "partition_ok part" "0 \<le> fd" "fd \<noteq> efd"
  shows "\<exists>w. loop_rounds part (conn_exec msg) [(t, PollReady [(efd, EPOLLIN)])]
      (fold (conn_send False) ds
        (ready_conn fd peer u [] (map (\<lambda>d. Wrote (length d)) ds) (event_loop_new self efd))) = Inr w \<and>
    written w = concat ds"
proof -
  let ?w = "ready_conn fd peer u [] (map (\<lambda>d. Wrote (length d)) ds) (event_loop_new self efd)"
  let ?p = "(fst ?w, (snd ?w)\<lparr>el_wakeup := length ds\<rparr>)"
  let ?s = "((fst ?p)\<lparr>ce_writes := [], ce_trace := concat (map (\<lambda>d. [SockWrite d, CallWriteComplete]) ds)\<rparr>, snd ?p)"
  have el: "el_quit (snd ?w) = False" "el_pending (snd ?w) = []" "el_timers (snd ?w) = []" "el_wakeup (snd ?w) = 0"
    and wake: "entry_of (snd ?w) efd = Some \<lparr>fe_events = kEventRead, fe_read_cb = Some LoopWakeup, fe_write_cb = None,
       fe_error_cb = None, fe_node = 0\<rparr>"
    using assms(3)
    by (simp_all add: ready_conn_facts event_loop_new_def add_fd_eq Let_def kEventRead_def kEventWrite_def kEventError_def)
  have posted: "fold (conn_send False) ds ?w =
      (fst ?w, (snd ?w)\<lparr>el_pending := map SendTask ds, el_wakeup := length ds\<rparr>)"
    by (simp add: posted_sends ready_conn_facts(2) el(2,4))
  have clear: "(snd ?w)\<lparr>el_wakeup := length ds, el_pending := []\<rparr> = (snd ?w)\<lparr>el_wakeup := length ds\<rparr>"
    "(snd ?w)\<lparr>el_wakeup := length ds, el_timers := []\<rparr> = (snd ?w)\<lparr>el_wakeup := length ds\<rparr>"
    using el(2,3) by simp_all
  have "process_tasks (conn_exec msg) (fst ?w, (snd ?w)\<lparr>el_pending := map SendTask ds, el_wakeup := length ds\<rparr>) =
      fold conn_do_call (map CallSend ds) ?p"
    using clear(1) by (simp add: process_tasks_def sends_as_tasks Let_def)
  also have "\<dots> = ?s"
    using assms(2) by (subst sends_whole) (simp_all add: ready_conn_facts)
  finally have tasks: "process_tasks (conn_exec msg) (fold (conn_send False) ds ?w) = ?s" unfolding posted .
  have "process_timers part (conn_exec msg) t ?s = ?s"
    using el(3) clear(2) partition_nil [OF assms(1)] by (simp add: process_timers_def)
  moreover have "dispatch_event (conn_exec msg) (efd, EPOLLIN) ?s = Inr (fst ?s, handle_wakeup (snd ?s))"
    using wake by (simp add: dispatch_event_def call_cb_def EPOLLIN_def EPOLLOUT_def EPOLLERR_def EPOLLHUP_def Let_def)
  moreover have "el_quit (snd (fold (conn_send False) ds ?w)) = False" using el(1) by (simp add: posted)
  ultimately have "loop_rounds part (conn_exec msg) [(t, PollReady [(efd, EPOLLIN)])] (fold (conn_send False) ds ?w) =
      Inr (fst ?s, handle_wakeup (snd ?s))"
    by (simp add: tasks Let_def)
  moreover have "written (fst ?s, handle_wakeup (snd ?s)) = concat ds" by (simp add: wire_sends)
  ultimately show ?thesis by blast
qed

text \<open>
  C2. The relay from socket to socket: an upstream server sends any RTSP messages and interleaved
  packets, and TCP cuts them into any chunks. The turn of the main loop that finds its connection
  readable ends without an error; what it has sent to a player of the stream on channel \<open>ch\<close>, posted to
  the IO loop of the player's connection, is written to the player's socket by the next turn of
  that loop, and it is exactly the packets, in order, each once, as frames on channel \<open>ch\<close> (as long as
  the kernel takes each send whole).
\<close>

theorem relay_over_tcp:
  assumes "mgr_reachable (w_mgr w)" and "has_stream path (w_mgr w)"
    and "tcp_player ch (w_sessions w i)" and "count_list (fan_out_sinks path (w_mgr w)) i = 1"
    and "sent_to i w = []"
    and "list_all frame_ok fs" and "concat chunks = concat (map print_frame fs)" and "chunks \<noteq> []"
    and "length (concat chunks) < 2 ^ 31"
    and "0 \<le> fd" and "fd \<noteq> efd" and "0 \<le> pfd" and "pfd \<noteq> pefd" and "partition_ok part" and "WriteFailed \<notin> set ws"
  shows "\<exists>u w'. loop_rounds part (conn_exec (upstream_message_cb n path)) [(t, PollReady [(fd, EPOLLIN)])]
      (ready_conn fd peer (Inr w) (map ReadBytes chunks) ws (event_loop_new self efd)) = Inr u \<and>
    ce_user (fst u) = Inr w' \<and>
    (\<exists>p. loop_rounds part (conn_exec msg) [(t', PollReady [(pefd, EPOLLIN)])]
      (fold (conn_send False) (sent_to i w')
        (ready_conn pfd ppeer pu [] (map (\<lambda>d. Wrote (length d)) (sent_to i w')) (event_loop_new io pefd))) = Inr p \<and>
      written p = concat (map print_frame (map (Interleaved ch) (media_of fs))))"
proof -
  have "relaying (tcp_player ch) path i w" using assms(1-4) mgr_reachable_inv by (simp add: relaying_def)
  then obtain w' where w': "act_all (relay_on_frame n path) (map received_frame fs) w = Inr w'"
    "sent_to i w' = concat (map (\<lambda>d. [interleaved_header ch (length d), d]) (media_of fs))"
    using relay_frames [of ch path i w n "map received_frame fs"] assms(5) by auto
  obtain b where feed: "feed_chunks rtsp_next_frame (relay_on_frame n path) chunks (byte_buffer_new 4096) w = Some (Inr (b, w'))"
    using rtsp_feed_printed [OF assms(6-9) w'(1)] by blast
  let ?u = "set_receiver b (Inr w') (fold conn_do_call
      (drop (length (map CallSend (upstream_sends path w))) (map CallSend (upstream_sends path w')))
      (ready_conn fd peer (Inr w) [] ws (event_loop_new self efd)))"
  have "loop_rounds part (conn_exec (upstream_message_cb n path)) [(t, PollReady [(fd, EPOLLIN)])]
      (ready_conn fd peer (Inr w) (map ReadBytes chunks) ws (event_loop_new self efd)) =
      loop_rounds part (conn_exec (upstream_message_cb n path)) [] ?u"
    unfolding upstream_message_cb_def
    by (rule rtspf.feed_exchange [OF relay_log_grows feed assms(10,11,14,15)])
  then have "loop_rounds part (conn_exec (upstream_message_cb n path)) [(t, PollReady [(fd, EPOLLIN)])]
      (ready_conn fd peer (Inr w) (map ReadBytes chunks) ws (event_loop_new self efd)) = Inr ?u" by simp
  moreover have "ce_user (fst ?u) = Inr w'" by (rule calls_user)
  moreover have "concat (sent_to i w') = concat (map print_frame (map (Interleaved ch) (media_of fs)))"
    unfolding w'(2) by (rule player_bytes)
  moreover note woken_round [OF assms(14,12,13), of msg t' "sent_to i w'" ppeer pu io]
  ultimately show ?thesis by metis
qed

definition demo_upstream :: "rtsp_frame list" where
  "demo_upstream = [Interleaved 0 ''abc'', Message (response_new 200 ''OK'' 4), Interleaved 1 ''d'']"

theorem relay_over_tcp_witness:
  "let wire = concat (map print_frame demo_upstream)
   in \<exists>u w' p. loop_rounds List.partition (conn_exec (upstream_message_cb (\<lambda>_. 0) ''/cam'')) [(0, PollReady [(9, EPOLLIN)])]
        (ready_conn 9 [] (Inr demo_world) (map ReadBytes [take 3 wire, drop 3 wire]) [] (event_loop_new 0 7)) = Inr u \<and>
      ce_user (fst u) = Inr w' \<and>
      loop_rounds List.partition (conn_exec silent) [(0, PollReady [(17, EPOLLIN)])]
        (fold (conn_send False) (sent_to 7 w')
          (ready_conn 20 [] () [] (map (\<lambda>d. Wrote (length d)) (sent_to 7 w')) (event_loop_new 1 17))) = Inr p \<and>
      written p = concat (map print_frame [Interleaved 4 ''abc'', Interleaved 4 ''d''])"
proof -
  let ?wire = "concat (map print_frame demo_upstream)"
  let ?ops = "[MgrAdd ''/cam'' ''rtsp://10.0.0.2/live'', MgrAddSink ''/cam'' 8, MgrAddSink ''/cam'' 7]"
  have "mgr_run ?ops demo_manager = Inr (w_mgr demo_world)" by code_simp
  then have m: "mgr_reachable (w_mgr demo_world)"
    by (rule mgr_run_reachable) (simp_all add: demo_manager_def mgr_reachable.new)
  have w: "has_stream ''/cam'' (w_mgr demo_world)" "tcp_player 4 (w_sessions demo_world 7)"
    "count_list (fan_out_sinks ''/cam'' (w_mgr demo_world)) 7 = 1" "sent_to 7 demo_world = []"
    "list_all frame_ok demo_upstream" by code_simp+
  have chunks: "concat [take 3 ?wire, drop 3 ?wire] = ?wire" "[take 3 ?wire, drop 3 ?wire] \<noteq> []"
    by (simp_all only: concat.simps append_Nil2 append_take_drop_id list.distinct not_False_eq_True)
  have len: "length (concat [take 3 ?wire, drop 3 ?wire]) < 2 ^ 31" by code_simp
  have fds: "(0::int) \<le> 9" "(9::int) \<noteq> 7" "(0::int) \<le> 20" "(20::int) \<noteq> 17" "WriteFailed \<notin> set []" by simp_all
  have media: "map (Interleaved 4) (media_of demo_upstream) = [Interleaved 4 ''abc'', Interleaved 4 ''d'']"
    by (simp add: demo_upstream_def)
  show ?thesis
    unfolding Let_def media [symmetric]
    using relay_over_tcp [OF m w chunks len fds(1-4) partition_stable_ok fds(5), of "\<lambda>_. 0" 0 "[]" 0 silent 0 "[]" "()" 1]
    by blast
qed

end
