(* ===== verification/Relay_Startup.thy ===== *)
theory Relay_Startup
  imports Relay_System Http_Api
begin

text \<open>
  How a stream comes up, from nothing: the HTTP request that adds it, the handshake of its source with
  the upstream server, the requests of a player, and the packets that then go through. The events
  are those of three theories (\<open>Http_Api\<close>, \<open>Rtsp_Source\<close>, \<open>Rtsp_Session\<close>), on the world of
  \<open>Relay_System\<close>; the theorem shows that the state which the theorems on relaying start from is the one
  the program gets into.
\<close>

section \<open>Events of the whole relay\<close>

text \<open>A request to the HTTP API, an event of a source, a request of a player on its session.\<close>

datatype relay_event =
    ApiCall http_request
  | Upstream bytes src_event
  | Player nat rtsp_message "udp_socket list"

definition relay_api :: "u16 \<Rightarrow> http_request \<Rightarrow> world \<Rightarrow> cpp_error + world" where
  "relay_api port req w =
     (case api_serve port req (w_mgr w, w_up w) of
        Inl e \<Rightarrow> Inl e
      | Inr (resp, m, es) \<Rightarrow> Inr (w\<lparr>w_mgr := m, w_up := es\<rparr>))"

definition env_in :: "udp_socket list \<Rightarrow> session \<Rightarrow> world \<Rightarrow> session_env" where
  "env_in socks s w = \<lparr>env_ses = s, env_mgr = w_mgr w, env_udp = socks, env_out = []\<rparr>"

definition relay_request :: "nat \<Rightarrow> rtsp_message \<Rightarrow> udp_socket list \<Rightarrow> world \<Rightarrow> world" where
  "relay_request i req socks w =
     (case w_sessions w i of
        None \<Rightarrow> w
      | Some s \<Rightarrow>
          let e = process_request req (env_in socks s w)
          in w\<lparr>w_mgr := env_mgr e, w_sessions := (w_sessions w)(i \<mapsto> env_ses e),
               w_out := w_out w @ map (Pair i) (env_out e)\<rparr>)"

fun relay_act :: "u16 \<Rightarrow> (nat \<Rightarrow> int) \<Rightarrow> relay_event \<Rightarrow> world \<Rightarrow> cpp_error + world" where
  "relay_act port n (ApiCall req) w = relay_api port req w"
| "relay_act port n (Upstream path ev) w = relay_source_event n path ev w"
| "relay_act port n (Player i req socks) w = Inr (relay_request i req socks w)"

lemma act_all_append:
  "act_all act (xs @ ys) s = (case act_all act xs s of Inl e \<Rightarrow> Inl e | Inr s' \<Rightarrow> act_all act ys s')"
  by (induction xs arbitrary: s) (simp_all split: sum.split)

lemma act_all_upstream: "act_all (relay_act port n) (map (Upstream path) evs) w = act_all (relay_source_event n path) evs w"
  by (induction evs arbitrary: w) (simp_all split: sum.split)

lemma act_all_frames:
  "act_all (relay_act port n) (map (Upstream path \<circ> EvFrame) fs) w = act_all (relay_on_frame n path) fs w"
  by (induction fs arbitrary: w) (simp_all add: relay_on_frame_def split: sum.split)

section \<open>The source\<close>

text \<open>A stream without sinks whose source has a property.\<close>

definition upstream_at :: "bytes \<Rightarrow> (source \<Rightarrow> bool) \<Rightarrow> world \<Rightarrow> bool" where
  "upstream_at path P w \<longleftrightarrow> mgr_inv (w_mgr w) \<and>
     (\<exists>rel. rm_find (w_mgr w) path = Some rel \<and> P (rel_source rel) \<and> rel_sinks rel = [])"

definition unseen :: "world \<Rightarrow> world \<Rightarrow> bool" where
  "unseen w w' \<longleftrightarrow> w_sessions w' = w_sessions w \<and> w_out w' = w_out w"

lemma deliver_quiet:
  "forwards es = [] \<Longrightarrow> w_mgr (deliver n (map (Pair path) es) w) = w_mgr w \<and> unseen w (deliver n (map (Pair path) es) w)"
proof (induction es arbitrary: w)
  case (Cons e es)
  then show ?case by (cases e) (simp_all add: unseen_def)
qed (simp add: unseen_def)

lemma upstream_moves:
  assumes "upstream_at path P w"
    and "\<And>s. P s \<Longrightarrow> src_enabled ev s \<and> (\<exists>s' es. source_event ev (s, []) = Inr (s', es) \<and> forwards es = [] \<and> Q s')"
  shows "\<exists>w'. relay_source_event n path ev w = Inr w' \<and> upstream_at path Q w' \<and> unseen w w'"
proof -
  obtain rel where rel: "rm_find (w_mgr w) path = Some rel" "P (rel_source rel)" "rel_sinks rel = []"
    and inv: "mgr_inv (w_mgr w)" "rm_inv (w_mgr w)"
    using assms(1) by (auto simp: upstream_at_def mgr_inv_def)
  obtain s' es where ev: "source_event ev (rel_source rel, []) = Inr (s', es)" "forwards es = []" "Q s'"
    and en: "src_enabled ev (rel_source rel)"
    using assms(2) [OF rel(2)] by blast
  have ok: "relay_ok path rel" using inv(1) rel(1) by (rule mgr_inv_relay)
  have "src_inv s'"
    using src_inv_event [of "(rel_source rel, [])" ev] ev(1) en ok by (simp add: relay_ok_def)
  then have "relay_ok path (rel\<lparr>rel_source := s'\<rparr>)" using relay_ok_event [OF ok ev(1)] by simp
  then have m: "mgr_inv (rm_put path (rel\<lparr>rel_source := s'\<rparr>) (w_mgr w))"
    using inv(1) rel(1) by (intro mgr_inv_put) simp_all
  let ?w = "w\<lparr>w_mgr := rm_put path (rel\<lparr>rel_source := s'\<rparr>) (w_mgr w)\<rparr>"
  have "relay_source_event n path ev w = Inr (deliver n (map (Pair path) es) ?w)"
    using rel(1) ev(1) by (simp add: relay_source_event_def with_source_def)
  moreover have "rm_find (w_mgr ?w) path = Some (rel\<lparr>rel_source := s'\<rparr>)" using inv(2) by (simp add: rm.lookup_store)
  ultimately show ?thesis
    using deliver_quiet [OF ev(2), of n path ?w] m ev(3) rel(3) by (simp add: upstream_at_def unseen_def)
qed

text \<open>The source after each answer.\<close>

definition in_handshake :: "src_state \<Rightarrow> source \<Rightarrow> bool" where
  "in_handshake st s \<longleftrightarrow> src_state s = st \<and> src_conn s = Some True"

lemma handshake_connect:
  "\<exists>s' es. source_event EvConnected (s, []) = Inr (s', es) \<and> forwards es = [] \<and> in_handshake SrcOptions s'"
  by (simp add: in_handshake_def source_event_def source_on_connect_def src_send_defs Let_def)

lemma handshake_answer:
  assumes "in_handshake st s" "msg_status_code r = 200"
  shows "st = SrcOptions \<Longrightarrow> \<exists>s' es. source_event (EvFrame (Message r)) (s, []) = Inr (s', es) \<and> forwards es = [] \<and>
      in_handshake SrcDescribe s'"
    and "st = SrcDescribe \<Longrightarrow> \<exists>s' es. source_event (EvFrame (Message r)) (s, []) = Inr (s', es) \<and> forwards es = [] \<and>
      in_handshake SrcSetup s' \<and> src_sdp s' = msg_sdp r"
    and "st = SrcSetup \<Longrightarrow> \<exists>s' es. source_event (EvFrame (Message r)) (s, []) = Inr (s', es) \<and> forwards es = [] \<and>
      in_handshake SrcPlaying s' \<and> src_sdp s' = src_sdp s"
    and "st = SrcPlaying \<Longrightarrow> \<exists>s' es. source_event (EvFrame (Message r)) (s, []) = Inr (s', es) \<and> forwards es = [] \<and>
      in_handshake SrcPlaying s' \<and> src_sdp s' = src_sdp s"
  using assms
  by (auto simp: in_handshake_def source_event_def source_on_frame_def handle_response_def src_send_defs
      source_setup_request_def Let_def)

lemma upstream_plays:
  assumes "upstream_at path src_client w" "list_all (\<lambda>r. msg_status_code r = 200) [r1, r2, r3, r4]"
  shows "\<exists>w'. act_all (relay_source_event n path)
      [EvConnected, EvFrame (Message r1), EvFrame (Message r2), EvFrame (Message r3), EvFrame (Message r4)] w = Inr w' \<and>
    upstream_at path (\<lambda>s. in_handshake SrcPlaying s \<and> src_sdp s = msg_sdp r2) w' \<and> unseen w w'"
proof -
  have fr: "src_enabled (EvFrame f) s" for f s by (simp add: src_enabled_def)
  obtain w1 where w1: "relay_source_event n path EvConnected w = Inr w1" "upstream_at path (in_handshake SrcOptions) w1" "unseen w w1"
    using upstream_moves [OF assms(1), of EvConnected "in_handshake SrcOptions" n] handshake_connect
    by (auto simp: src_enabled_def)
  obtain w2 where w2: "relay_source_event n path (EvFrame (Message r1)) w1 = Inr w2" "upstream_at path (in_handshake SrcDescribe) w2"
    "unseen w1 w2"
    using upstream_moves [OF w1(2), of "EvFrame (Message r1)" "in_handshake SrcDescribe" n] handshake_answer(1) [of _ _ r1]
      assms(2) fr by auto
  obtain w3 where w3: "relay_source_event n path (EvFrame (Message r2)) w2 = Inr w3"
    "upstream_at path (\<lambda>s. in_handshake SrcSetup s \<and> src_sdp s = msg_sdp r2) w3" "unseen w2 w3"
    using upstream_moves [OF w2(2), of "EvFrame (Message r2)" "\<lambda>s. in_handshake SrcSetup s \<and> src_sdp s = msg_sdp r2" n]
      handshake_answer(2) [of _ _ r2] assms(2) fr by auto
  obtain w4 where w4: "relay_source_event n path (EvFrame (Message r3)) w3 = Inr w4"
    "upstream_at path (\<lambda>s. in_handshake SrcPlaying s \<and> src_sdp s = msg_sdp r2) w4" "unseen w3 w4"
    using upstream_moves [OF w3(2), of "EvFrame (Message r3)" "\<lambda>s. in_handshake SrcPlaying s \<and> src_sdp s = msg_sdp r2" n]
      handshake_answer(3) [of _ _ r3] assms(2) fr by fastforce
  obtain w5 where w5: "relay_source_event n path (EvFrame (Message r4)) w4 = Inr w5"
    "upstream_at path (\<lambda>s. in_handshake SrcPlaying s \<and> src_sdp s = msg_sdp r2) w5" "unseen w4 w5"
    using upstream_moves [OF w4(2), of "EvFrame (Message r4)" "\<lambda>s. in_handshake SrcPlaying s \<and> src_sdp s = msg_sdp r2" n]
      handshake_answer(4) [of _ _ r4] assms(2) fr by fastforce
  show ?thesis using w1 w2 w3 w4 w5 by (simp add: unseen_def)
qed

section \<open>The request that adds the stream\<close>

lemma api_adds:
  assumes "hreq_method req = ''POST''" "hreq_path req = ''/api/streams''" "hreq_body req = post_body path upstream"
    and "CHR 0x22 \<notin> set path" "CHR 0x22 \<notin> set upstream" "path \<noteq> []" "upstream \<noteq> []" "path \<noteq> ''upstream''"
    and "mgr_inv (w_mgr w)" "rm_find (w_mgr w) (with_slash path) = None" "stream_count (w_mgr w) < rm_max_sources (w_mgr w)"
  shows "\<exists>w'. relay_api port req w = Inr w' \<and> upstream_at (with_slash path) src_client w' \<and> unseen w w'"
proof -
  let ?path = "with_slash path"
  let ?src = "fst (source_start ((source_new upstream ?path)\<lparr>src_data_cb := True\<rparr>, []))"
  let ?rel = "\<lparr>rel_source = ?src, rel_upstream_url = upstream, rel_sinks = []\<rparr>"
  have fields: "extract_string_value (hreq_body req) ''path'' = path"
    "extract_string_value (hreq_body req) ''upstream'' = upstream"
    using extract_path [OF assms(4)] extract_upstream [OF assms(4,5,8)] assms(3) by (simp_all add: post_body_def)
  obtain es1 where add: "add_stream ?path upstream (w_mgr w) = (True, rm_put ?path ?rel (w_mgr w), es1)"
    using assms(10,11) by (simp add: add_stream_def stream_count_def split_beta Let_def)
  have client: "src_client ?src"
    by (simp add: source_start_def connect_to_upstream_def Let_def)
  have "mgr_inv (rm_put ?path ?rel (w_mgr w))"
    using assms(9,11) relay_ok_new [of ?path upstream] by (intro mgr_inv_put) simp_all
  moreover have "rm_find (rm_put ?path ?rel (w_mgr w)) ?path = Some ?rel"
    using assms(9) by (simp add: mgr_inv_def rm.lookup_store)
  moreover have "relay_api port req w = Inr (w\<lparr>w_mgr := rm_put ?path ?rel (w_mgr w), w_up := w_up w @ es1\<rparr>)"
    using assms(6,7) fields add
    by (simp add: relay_api_def api_route_exact(1) [OF assms(2,1)] api_post_def Let_def)
  ultimately show ?thesis using client by (auto simp: upstream_at_def unseen_def)
qed

section \<open>The player\<close>

lemma describe_leaves:
  assumes "msg_type req = KRequest" "msg_method req = KDescribe"
  shows "env_mgr (process_request req e) = env_mgr e"
    and "env_ses (process_request req e) =
      (env_ses e)\<lparr>ses_cseq := msg_cseq req, ses_stream_path := extract_stream_path (msg_url req), ses_state := SesDescribe\<rparr>"
  using assms by (simp_all add: process_request_def handle_describe_def Let_def)

lemma setup_leaves:
  fixes a b :: u8
  assumes "msg_type req = KRequest" "msg_method req = KSetup"
    "map_of (msg_headers req) ''Transport'' =
      Some (''RTP/AVP/TCP;unicast;interleaved='' @ dec_nat (unat a) @ CHR ''-'' # dec_nat (unat b))"
  shows "env_mgr (process_request req e) = env_mgr e"
    and "\<exists>data. ses_sent (env_out (process_request req e)) = ses_sent (env_out e) @ [data]"
  using assms by (simp_all add: process_request_def handle_setup_def setup_tcp_def Let_def str_find_def)

lemma play_adds:
  assumes "msg_type req = KRequest" "msg_method req = KPlay"
  shows "env_mgr (process_request req e) = add_sink (ses_stream_path (env_ses e)) (ses_id (env_ses e)) (env_mgr e)"
    and "env_ses (process_request req e) = (env_ses e)\<lparr>ses_cseq := msg_cseq req, ses_state := SesPlaying\<rparr>"
    and "\<exists>data. ses_sent (env_out (process_request req e)) = ses_sent (env_out e) @ [data]"
  using assms by (simp_all add: process_request_def handle_play_def Let_def)

lemma request_simps:
  assumes "w_sessions w i = Some s"
  shows "w_mgr (relay_request i req socks w) = env_mgr (process_request req (env_in socks s w))"
    and "w_sessions (relay_request i req socks w) i = Some (env_ses (process_request req (env_in socks s w)))"
    and "sent_to i (relay_request i req socks w) = sent_to i w @ ses_sent (env_out (process_request req (env_in socks s w)))"
  using assms by (simp_all add: relay_request_def Let_def sent_to_def calls_of_def comp_def)

text \<open>A player that has just connected describes the stream, sets up TCP transport and plays.\<close>

lemma player_joins:
  fixes a b :: u8
  assumes up: "upstream_at path (\<lambda>s. src_sdp s = sdp) w" and "sdp \<noteq> []" and s: "w_sessions w i = Some (session_new i peer rng)"
    and d: "msg_type rd = KRequest" "msg_method rd = KDescribe" "extract_stream_path (msg_url rd) = path" "path \<noteq> []"
      "LF \<notin> set (msg_url rd)" "SPACE \<notin> set (msg_url rd)" "length (msg_url rd) + length sdp < 2 ^ 30"
    and u: "msg_type ru = KRequest" "msg_method ru = KSetup" "map_of (msg_headers ru) ''Transport'' =
      Some (''RTP/AVP/TCP;unicast;interleaved='' @ dec_nat (unat a) @ CHR ''-'' # dec_nat (unat b))"
    and p: "msg_type rp = KRequest" "msg_method rp = KPlay"
  shows "\<exists>w' described setup_done playing m.
    act_all (relay_act port n) [Player i rd [], Player i ru [], Player i rp []] w = Inr w' \<and>
    relaying (tcp_player a) path i w' \<and> sent_to i w' = sent_to i w @ [described, setup_done, playing] \<and>
    rtsp_parse described rtsp_message_new = Inr (True, m, length described) \<and>
    msg_status_code m = 200 \<and> msg_sdp m = sdp"
proof -
  obtain rel where rel: "mgr_inv (w_mgr w)" "rm_find (w_mgr w) path = Some rel" "src_sdp (rel_source rel) = sdp" "rel_sinks rel = []"
    using up by (auto simp: upstream_at_def)
  define e1 where "e1 = env_in [] (session_new i peer rng) w"
  define w1 where "w1 = relay_request i rd [] w"
  define s1 where "s1 = env_ses (process_request rd e1)"
  define w2 where "w2 = relay_request i ru [] w1"
  define s2 where "s2 = env_ses (process_request ru (env_in [] s1 w1))"
  define w3 where "w3 = relay_request i rp [] w2"
  note e1 = e1_def [unfolded env_in_def]
  note r1 = request_simps [OF s, of rd "[]", folded w1_def e1_def s1_def]
  note r2 = request_simps [OF r1(2), of ru "[]", folded w2_def s2_def]
  note r3 = request_simps [OF r2(2), of rp "[]", folded w3_def]
  have "get_stream_sdp (extract_stream_path (msg_url rd)) (env_mgr e1) = sdp"
    using rel(2,3) d(3) by (simp add: e1 get_stream_sdp_def)
  from describe_delivers_sdp [OF d(1,2,5,6) this assms(2), of rng "[]"] obtain described m where
    m: "ses_sent (env_out (process_request rd e1)) = [described]"
    "rtsp_parse described rtsp_message_new = Inr (True, m, length described)" "msg_status_code m = 200" "msg_sdp m = sdp"
    using d(7) by (auto simp: e1 session_new_def)
  have s1: "s1 = (session_new i peer rng)\<lparr>ses_cseq := msg_cseq rd, ses_stream_path := path, ses_state := SesDescribe\<rparr>"
    using describe_leaves(2) [OF d(1,2), of e1] d(3) by (simp add: s1_def e1)
  have s2: "ses_id s2 = i" "ses_stream_path s2 = path" "ses_transport s2 = TcpInterleaved" "ses_conn_up s2" "ses_rtp_channel s2 = a"
    using setup_tcp_channels [OF u] d(4) by (simp_all add: s2_def env_in_def s1 session_new_def)
  have mgr: "w_mgr w2 = w_mgr w"
    using r1(1) r2(1) describe_leaves(1) [OF d(1,2), of e1] setup_leaves(1) [OF u, of "env_in [] s1 w1"]
    by (simp add: e1 env_in_def)
  have "w_mgr w3 = add_sink path i (w_mgr w)"
    using r3(1) play_adds(1) [OF p, of "env_in [] s2 w2"] s2(1,2) mgr by (simp add: env_in_def)
  then have m3: "w_mgr w3 = rm_put path (rel\<lparr>rel_sinks := [i]\<rparr>) (w_mgr w)" using rel(2,4) by (simp add: add_sink_def)
  have "mgr_inv (w_mgr w3)"
    unfolding m3 using rel(1,2) mgr_inv_relay by (intro mgr_inv_put) auto
  moreover have find: "rm_find (w_mgr w3) path = Some (rel\<lparr>rel_sinks := [i]\<rparr>)"
    unfolding m3 using rel(1) by (simp add: mgr_inv_def rm.lookup_store)
  moreover have "tcp_player a (w_sessions w3 i)"
    using r3(2) play_adds(2) [OF p, of "env_in [] s2 w2"] s2 by (simp add: tcp_player_def env_in_def)
  ultimately have "relaying (tcp_player a) path i w3"
    by (simp add: relaying_def has_stream_def fan_out_sinks_def)
  moreover obtain d2 d3 where "sent_to i w3 = sent_to i w @ [described, d2, d3]"
    using r1(3) r2(3) r3(3) m(1) setup_leaves(2) [OF u, of "env_in [] s1 w1"] play_adds(3) [OF p, of "env_in [] s2 w2"]
    by (auto simp: env_in_def)
  moreover have "act_all (relay_act port n) [Player i rd [], Player i ru [], Player i rp []] w = Inr w3"
    by (simp add: w1_def w2_def w3_def)
  ultimately show ?thesis using m by blast
qed

section \<open>From nothing to the picture\<close>

text \<open>
  C3. A stream comes up: on any reachable relay with room, the documented POST, a connection to the
  upstream, four good answers, and a newly connected player that sends DESCRIBE, SETUP for TCP on channel
  \<open>a\<close>, and PLAY, lead without an error to a relay that forwards: the player has got one message for each of
  its requests, the first with exactly the description that the upstream gave, and then every packet
  of the upstream, in order, once, on channel \<open>a\<close>.
\<close>

theorem stream_comes_up:
  fixes a b :: u8
  assumes "mgr_reachable (w_mgr w)" and "\<not> has_stream (with_slash path) (w_mgr w)"
    and "stream_count (w_mgr w) < rm_max_sources (w_mgr w)"
    and "hreq_method req = ''POST''" "hreq_path req = ''/api/streams''" "hreq_body req = post_body path upstream"
    and "CHR 0x22 \<notin> set path" "CHR 0x22 \<notin> set upstream" "path \<noteq> []" "upstream \<noteq> []" "path \<noteq> ''upstream''"
    and "list_all (\<lambda>r. msg_status_code r = 200) [r1, r2, r3, r4]" and "msg_sdp r2 \<noteq> []"
    and "w_sessions w i = Some (session_new i peer rng)"
    and "msg_type rd = KRequest" "msg_method rd = KDescribe" "extract_stream_path (msg_url rd) = with_slash path"
      "LF \<notin> set (msg_url rd)" "SPACE \<notin> set (msg_url rd)" "length (msg_url rd) + length (msg_sdp r2) < 2 ^ 30"
    and "msg_type ru = KRequest" "msg_method ru = KSetup" "map_of (msg_headers ru) ''Transport'' =
      Some (''RTP/AVP/TCP;unicast;interleaved='' @ dec_nat (unat a) @ CHR ''-'' # dec_nat (unat b))"
    and "msg_type rp = KRequest" "msg_method rp = KPlay"
  shows "\<exists>w' described setup_done playing m.
    act_all (relay_act port n)
      (ApiCall req #
       map (Upstream (with_slash path))
         [EvConnected, EvFrame (Message r1), EvFrame (Message r2), EvFrame (Message r3), EvFrame (Message r4)] @
       [Player i rd [], Player i ru [], Player i rp []] @ map (Upstream (with_slash path) \<circ> EvFrame) fs) w = Inr w' \<and>
    sent_to i w' = sent_to i w @ [described, setup_done, playing] @
      concat (map (\<lambda>d. [interleaved_header a (length d), d]) (media_of fs)) \<and>
    rtsp_parse described rtsp_message_new = Inr (True, m, length described) \<and>
    msg_status_code m = 200 \<and> msg_sdp m = msg_sdp r2"
proof -
  let ?path = "with_slash path"
  have inv: "mgr_inv (w_mgr w)" using assms(1) by (rule mgr_reachable_inv)
  have "rm_find (w_mgr w) ?path = None" using assms(2) by (simp add: has_stream_def)
  from api_adds [OF assms(4-11) inv this assms(3), of port] obtain w1 where
    w1: "relay_api port req w = Inr w1" "upstream_at ?path src_client w1" "unseen w w1" by blast
  obtain w2 where w2: "act_all (relay_source_event n ?path)
      [EvConnected, EvFrame (Message r1), EvFrame (Message r2), EvFrame (Message r3), EvFrame (Message r4)] w1 = Inr w2"
    "upstream_at ?path (\<lambda>s. src_sdp s = msg_sdp r2) w2" "unseen w1 w2"
    using upstream_plays [OF w1(2) assms(12), of n] by (auto simp: upstream_at_def)
  have same: "w_sessions w2 i = Some (session_new i peer rng)" "sent_to i w2 = sent_to i w"
    using w1(3) w2(3) assms(14) by (simp_all add: unseen_def sent_to_def calls_of_def)
  have "?path \<noteq> []" using assms(9) by (simp add: with_slash_def)
  from player_joins [OF w2(2) assms(13) same(1) assms(15-17) this assms(18-25), of port n] obtain w3 described d2 d3 m where
    w3: "act_all (relay_act port n) [Player i rd [], Player i ru [], Player i rp []] w2 = Inr w3"
    "relaying (tcp_player a) ?path i w3" "sent_to i w3 = sent_to i w @ [described, d2, d3]"
    "rtsp_parse described rtsp_message_new = Inr (True, m, length described)" "msg_status_code m = 200" "msg_sdp m = msg_sdp r2"
    unfolding same(2) by blast
  obtain w4 where w4: "act_all (relay_on_frame n ?path) fs w3 = Inr w4"
    "sent_to i w4 = sent_to i w3 @ concat (map (\<lambda>d. [interleaved_header a (length d), d]) (media_of fs))"
    using relay_frames [OF w3(2), of n fs] by blast
  have "act_all (relay_act port n)
      (ApiCall req #
       map (Upstream ?path)
         [EvConnected, EvFrame (Message r1), EvFrame (Message r2), EvFrame (Message r3), EvFrame (Message r4)] @
       [Player i rd [], Player i ru [], Player i rp []] @ map (Upstream ?path \<circ> EvFrame) fs) w = Inr w4"
    using w1(1) w2(1) w3(1) w4(1)
    by (simp add: act_all_append act_all_upstream act_all_frames del: list.map append.simps)
  with w3 w4(2) show ?thesis by auto
qed

definition demo_start :: world where
  "demo_start = \<lparr>w_mgr = demo_manager, w_sessions = [7 \<mapsto> session_new 7 ''10.0.0.5:40000'' 1], w_out = [], w_up = []\<rparr>"

theorem stream_comes_up_witness:
  "\<exists>w' described setup_done playing m.
    act_all (relay_act 8554 (\<lambda>_. 0))
      (ApiCall (demo_api_request ''POST'' ''/api/streams'' (post_body ''cam'' ''rtsp://h/1'')) #
       map (Upstream ''/cam'')
         [EvConnected, EvFrame (Message (response_new 200 ''OK'' 1)), EvFrame (Message (describe_response 2 ''v=0'' [])),
          EvFrame (Message (response_new 200 ''OK'' 3)), EvFrame (Message (response_new 200 ''OK'' 4))] @
       [Player 7 (demo_request KDescribe 2 []) [],
        Player 7 (demo_request KSetup 3 [(''Transport'', ''RTP/AVP/TCP;unicast;interleaved=4-5'')]) [],
        Player 7 (demo_request KPlay 4 []) []] @
       map (Upstream ''/cam'' \<circ> EvFrame) [Interleaved 0 ''abc'']) demo_start = Inr w' \<and>
    sent_to 7 w' = [described, setup_done, playing, interleaved_header 4 3, ''abc''] \<and>
    rtsp_parse described rtsp_message_new = Inr (True, m, length described) \<and>
    msg_status_code m = 200 \<and> msg_sdp m = ''v=0''"
proof -
  let ?req = "demo_api_request ''POST'' ''/api/streams'' (post_body ''cam'' ''rtsp://h/1'')"
  let ?d = "demo_request KDescribe 2 []"
  let ?u = "demo_request KSetup 3 [(''Transport'', ''RTP/AVP/TCP;unicast;interleaved=4-5'')]"
  let ?p = "demo_request KPlay 4 []"
  have m: "mgr_reachable (w_mgr demo_start)" by (simp add: demo_start_def demo_manager_def mgr_reachable.new)
  have slash: "with_slash ''cam'' = ''/cam''" by code_simp
  have room: "\<not> has_stream (with_slash ''cam'') (w_mgr demo_start)"
    "stream_count (w_mgr demo_start) < rm_max_sources (w_mgr demo_start)" by code_simp+
  have req: "hreq_method ?req = ''POST''" "hreq_path ?req = ''/api/streams''" "hreq_body ?req = post_body ''cam'' ''rtsp://h/1''"
    "CHR 0x22 \<notin> set ''cam''" "CHR 0x22 \<notin> set ''rtsp://h/1''" "''cam'' \<noteq> []" "''rtsp://h/1'' \<noteq> []" "''cam'' \<noteq> ''upstream''"
    by code_simp+
  have ok: "list_all (\<lambda>r. msg_status_code r = 200)
      [response_new 200 ''OK'' 1, describe_response 2 ''v=0'' [], response_new 200 ''OK'' 3, response_new 200 ''OK'' 4]"
    "msg_sdp (describe_response 2 ''v=0'' []) \<noteq> []" by code_simp+
  have player: "w_sessions demo_start 7 = Some (session_new 7 ''10.0.0.5:40000'' 1)" by (simp add: demo_start_def)
  have d: "msg_type ?d = KRequest" "msg_method ?d = KDescribe" "extract_stream_path (msg_url ?d) = with_slash ''cam''"
    "LF \<notin> set (msg_url ?d)" "SPACE \<notin> set (msg_url ?d)"
    "length (msg_url ?d) + length (msg_sdp (describe_response 2 ''v=0'' [])) < 2 ^ 30" by code_simp+
  have u: "msg_type ?u = KRequest" "msg_method ?u = KSetup" "map_of (msg_headers ?u) ''Transport'' =
      Some (''RTP/AVP/TCP;unicast;interleaved='' @ dec_nat (unat (4 :: u8)) @ CHR ''-'' # dec_nat (unat (5 :: u8)))"
    by code_simp+
  have p: "msg_type ?p = KRequest" "msg_method ?p = KPlay" by code_simp+
  have sent: "sent_to 7 demo_start = []" and sdp: "msg_sdp (describe_response 2 ''v=0'' []) = ''v=0''" by code_simp+
  have media: "concat (map (\<lambda>d. [interleaved_header 4 (length d), d]) (media_of [Interleaved 0 ''abc''])) =
      [interleaved_header 4 3, ''abc'']" by (simp add: numeral_3_eq_3)
  show ?thesis
    using stream_comes_up [OF m room req ok player d u p, of 8554 "\<lambda>_. 0" "[Interleaved 0 ''abc'']"]
    unfolding slash sent sdp media append_Nil append_Cons .
qed

end
