(* ===== verification/Lock_Order.thy ===== *)
theory Lock_Order
  imports Relay_Prelude
begin

text \<open>
  Threads that take \<open>std::mutex\<close>es with \<open>std::lock_guard\<close> and access shared variables: what a thread has
  still to do is the list of its acquisitions, releases and accesses. A mutex is not recursive: a
  thread that takes one it already holds waits for itself. Threads whose calls take mutexes
  in the order of a hierarchy never wait for one another in a circle, so every schedule comes to
  an end with all mutexes free; variables that are accessed under the mutexes that protect them
  are never accessed by two threads at once.
\<close>

datatype ('m, 'v) lock_event = Acquire 'm | Release 'm | ReadVar 'v | WriteVar 'v

text \<open>The scope of a \<open>lock_guard\<close>.\<close>

definition holding :: "'m \<Rightarrow> ('m, 'v) lock_event list \<Rightarrow> ('m, 'v) lock_event list" where
  "holding m body = Acquire m # body @ [Release m]"

section \<open>Running threads\<close>

text \<open>The rest of every thread, and the owners of the mutexes.\<close>

type_synonym ('m, 'v) lock_state = "('m, 'v) lock_event list list \<times> ('m \<Rightarrow> nat option)"

definition lock_step :: "nat \<Rightarrow> ('m, 'v) lock_state \<Rightarrow> ('m, 'v) lock_state option" where
  "lock_step i st =
     (case st of (ts, own) \<Rightarrow>
        if length ts \<le> i then None
        else case ts ! i of
          [] \<Rightarrow> None
        | Acquire m # es \<Rightarrow> if own m = None then Some (ts[i := es], own(m \<mapsto> i)) else None
        | Release m # es \<Rightarrow> Some (ts[i := es], own(m := None))
        | _ # es \<Rightarrow> Some (ts[i := es], own))"

fun lock_run :: "nat list \<Rightarrow> ('m, 'v) lock_state \<Rightarrow> ('m, 'v) lock_state option" where
  "lock_run [] st = Some st"
| "lock_run (i # is) st = (case lock_step i st of None \<Rightarrow> None | Some st \<Rightarrow> lock_run is st)"

definition all_done :: "('m, 'v) lock_state \<Rightarrow> bool" where
  "all_done st \<longleftrightarrow> list_all (\<lambda>t. t = []) (fst st)"

definition events_left :: "('m, 'v) lock_state \<Rightarrow> nat" where
  "events_left st = sum_list (map length (fst st))"

lemma lock_step_left:
  assumes "lock_step i st = Some st'"
  shows "events_left st = Suc (events_left st')"
proof -
  obtain ts own where st: "st = (ts, own)" by (cases st)
  then obtain e es where i: "i < length ts" "ts ! i = e # es" and ts': "fst st' = ts[i := es]"
    using assms by (auto simp: lock_step_def split: if_splits list.splits lock_event.splits)
  have "sum_list (map length ts) = sum_list (map length (take i ts @ (e # es) # drop (Suc i) ts))"
    using id_take_nth_drop [OF i(1)] i(2) by simp
  moreover have "sum_list (map length (ts[i := es])) = sum_list (map length (take i ts @ es # drop (Suc i) ts))"
    by (simp only: upd_conv_take_nth_drop [OF i(1)])
  ultimately have "sum_list (map length ts) = Suc (sum_list (map length (ts[i := es])))" by simp
  then show ?thesis by (simp add: events_left_def st ts')
qed

lemma lock_run_left: "lock_run sched st = Some st' \<Longrightarrow> events_left st = length sched + events_left st'"
  by (induction sched arbitrary: st) (auto dest: lock_step_left split: option.splits)

lemma lock_run_append: "lock_run (xs @ ys) st = (case lock_run xs st of None \<Rightarrow> None | Some st \<Rightarrow> lock_run ys st)"
  by (induction xs arbitrary: st) (simp_all split: option.split)

text \<open>Two threads are about to access the same variable, and one of them writes it.\<close>

definition racing :: "'v \<Rightarrow> ('m, 'v) lock_state \<Rightarrow> bool" where
  "racing v st \<longleftrightarrow>
     (\<exists>i < length (fst st). \<exists>j < length (fst st). i \<noteq> j \<and>
        take 1 (fst st ! i) = [WriteVar v] \<and> take 1 (fst st ! j) \<in> {[WriteVar v], [ReadVar v]})"

lemma racing_two:
  "racing v ([t, t'], own) \<longleftrightarrow>
    take 1 t = [WriteVar v] \<and> take 1 t' \<in> {[WriteVar v], [ReadVar v]} \<or>
    take 1 t' = [WriteVar v] \<and> take 1 t \<in> {[WriteVar v], [ReadVar v]}"
  by (auto simp: racing_def Ex_less_Suc2)

section \<open>A hierarchy\<close>

text \<open>
  What a thread holds after its events, innermost first; \<^theory_text>\<open>None\<close> if it breaks the hierarchy, or accesses
  a variable without the protection that \<open>prot\<close> asks for (of the variable, whether it is
  written, and the mutexes held).
\<close>

fun held_after ::
  "('m \<Rightarrow> nat) \<Rightarrow> ('v \<Rightarrow> bool \<Rightarrow> 'm set \<Rightarrow> bool) \<Rightarrow> 'm list \<Rightarrow> ('m, 'v) lock_event list \<Rightarrow> 'm list option" where
  "held_after rank prot hs [] = Some hs"
| "held_after rank prot hs (Acquire m # es) =
     (if \<forall>h \<in> set hs. rank h < rank m then held_after rank prot (m # hs) es else None)"
| "held_after rank prot [] (Release m # es) = None"
| "held_after rank prot (h # hs) (Release m # es) = (if h = m then held_after rank prot hs es else None)"
| "held_after rank prot hs (ReadVar v # es) = (if prot v False (set hs) then held_after rank prot hs es else None)"
| "held_after rank prot hs (WriteVar v # es) = (if prot v True (set hs) then held_after rank prot hs es else None)"

lemma held_after_append:
  "held_after rank prot hs (xs @ ys) =
    (case held_after rank prot hs xs of None \<Rightarrow> None | Some hs \<Rightarrow> held_after rank prot hs ys)"
  by (induction rank prot hs xs rule: held_after.induct) simp_all

text \<open>A call made with the mutexes \<open>T\<close> held that takes only mutexes from a level on, and gives them back.\<close>

definition from_level ::
  "('m \<Rightarrow> nat) \<Rightarrow> ('v \<Rightarrow> bool \<Rightarrow> 'm set \<Rightarrow> bool) \<Rightarrow> 'm set \<Rightarrow> nat \<Rightarrow> ('m, 'v) lock_event list \<Rightarrow> bool" where
  "from_level rank prot T k es \<longleftrightarrow>
     (\<forall>hs. T \<subseteq> set hs \<and> (\<forall>h \<in> set hs. rank h < k) \<longrightarrow> held_after rank prot hs es = Some hs)"

named_theorems level_intros

lemma from_level_Nil [level_intros, simp]: "from_level rank prot T k []"
  by (simp add: from_level_def)

lemma from_level_append [level_intros]:
  "from_level rank prot T k xs \<Longrightarrow> from_level rank prot T k ys \<Longrightarrow> from_level rank prot T k (xs @ ys)"
  by (simp add: from_level_def held_after_append)

lemma from_level_concat [level_intros]:
  "(\<And>xs. xs \<in> set xss \<Longrightarrow> from_level rank prot T k xs) \<Longrightarrow> from_level rank prot T k (concat xss)"
  by (induction xss) (simp_all add: from_level_append)

lemma from_level_read [level_intros]:
  "(\<And>H. T \<subseteq> H \<Longrightarrow> prot v False H) \<Longrightarrow> from_level rank prot T k es \<Longrightarrow> from_level rank prot T k (ReadVar v # es)"
  by (simp add: from_level_def)

lemma from_level_write [level_intros]:
  "(\<And>H. T \<subseteq> H \<Longrightarrow> prot v True H) \<Longrightarrow> from_level rank prot T k es \<Longrightarrow> from_level rank prot T k (WriteVar v # es)"
  by (simp add: from_level_def)

lemma from_level_weaken: "from_level rank prot T k es \<Longrightarrow> T \<subseteq> T' \<Longrightarrow> k' \<le> k \<Longrightarrow> from_level rank prot T' k' es"
  by (fastforce simp: from_level_def)

lemma from_level_holding [level_intros]:
  assumes "from_level rank prot (insert m T) (Suc (rank m)) body" "k \<le> rank m"
  shows "from_level rank prot T k (holding m body)"
  unfolding from_level_def
proof (intro allI impI)
  fix hs assume h: "T \<subseteq> set hs \<and> (\<forall>h \<in> set hs. rank h < k)"
  with assms(2) have hs: "\<forall>h \<in> set hs. rank h < rank m" by auto
  have "insert m T \<subseteq> set (m # hs)" "\<forall>h \<in> set (m # hs). rank h < Suc (rank m)"
    using h hs by (auto intro: less_SucI)
  then have "held_after rank prot (m # hs) body = Some (m # hs)"
    using assms(1) unfolding from_level_def by blast
  with hs show "held_after rank prot hs (holding m body) = Some hs" by (simp add: holding_def held_after_append)
qed

section \<open>No circle\<close>

text \<open>
  What the threads hold is what the mutexes say, and each thread keeps to the hierarchy to its end.
\<close>

definition locks_inv ::
  "('m \<Rightarrow> nat) \<Rightarrow> ('v \<Rightarrow> bool \<Rightarrow> 'm set \<Rightarrow> bool) \<Rightarrow> 'm list list \<Rightarrow> ('m, 'v) lock_state \<Rightarrow> bool" where
  "locks_inv rank prot held st \<longleftrightarrow>
     length held = length (fst st) \<and>
     (\<forall>i < length held. distinct (held ! i) \<and> held_after rank prot (held ! i) (fst st ! i) = Some []) \<and>
     (\<forall>m i. snd st m = Some i \<longleftrightarrow> i < length held \<and> m \<in> set (held ! i))"

lemma locks_inv_moved:
  assumes "locks_inv rank prot held (ts, own)" "i < length ts" "distinct hs" "held_after rank prot hs es = Some []"
    and "\<And>m j. own' m = Some j \<longleftrightarrow> (if j = i then m \<in> set hs else own m = Some j)"
  shows "locks_inv rank prot (held[i := hs]) (ts[i := es], own')"
  unfolding locks_inv_def fst_conv snd_conv assms(5)
  using assms(1-4) by (auto simp: locks_inv_def nth_list_update)

lemma locks_inv_step:
  assumes "locks_inv rank prot held st" "lock_step i st = Some st'"
  shows "\<exists>held'. locks_inv rank prot held' st'"
proof -
  obtain ts own where st: "st = (ts, own)" by (cases st)
  then obtain e es where i: "i < length ts" "ts ! i = e # es"
    using assms(2) by (auto simp: lock_step_def split: if_splits list.splits)
  note inv = assms(1) [unfolded st]
  have len: "i < length held" using inv i by (simp add: locks_inv_def)
  have mine: "distinct (held ! i)" "held_after rank prot (held ! i) (e # es) = Some []"
    using inv len unfolding locks_inv_def by (simp_all, metis i(2))
  have own: "own m = Some j \<longleftrightarrow> j < length held \<and> m \<in> set (held ! j)" for m j
    using inv by (simp add: locks_inv_def)
  note moved = locks_inv_moved [OF inv i(1)]
  have same: "locks_inv rank prot held (ts[i := es], own)" if "held_after rank prot (held ! i) es = Some []"
    using moved [OF mine(1) that, of own] own len by simp
  show ?thesis
  proof (cases e)
    case (Acquire m)
    then have st': "st' = (ts[i := es], own(m \<mapsto> i))" "own m = None"
      using assms(2) i by (auto simp: lock_step_def st split: if_splits)
    have "m \<notin> set (held ! i)" using own [of m i] st'(2) len by simp
    moreover have "(own(m \<mapsto> i)) m' = Some j \<longleftrightarrow> (if j = i then m' \<in> set (m # held ! i) else own m' = Some j)" for m' j
      using own [of m' i] len st'(2) by auto
    ultimately have "locks_inv rank prot (held[i := m # held ! i]) (ts[i := es], own(m \<mapsto> i))"
      using mine Acquire by (intro moved) (simp_all split: if_splits)
    then show ?thesis using st'(1) by blast
  next
    case (Release m)
    then have st': "st' = (ts[i := es], own(m := None))"
      using assms(2) i by (auto simp: lock_step_def st)
    obtain hs where hs: "held ! i = m # hs" "held_after rank prot hs es = Some []"
      using mine(2) Release by (cases "held ! i") (simp_all split: if_splits)
    have "(own(m := None)) m' = Some j \<longleftrightarrow> (if j = i then m' \<in> set hs else own m' = Some j)" for m' j
      using own [of m' i] own [of m i] len hs(1) mine(1) by auto
    then have "locks_inv rank prot (held[i := hs]) (ts[i := es], own(m := None))"
      using mine(1) hs by (intro moved) simp_all
    then show ?thesis using st' by blast
  next
    case (ReadVar v)
    with assms(2) i mine(2) same show ?thesis by (auto simp: lock_step_def st split: if_splits)
  next
    case (WriteVar v)
    with assms(2) i mine(2) same show ?thesis by (auto simp: lock_step_def st split: if_splits)
  qed
qed

lemma locks_inv_run:
  "locks_inv rank prot held st \<Longrightarrow> lock_run sched st = Some st' \<Longrightarrow> \<exists>held'. locks_inv rank prot held' st'"
proof (induction sched arbitrary: st held)
  case (Cons i sched)
  then obtain st1 where "lock_step i st = Some st1" "lock_run sched st1 = Some st'" by (auto split: option.splits)
  with Cons.IH Cons.prems(1) locks_inv_step show ?case by metis
qed auto

lemma locks_inv_goes:
  assumes "locks_inv rank prot held (ts, own)" and i: "i < length ts" "ts ! i \<noteq> []"
    and free: "\<And>m. \<forall>h \<in> set (held ! i). rank h < rank m \<Longrightarrow> own m = None"
  shows "\<exists>i st'. lock_step i (ts, own) = Some st'"
proof -
  obtain e es where e: "ts ! i = e # es" using i(2) by (cases "ts ! i") auto
  have keeps: "held_after rank prot (held ! i) (e # es) = Some []"
    using assms(1) i(1) unfolding locks_inv_def by (simp, metis e)
  show ?thesis
  proof (cases e)
    case (Acquire m)
    then have "own m = None" using free keeps by (simp split: if_splits)
    with Acquire e i show ?thesis by (auto simp: lock_step_def intro!: exI [of _ i])
  next
    case (Release m)
    with e i show ?thesis by (auto simp: lock_step_def intro!: exI [of _ i])
  qed (use e i in \<open>auto simp: lock_step_def intro!: exI [of _ i]\<close>)
qed

text \<open>The thread that holds a mutex of the highest rank can go on; without such a mutex, any thread.\<close>

lemma locks_inv_progress:
  assumes "locks_inv rank prot held st" "\<not> all_done st"
  shows "\<exists>i st'. lock_step i st = Some st'"
proof -
  obtain ts own where st: "st = (ts, own)" by (cases st)
  have len: "length held = length ts" using assms(1) by (simp add: locks_inv_def st)
  have own: "own m = Some i \<longleftrightarrow> i < length held \<and> m \<in> set (held ! i)" for m i
    using assms(1) by (simp add: locks_inv_def st)
  have keeps: "held_after rank prot (held ! i) (ts ! i) = Some []" if "i < length ts" for i
    using assms(1) that len by (simp add: locks_inv_def st)
  note goes = locks_inv_goes [OF assms(1) [unfolded st], folded st]
  show ?thesis
  proof (cases "\<exists>m. own m \<noteq> None")
    case False
    obtain i where "i < length ts" "ts ! i \<noteq> []"
      using assms(2) by (auto simp: all_done_def st list_all_length)
    then show ?thesis by (rule goes) (use False in simp)
  next
    case True
    let ?M = "{m. own m \<noteq> None}"
    have "?M \<subseteq> (\<Union>i < length held. set (held ! i))" using own by fastforce
    then have "finite ?M" by (rule finite_subset) simp
    moreover have "?M \<noteq> {}" using True by simp
    ultimately have "Max (rank ` ?M) \<in> rank ` ?M" by (intro Max_in) simp_all
    then obtain m where m: "m \<in> ?M" "rank m = Max (rank ` ?M)" by force
    have top: "rank m' \<le> rank m" if "m' \<in> ?M" for m' using \<open>finite ?M\<close> that m(2) by simp
    obtain j where "own m = Some j" using m(1) by auto
    then obtain i where i: "i < length ts" "m \<in> set (held ! i)" using own len by auto
    have "ts ! i \<noteq> []" using keeps [OF i(1)] i(2) by (cases "ts ! i") auto
    then show ?thesis
    proof (rule goes [OF i(1)])
      fix m' assume "\<forall>h \<in> set (held ! i). rank h < rank m'"
      then have "rank m < rank m'" using i(2) by blast
      then show "own m' = None" using top [of m'] by (cases "own m'") auto
    qed
  qed
qed

lemma locks_inv_done:
  assumes "locks_inv rank prot held st" "all_done st"
  shows "snd st = (\<lambda>_. None)"
proof -
  have "held ! i = []" if "i < length held" for i
    using assms that by (auto simp: locks_inv_def all_done_def list_all_length)
  then show ?thesis using assms(1) unfolding locks_inv_def by (metis (full_types) ext emptyE list.set(1) not_None_eq)
qed

text \<open>A thread that is about to access a variable holds mutexes that protect it.\<close>

lemma locks_inv_protected:
  assumes "locks_inv rank prot held st" "i < length (fst st)"
  shows "take 1 (fst st ! i) = [WriteVar v] \<Longrightarrow> prot v True (set (held ! i))"
    and "take 1 (fst st ! i) = [ReadVar v] \<Longrightarrow> prot v False (set (held ! i))"
proof -
  have h: "held_after rank prot (held ! i) (fst st ! i) = Some []"
    using assms by (simp add: locks_inv_def)
  show "prot v True (set (held ! i))" if "take 1 (fst st ! i) = [WriteVar v]"
    using h that by (cases "fst st ! i") (auto split: if_splits)
  show "prot v False (set (held ! i))" if "take 1 (fst st ! i) = [ReadVar v]"
    using h that by (cases "fst st ! i") (auto split: if_splits)
qed

lemma locks_inv_no_race:
  assumes "locks_inv rank prot held st"
    and "\<And>w A B. prot v True A \<Longrightarrow> prot v w B \<Longrightarrow> A \<inter> B \<noteq> {}"
  shows "\<not> racing v st"
proof
  assume "racing v st"
  then obtain i j where ij: "i < length (fst st)" "j < length (fst st)" "i \<noteq> j"
    and e: "take 1 (fst st ! i) = [WriteVar v]" "take 1 (fst st ! j) \<in> {[WriteVar v], [ReadVar v]}"
    by (auto simp: racing_def)
  then have "prot v True (set (held ! i))" "\<exists>w. prot v w (set (held ! j))"
    using locks_inv_protected [OF assms(1)] by blast+
  then obtain m where "m \<in> set (held ! i)" "m \<in> set (held ! j)" using assms(2) by blast
  then have "snd st m = Some i" "snd st m = Some j" using assms(1) ij by (simp_all add: locks_inv_def)
  with ij(3) show False by simp
qed

section \<open>The contract of a program\<close>

text \<open>
  A thread is a list of calls. What only the thread of an event loop may do is protected by a mutex
  that stands for being that thread: the thread holds it all the time and no call takes it.
\<close>

definition thread_of :: "('c \<Rightarrow> ('m, 'v) lock_event list) \<Rightarrow> 'm option \<times> 'c list \<Rightarrow> ('m, 'v) lock_event list" where
  "thread_of locks prog =
     (let es = concat (map locks (snd prog))
      in case fst prog of None \<Rightarrow> es | Some t \<Rightarrow> holding t es)"

definition threads_of :: "('c \<Rightarrow> ('m, 'v) lock_event list) \<Rightarrow> ('m option \<times> 'c list) list \<Rightarrow> ('m, 'v) lock_state" where
  "threads_of locks progs = (map (thread_of locks) progs, \<lambda>_. None)"

text \<open>
  The calls of a program, their events, the calls that a thread may make, and the protection of the
  variables: each call keeps to the hierarchy and to the protection, and two accesses
  of a guarded variable of which one is a write are protected by a common mutex.
\<close>

locale lock_hierarchy =
  fixes rank :: "'m \<Rightarrow> nat" and prot :: "'v \<Rightarrow> bool \<Rightarrow> 'm set \<Rightarrow> bool" and guarded :: "'v \<Rightarrow> bool"
    and locks :: "'c \<Rightarrow> ('m, 'v) lock_event list" and made :: "'m option \<Rightarrow> 'c \<Rightarrow> bool"
  assumes made_level: "made tok c \<Longrightarrow> from_level rank prot (set_option tok) 1 (locks c)"
    and made_token: "made (Some t) c \<Longrightarrow> rank t = 0"
    and guarded_common: "guarded v \<Longrightarrow> prot v True A \<Longrightarrow> prot v w B \<Longrightarrow> A \<inter> B \<noteq> {}"
begin

lemma threads_inv:
  assumes "list_all (\<lambda>(tok, cs). list_all (made tok) cs) progs"
  shows "locks_inv rank prot (map (\<lambda>_. []) progs) (threads_of locks progs)"
proof -
  have "held_after rank prot [] (thread_of locks (tok, cs)) = Some []" if "(tok, cs) \<in> set progs" for tok cs
  proof (cases cs)
    case Nil
    then show ?thesis by (simp add: thread_of_def holding_def split: option.split)
  next
    case (Cons c cs')
    have made: "made tok c'" if "c' \<in> set cs" for c'
      using assms that \<open>(tok, cs) \<in> set progs\<close> by (fastforce simp: list_all_iff)
    then have lv: "from_level rank prot (set_option tok) 1 (concat (map locks cs))"
      using made_level by (intro from_level_concat) auto
    show ?thesis
    proof (cases tok)
      case None
      with lv show ?thesis by (simp add: thread_of_def from_level_def)
    next
      case (Some t)
      then have "rank t = 0" using made_token made Cons by auto
      then have "from_level rank prot {} 0 (holding t (concat (map locks cs)))"
        using lv Some by (intro from_level_holding) simp_all
      with Some show ?thesis by (simp add: thread_of_def from_level_def)
    qed
  qed
  then have "held_after rank prot [] (thread_of locks prog) = Some []" if "prog \<in> set progs" for prog
    using that by (cases prog) simp
  then show ?thesis by (simp add: locks_inv_def threads_of_def)
qed

lemma not_stuck:
  assumes "list_all (\<lambda>(tok, cs). list_all (made tok) cs) progs" "lock_run sched (threads_of locks progs) = Some st"
    "\<forall>i. lock_step i st = None"
  shows "all_done st"
  using locks_inv_run [OF threads_inv [OF assms(1)] assms(2)] locks_inv_progress assms(3) by fastforce

lemma never_racing:
  assumes "list_all (\<lambda>(tok, cs). list_all (made tok) cs) progs" "lock_run sched (threads_of locks progs) = Some st"
    "guarded v"
  shows "\<not> racing v st"
proof -
  obtain held where "locks_inv rank prot held st" using locks_inv_run [OF threads_inv [OF assms(1)] assms(2)] by blast
  then show ?thesis using guarded_common [OF assms(3)] by (rule locks_inv_no_race)
qed

lemma completes:
  assumes "list_all (\<lambda>(tok, cs). list_all (made tok) cs) progs" "lock_run sched (threads_of locks progs) = Some st"
  shows "\<exists>rest st'. lock_run (sched @ rest) (threads_of locks progs) = Some st' \<and> all_done st' \<and> snd st' = (\<lambda>_. None)"
proof -
  obtain held where "locks_inv rank prot held st" using locks_inv_run [OF threads_inv [OF assms(1)] assms(2)] by blast
  then have "\<exists>rest st'. lock_run rest st = Some st' \<and> all_done st' \<and> snd st' = (\<lambda>_. None)"
  proof (induction "events_left st" arbitrary: st held rule: less_induct)
    case less
    show ?case
    proof (cases "all_done st")
      case True
      with locks_inv_done [OF less.prems] show ?thesis by (intro exI [of _ "[]"] exI [of _ st]) simp
    next
      case False
      then obtain i st1 where s: "lock_step i st = Some st1" using locks_inv_progress [OF less.prems] by blast
      then obtain held1 where "locks_inv rank prot held1 st1" using locks_inv_step [OF less.prems] by blast
      moreover have "events_left st1 < events_left st" using lock_step_left [OF s] by simp
      ultimately obtain rest st' where
        "lock_run rest st1 = Some st'" "all_done st'" "snd st' = (\<lambda>_. None)" using less.hyps by blast
      with s show ?thesis by (intro exI [of _ "i # rest"] exI [of _ st']) simp
    qed
  qed
  with assms(2) show ?thesis by (auto simp: lock_run_append)
qed

end

section \<open>One thread alone\<close>

text \<open>A thread alone waits for ever exactly if it takes a mutex it holds.\<close>

fun reenters :: "'m set \<Rightarrow> ('m, 'v) lock_event list \<Rightarrow> bool" where
  "reenters hs [] = False"
| "reenters hs (Acquire m # es) = (m \<in> hs \<or> reenters (insert m hs) es)"
| "reenters hs (Release m # es) = reenters (hs - {m}) es"
| "reenters hs (ReadVar v # es) = reenters hs es"
| "reenters hs (WriteVar v # es) = reenters hs es"

lemma alone:
  "(\<forall>m. own m = (if m \<in> hs then Some 0 else None)) \<Longrightarrow>
    (\<exists>n ts own'. lock_run (replicate n 0) ([es], own) = Some (ts, own') \<and> lock_step 0 (ts, own') = None \<and>
      (ts = [[]] \<longleftrightarrow> \<not> reenters hs es) \<and> length ts = 1)"
proof (induction hs es arbitrary: own rule: reenters.induct)
  case (1 hs)
  then show ?case by (intro exI [of _ 0] exI [of _ "[[]]"] exI [of _ own]) (simp add: lock_step_def)
next
  case (2 hs m es)
  show ?case
  proof (cases "m \<in> hs")
    case True
    with 2 show ?thesis
      by (intro exI [of _ 0] exI [of _ "[Acquire m # es]"] exI [of _ own]) (simp add: lock_step_def)
  next
    case False
    have "\<forall>m'. (own(m \<mapsto> 0)) m' = (if m' \<in> insert m hs then Some 0 else None)" using 2(2) by simp
    from 2(1) [OF this] obtain n ts own' where
      "lock_run (replicate n 0) ([es], own(m \<mapsto> 0)) = Some (ts, own')" "lock_step 0 (ts, own') = None"
      "(ts = [[]]) = (\<not> reenters (insert m hs) es)" "length ts = 1" by blast
    moreover have "own m = None" using 2(2) False by simp
    ultimately show ?thesis using False
      by (intro exI [of _ "Suc n"] exI [of _ ts] exI [of _ own']) (simp add: lock_step_def)
  qed
next
  case (3 hs m es)
  have "\<forall>m'. (own(m := None)) m' = (if m' \<in> hs - {m} then Some 0 else None)" using 3(2) by simp
  from 3(1) [OF this] obtain n ts own' where
    "lock_run (replicate n 0) ([es], own(m := None)) = Some (ts, own')" "lock_step 0 (ts, own') = None"
    "(ts = [[]]) = (\<not> reenters (hs - {m}) es)" "length ts = 1" by blast
  then show ?case
    by (intro exI [of _ "Suc n"] exI [of _ ts] exI [of _ own']) (simp add: lock_step_def)
next
  case (4 hs v es)
  from 4(1) [OF 4(2)] obtain n ts own' where
    "lock_run (replicate n 0) ([es], own) = Some (ts, own')" "lock_step 0 (ts, own') = None"
    "(ts = [[]]) = (\<not> reenters hs es)" "length ts = 1" by blast
  then show ?case
    by (intro exI [of _ "Suc n"] exI [of _ ts] exI [of _ own']) (simp add: lock_step_def)
next
  case (5 hs v es)
  from 5(1) [OF 5(2)] obtain n ts own' where
    "lock_run (replicate n 0) ([es], own) = Some (ts, own')" "lock_step 0 (ts, own') = None"
    "(ts = [[]]) = (\<not> reenters hs es)" "length ts = 1" by blast
  then show ?case
    by (intro exI [of _ "Suc n"] exI [of _ ts] exI [of _ own']) (simp add: lock_step_def)
qed

lemma reenters_read [simp]: "m \<notin> hs \<Longrightarrow> reenters hs (holding m [ReadVar v] @ es) = reenters hs es"
  by (simp add: holding_def insert_Diff_if)

lemma reenters_last: "m \<notin> hs \<Longrightarrow> reenters hs (holding m body) = reenters (insert m hs) body"
proof -
  have "reenters hs' (body @ [Release m]) = reenters hs' body" for hs'
    by (induction hs' body rule: reenters.induct) simp_all
  moreover assume "m \<notin> hs"
  ultimately show ?thesis by (simp add: holding_def)
qed

end
