(* ===== verification/Relay_Locks.thy ===== *)
theory Relay_Locks
  imports Lock_Order Rtsp_Session Tcp_Connection
begin

text \<open>
  The mutexes of the program: \<open>streams_mutex_\<close> of \<open>RelayManager\<close>, \<open>sinks_mutex\<close> of each stream, the
  mutex of a connection's output buffer and \<open>task_mutex_\<close> of each event loop; and the variables that
  threads share: the map of streams, the sink list of a stream, the description and the state of a
  source, what a session knows, the tasks of a loop, an output buffer. For every call that takes
  a mutex, the definitions give its acquisitions, releases and accesses in the order of the
  code, those of the callbacks it runs included. What a call finds in the objects (the streams, the
  state of a connection, what \<open>write\<close> returns) is an argument, so a schedule may interleave the
  calls with any change of them. The write callback of a connection is never installed
  (\<open>Connection_Faults\<close>) and left out.
\<close>

datatype relay_mutex =
    MainThread                 \<comment> \<open>being the thread of the main loop\<close>
  | StreamsMutex
  | SinksMutex bytes
  | OutputMutex nat            \<comment> \<open>of a connection\<close>
  | TaskMutex nat              \<comment> \<open>of an event loop\<close>

datatype relay_var =
    StreamsVar
  | SinksVar bytes
  | SdpVar bytes
  | SourceVar bytes            \<comment> \<open>\<open>state_\<close> of a source\<close>
  | SessionVar nat             \<comment> \<open>state, path, transport and channels of a session\<close>
  | OutputVar nat
  | TasksVar nat

type_synonym relay_locks = "(relay_mutex, relay_var) lock_event list"

section \<open>Connections\<close>

text \<open>A connection, as the calling thread finds it.\<close>

record lock_conn =
  lc_id :: nat
  lc_loop :: nat
  lc_in_thread :: bool         \<comment> \<open>the calling thread is the one of the loop\<close>
  lc_world :: "unit conn_world"

definition post_locks :: "nat \<Rightarrow> relay_locks" where
  "post_locks loop = holding (TaskMutex loop) [WriteVar (TasksVar loop)]"

definition buffer_locks :: "lock_conn \<Rightarrow> bytes \<Rightarrow> relay_locks" where
  "buffer_locks c data =
     (if data \<noteq> [] then holding (OutputMutex (lc_id c)) [WriteVar (OutputVar (lc_id c))] @ post_locks (lc_loop c) else [])"

text \<open>\<open>sendInLoop\<close>; \<open>on_error\<close> is what the error callback does.\<close>

definition send_in_loop_locks :: "relay_locks \<Rightarrow> bytes \<Rightarrow> lock_conn \<Rightarrow> relay_locks" where
  "send_in_loop_locks on_error data c =
     (let w = lc_world c
      in if tc_state (conn_of w) \<noteq> ConnConnected then []
         else holding (OutputMutex (lc_id c)) [ReadVar (OutputVar (lc_id c))] @
           (if tsb_readable (tc_output (conn_of w)) > 0 then buffer_locks c data
            else case fst (sock_write data w) of
              Wrote n \<Rightarrow> if length data - n = 0 then [] else buffer_locks c (drop n data)
            | WriteAgain \<Rightarrow> buffer_locks c data
            | WriteFailed \<Rightarrow> on_error))"

definition send_locks :: "relay_locks \<Rightarrow> bytes \<Rightarrow> lock_conn \<Rightarrow> relay_locks" where
  "send_locks on_error data c =
     (if tc_state (conn_of (lc_world c)) \<noteq> ConnConnected then []
      else if lc_in_thread c then send_in_loop_locks on_error data c
      else post_locks (lc_loop c))"

definition after_send :: "bytes \<Rightarrow> lock_conn \<Rightarrow> lock_conn" where
  "after_send data c = c\<lparr>lc_world := conn_send (lc_in_thread c) data (lc_world c)\<rparr>"

section \<open>The manager and the sessions\<close>

text \<open>\<open>addSink\<close> and \<open>removeSink\<close>; the size they print is read after the release of \<open>sinks_mutex\<close>.\<close>

definition change_sinks_locks :: "bytes \<Rightarrow> relay_manager \<Rightarrow> relay_locks" where
  "change_sinks_locks path m =
     holding StreamsMutex (ReadVar StreamsVar #
       (if rm_find m path = None then []
        else holding (SinksMutex path) [WriteVar (SinksVar path)] @ [ReadVar (SinksVar path)]))"

definition get_stream_sdp_locks :: "bytes \<Rightarrow> relay_manager \<Rightarrow> relay_locks" where
  "get_stream_sdp_locks path m =
     holding StreamsMutex (ReadVar StreamsVar # (if rm_find m path = None then [] else [ReadVar (SdpVar path)]))"

text \<open>\<open>hasStream\<close> and \<open>streamCount\<close>.\<close>

definition query_locks :: relay_locks where
  "query_locks = holding StreamsMutex [ReadVar StreamsVar]"

text \<open>\<open>getStreamInfo\<close>, and the rounds of \<open>getAllStreamInfo\<close>.\<close>

definition info_locks :: "bytes \<Rightarrow> relay_locks" where
  "info_locks path =
     [ReadVar (SourceVar path), ReadVar (SdpVar path)] @ holding (SinksMutex path) [ReadVar (SinksVar path)]"

definition get_stream_info_locks :: "bytes \<Rightarrow> relay_manager \<Rightarrow> relay_locks" where
  "get_stream_info_locks path m =
     holding StreamsMutex (ReadVar StreamsVar # (if rm_find m path = None then [] else info_locks path))"

definition get_all_stream_info_locks :: "relay_manager \<Rightarrow> relay_locks" where
  "get_all_stream_info_locks m =
     holding StreamsMutex (ReadVar StreamsVar # concat (map (\<lambda>(path, rel). info_locks path) (rm_streams m)))"

definition get_stats_locks :: "relay_manager \<Rightarrow> relay_locks" where
  "get_stats_locks m =
     holding StreamsMutex (ReadVar StreamsVar #
       concat (map (\<lambda>(path, rel). holding (SinksMutex path) [ReadVar (SinksVar path)] @ [ReadVar (SourceVar path)])
         (rm_streams m)))"

definition total_sinks_locks :: "relay_manager \<Rightarrow> relay_locks" where
  "total_sinks_locks m =
     holding StreamsMutex (ReadVar StreamsVar #
       concat (map (\<lambda>(path, rel). holding (SinksMutex path) [ReadVar (SinksVar path)]) (rm_streams m)))"

text \<open>
  The sends among the calls of a source. Its connection lives on the loop of the source, and nobody
  sets an error callback on it.
\<close>

definition effects_locks :: "lock_conn option \<Rightarrow> src_effect list \<Rightarrow> relay_locks" where
  "effects_locks conn es =
     concat (map (\<lambda>e. case (e, conn) of (SrcSend data, Some c) \<Rightarrow> send_locks [] data c | _ \<Rightarrow> []) es)"

text \<open>
  \<open>start\<close> of a source, up to the return of \<open>TcpClient::connect\<close>: the name is not resolved, the
  connection is under way (or the socket fails), or it is there at once and the first request sent.
\<close>

datatype start_outcome = StartUnresolved nat | StartPending | StartConnected lock_conn

definition source_start_locks :: "bytes \<Rightarrow> source \<Rightarrow> start_outcome \<Rightarrow> relay_locks" where
  "source_start_locks path s outcome =
     WriteVar (SourceVar path) #
     (case outcome of
        StartUnresolved loop \<Rightarrow> post_locks loop
      | StartPending \<Rightarrow> []
      | StartConnected c \<Rightarrow>
          WriteVar (SourceVar path) #
          (case source_on_connect (s, []) of Inl e \<Rightarrow> [] | Inr (s, es) \<Rightarrow> effects_locks (Some c) es))"

definition add_stream_locks :: "bytes \<Rightarrow> bytes \<Rightarrow> start_outcome \<Rightarrow> relay_manager \<Rightarrow> relay_locks" where
  "add_stream_locks path url outcome m =
     holding StreamsMutex (ReadVar StreamsVar #
       (if rm_find m path \<noteq> None \<or> length (rm_streams m) \<ge> rm_max_sources m then []
        else WriteVar StreamsVar # source_start_locks path (source_new url path) outcome))"

definition source_stop_locks :: "bytes \<Rightarrow> source \<Rightarrow> lock_conn option \<Rightarrow> relay_locks" where
  "source_stop_locks path s conn =
     WriteVar (SourceVar path) #
     (case source_stop (s, []) of Inl e \<Rightarrow> [] | Inr (s, es) \<Rightarrow> effects_locks conn es)"

text \<open>Erasing a stream destroys its sink list, without \<open>sinks_mutex\<close>.\<close>

definition remove_stream_locks :: "bytes \<Rightarrow> lock_conn option \<Rightarrow> relay_manager \<Rightarrow> relay_locks" where
  "remove_stream_locks path conn m =
     holding StreamsMutex (ReadVar StreamsVar #
       (case rm_find m path of
          None \<Rightarrow> []
        | Some rel \<Rightarrow>
            source_stop_locks path (rel_source rel) conn @ [WriteVar StreamsVar, WriteVar (SinksVar path)]))"

definition manager_destroy_locks :: "(bytes \<Rightarrow> lock_conn option) \<Rightarrow> relay_manager \<Rightarrow> relay_locks" where
  "manager_destroy_locks conns m =
     holding StreamsMutex (ReadVar StreamsVar #
       concat (map (\<lambda>(path, rel). source_stop_locks path (rel_source rel) (conns path)) (rm_streams m)) @
       WriteVar StreamsVar # map (\<lambda>(path, rel). WriteVar (SinksVar path)) (rm_streams m))"

text \<open>\<open>handleResponse\<close> of a source, on the main loop.\<close>

definition source_response_locks :: "bytes \<Rightarrow> source \<Rightarrow> rtsp_message \<Rightarrow> lock_conn \<Rightarrow> relay_locks" where
  "source_response_locks path s resp c =
     (if msg_status_code resp \<noteq> 200 then []
      else ReadVar (SourceVar path) #
        (if src_state s = SrcDescribe then [WriteVar (SdpVar path)] else []) @
        (if src_state s \<in> {SrcOptions, SrcDescribe, SrcSetup} then [WriteVar (SourceVar path)] else []) @
        (case handle_response resp (s, []) of Inl e \<Rightarrow> [] | Inr (s, es) \<Rightarrow> effects_locks (Some c) es))"

text \<open>\<open>RtspSession::close\<close>, which is also the error callback of the session's connection.\<close>

definition session_close_locks :: "relay_manager \<Rightarrow> session \<Rightarrow> relay_locks" where
  "session_close_locks m s =
     ReadVar (SessionVar (ses_id s)) #
     (if ses_state s = SesTeardown then []
      else WriteVar (SessionVar (ses_id s)) #
        (if ses_state s = SesPlaying \<and> ses_stream_path s \<noteq> [] then change_sinks_locks (ses_stream_path s) m else []))"

text \<open>
  What a request does to the session, as \<open>handleSetup\<close> does: it reads the path and sets the state.
\<close>

definition session_update_locks :: "nat \<Rightarrow> relay_locks" where
  "session_update_locks i = [ReadVar (SessionVar i), WriteVar (SessionVar i)]"

text \<open>A sink as the fan-out finds it, and \<open>RtspSession::onRtpData\<close>.\<close>

record lock_sink =
  sk_session :: session
  sk_conn :: lock_conn

definition sink_header :: "bytes \<Rightarrow> lock_sink \<Rightarrow> bytes" where
  "sink_header data v = interleaved_header (ses_rtp_channel (sk_session v)) (length data)"

definition sink_locks :: "relay_manager \<Rightarrow> bytes \<Rightarrow> lock_sink \<Rightarrow> relay_locks" where
  "sink_locks m data v =
     (let s = sk_session v; c = sk_conn v; on_error = session_close_locks m s
      in ReadVar (SessionVar (ses_id s)) #
        (if ses_state s \<noteq> SesPlaying then []
         else if ses_transport s = Udp then []
         else if \<not> conn_connected (conn_of (lc_world c)) then []
         else send_locks on_error (sink_header data v) c @
           send_locks on_error data (after_send (sink_header data v) c)))"

definition fan_out_locks :: "bytes \<Rightarrow> relay_manager \<Rightarrow> (nat \<Rightarrow> lock_sink) \<Rightarrow> bytes \<Rightarrow> relay_locks" where
  "fan_out_locks path m sinks data =
     holding StreamsMutex [ReadVar StreamsVar] @
     (case rm_find m path of
        None \<Rightarrow> []
      | Some rel \<Rightarrow> holding (SinksMutex path) (ReadVar (SinksVar path) # concat (map (\<lambda>i. sink_locks m data (sinks i)) (rel_sinks rel))))"

section \<open>Every call\<close>

text \<open>
  The calls of the threads: the HTTP handlers and the timer of the main loop, the requests and the
  end of a session on its IO loop, the tasks of a loop, and the packets of a source.
\<close>

datatype relay_call =
    CallAddStream bytes bytes start_outcome relay_manager
  | CallRemoveStream bytes "lock_conn option" relay_manager
  | CallDestroy "bytes \<Rightarrow> lock_conn option" relay_manager
  | CallChangeSinks bytes relay_manager                \<comment> \<open>\<open>addSink\<close>, \<open>removeSink\<close>\<close>
  | CallStreamSdp bytes relay_manager
  | CallQuery
  | CallStreamInfo bytes relay_manager
  | CallAllStreamInfo relay_manager
  | CallStats relay_manager
  | CallTotalSinks relay_manager
  | CallSourceResponse bytes source rtsp_message lock_conn
  | CallRtpData bytes relay_manager "nat \<Rightarrow> lock_sink" bytes
  | CallSessionUpdate nat
  | CallClosed relay_manager session                   \<comment> \<open>the close or error callback of a session\<close>
  | CallRespond bytes lock_conn relay_manager session  \<comment> \<open>\<open>sendResponse\<close>\<close>
  | CallPost nat                                       \<comment> \<open>\<open>runInLoop\<close>\<close>
  | CallTakeTasks nat                                  \<comment> \<open>\<open>processTasks\<close>, up to the tasks\<close>
  | CallSendTask bytes lock_conn relay_manager session \<comment> \<open>the task of \<open>send\<close>\<close>
  | CallShutdownTask nat

fun call_locks :: "relay_call \<Rightarrow> relay_locks" where
  "call_locks (CallAddStream path url outcome m) = add_stream_locks path url outcome m"
| "call_locks (CallRemoveStream path conn m) = remove_stream_locks path conn m"
| "call_locks (CallDestroy conns m) = manager_destroy_locks conns m"
| "call_locks (CallChangeSinks path m) = change_sinks_locks path m"
| "call_locks (CallStreamSdp path m) = get_stream_sdp_locks path m"
| "call_locks CallQuery = query_locks"
| "call_locks (CallStreamInfo path m) = get_stream_info_locks path m"
| "call_locks (CallAllStreamInfo m) = get_all_stream_info_locks m"
| "call_locks (CallStats m) = get_stats_locks m"
| "call_locks (CallTotalSinks m) = total_sinks_locks m"
| "call_locks (CallSourceResponse path s resp c) = source_response_locks path s resp c"
| "call_locks (CallRtpData path m sinks data) = fan_out_locks path m sinks data"
| "call_locks (CallSessionUpdate i) = session_update_locks i"
| "call_locks (CallClosed m s) = session_close_locks m s"
| "call_locks (CallRespond data c m s) = send_locks (session_close_locks m s) data c"
| "call_locks (CallPost loop) = post_locks loop"
| "call_locks (CallTakeTasks loop) = holding (TaskMutex loop) [WriteVar (TasksVar loop)]"
| "call_locks (CallSendTask data c m s) = send_in_loop_locks (session_close_locks m s) data c"
| "call_locks (CallShutdownTask conn) = holding (OutputMutex conn) [ReadVar (OutputVar conn)]"

text \<open>
  Who makes them: a thread is the one of the main loop or it is not. Streams are removed by the
  handlers of the HTTP API and by the destructor, packets come from sources, all on the main
  loop; with IO threads the connections of the players live on IO loops, so that the thread of the
  source is never theirs.
\<close>

definition call_made :: "relay_mutex option \<Rightarrow> relay_call \<Rightarrow> bool" where
  "call_made tok call \<longleftrightarrow> tok \<in> {None, Some MainThread} \<and>
     (case call of
        CallRemoveStream path conn m \<Rightarrow> tok = Some MainThread
      | CallDestroy conns m \<Rightarrow> tok = Some MainThread
      | CallRtpData path m sinks data \<Rightarrow>
          tok = Some MainThread \<and> list_all (\<lambda>i. \<not> lc_in_thread (sk_conn (sinks i))) (fan_out_sinks path m)
      | _ \<Rightarrow> True)"

section \<open>The hierarchy\<close>

fun mutex_rank :: "relay_mutex \<Rightarrow> nat" where
  "mutex_rank MainThread = 0"
| "mutex_rank StreamsMutex = 1"
| "mutex_rank (SinksMutex path) = 2"
| "mutex_rank (OutputMutex conn) = 3"
| "mutex_rank (TaskMutex loop) = 3"

text \<open>
  The protection of the variables. A sink list is changed under both mutexes and destroyed by the main
  thread under the first; it is read under the first by any thread and under the second by the
  main thread. The last three variables have none.
\<close>

fun relay_prot :: "relay_var \<Rightarrow> bool \<Rightarrow> relay_mutex set \<Rightarrow> bool" where
  "relay_prot StreamsVar w H = (StreamsMutex \<in> H)"
| "relay_prot (SinksVar path) w H =
     (if w then StreamsMutex \<in> H \<and> (SinksMutex path \<in> H \<or> MainThread \<in> H)
      else StreamsMutex \<in> H \<or> SinksMutex path \<in> H \<and> MainThread \<in> H)"
| "relay_prot (OutputVar conn) w H = (OutputMutex conn \<in> H)"
| "relay_prot (TasksVar loop) w H = (TaskMutex loop \<in> H)"
| "relay_prot _ w H = True"

fun relay_guarded :: "relay_var \<Rightarrow> bool" where
  "relay_guarded StreamsVar = True"
| "relay_guarded (SinksVar path) = True"
| "relay_guarded (OutputVar conn) = True"
| "relay_guarded (TasksVar loop) = True"
| "relay_guarded _ = False"

abbreviation relay_level :: "relay_mutex set \<Rightarrow> nat \<Rightarrow> relay_locks \<Rightarrow> bool" where
  "relay_level \<equiv> from_level mutex_rank relay_prot"

lemma post_level [level_intros]: "k \<le> 3 \<Longrightarrow> relay_level T k (post_locks loop)"
  by (auto simp: post_locks_def intro!: level_intros)

lemma buffer_level [level_intros]: "k \<le> 3 \<Longrightarrow> relay_level T k (buffer_locks c data)"
  by (auto simp: buffer_locks_def intro!: level_intros)

lemma send_in_loop_level [level_intros]:
  "k \<le> 3 \<Longrightarrow> relay_level T k on_error \<Longrightarrow> relay_level T k (send_in_loop_locks on_error data c)"
  by (auto simp: send_in_loop_locks_def Let_def intro!: level_intros split: write_result.split)

lemma send_level [level_intros]:
  "k \<le> 3 \<Longrightarrow> relay_level T k on_error \<Longrightarrow> relay_level T k (send_locks on_error data c)"
  by (auto simp: send_locks_def intro!: level_intros)

lemma send_elsewhere_level: "\<not> lc_in_thread c \<Longrightarrow> k \<le> 3 \<Longrightarrow> relay_level T k (send_locks on_error data c)"
  by (auto simp: send_locks_def intro!: level_intros)

lemma effects_level [level_intros]: "k \<le> 3 \<Longrightarrow> relay_level T k (effects_locks conn es)"
  by (auto simp: effects_locks_def intro!: level_intros split: src_effect.split option.split)

lemma change_sinks_level [level_intros]: "k \<le> 1 \<Longrightarrow> relay_level T k (change_sinks_locks path m)"
  by (auto simp: change_sinks_locks_def intro!: level_intros)

lemma info_level [level_intros]: "k \<le> 2 \<Longrightarrow> StreamsMutex \<in> T \<Longrightarrow> relay_level T k (info_locks path)"
  by (auto simp: info_locks_def intro!: level_intros)

lemma close_level [level_intros]: "k \<le> 1 \<Longrightarrow> relay_level T k (session_close_locks m s)"
  by (auto simp: session_close_locks_def intro!: level_intros)

lemma start_level [level_intros]: "k \<le> 3 \<Longrightarrow> relay_level T k (source_start_locks path s outcome)"
  by (auto simp: source_start_locks_def intro!: level_intros split: start_outcome.split sum.split)

lemma stop_level [level_intros]: "k \<le> 3 \<Longrightarrow> relay_level T k (source_stop_locks path s conn)"
  by (auto simp: source_stop_locks_def intro!: level_intros split: sum.split)

lemma response_level [level_intros]: "k \<le> 3 \<Longrightarrow> relay_level T k (source_response_locks path s resp c)"
  by (auto simp: source_response_locks_def intro!: level_intros split: sum.split)

lemma sink_elsewhere_level:
  "\<not> lc_in_thread (sk_conn v) \<Longrightarrow> k \<le> 3 \<Longrightarrow> relay_level T k (sink_locks m data v)"
  by (auto simp: sink_locks_def Let_def after_send_def intro!: level_intros send_elsewhere_level)

lemma fan_out_level:
  assumes "MainThread \<in> T" "list_all (\<lambda>i. \<not> lc_in_thread (sk_conn (sinks i))) (fan_out_sinks path m)"
  shows "relay_level T 1 (fan_out_locks path m sinks data)"
proof -
  have "\<not> lc_in_thread (sk_conn (sinks i))" if "rm_find m path = Some rel" "i \<in> set (rel_sinks rel)" for rel i
    using assms(2) that by (simp add: fan_out_sinks_def list_all_iff)
  with assms(1) show ?thesis
    by (auto simp: fan_out_locks_def intro!: level_intros sink_elsewhere_level split: option.split)
qed

lemma writes_level: "(\<And>H v. v \<in> set vs \<Longrightarrow> T \<subseteq> H \<Longrightarrow> relay_prot v True H) \<Longrightarrow> relay_level T k (map WriteVar vs)"
  by (induction vs) (auto intro!: level_intros)

lemma removal_level:
  assumes "MainThread \<in> T"
  shows "relay_level T 1 (remove_stream_locks path conn m)" "relay_level T 1 (manager_destroy_locks conns m)"
proof -
  show "relay_level T 1 (remove_stream_locks path conn m)"
    using assms by (auto simp: remove_stream_locks_def intro!: level_intros split: option.split)
  have w: "map (\<lambda>(path, rel). WriteVar (SinksVar path)) ps = map WriteVar (map (SinksVar \<circ> fst) ps)"
    for ps :: "(bytes \<times> stream_relay) list"
    by auto
  show "relay_level T 1 (manager_destroy_locks conns m)"
    unfolding manager_destroy_locks_def w
    using assms by (auto intro!: level_intros writes_level simp del: map_map) (meson subsetD)
qed

interpretation relay: lock_hierarchy mutex_rank relay_prot relay_guarded call_locks call_made
proof
  fix tok c assume made: "call_made tok c"
  have "relay_level (set_option tok) 1 (call_locks c)"
  proof (cases c)
    case (CallRtpData path m sinks data)
    with made show ?thesis using fan_out_level [of "set_option tok"] by (simp add: call_made_def)
  next
    case (CallRemoveStream path conn m)
    with made show ?thesis using removal_level(1) [of "set_option tok"] by (simp add: call_made_def)
  next
    case (CallDestroy conns m)
    with made show ?thesis using removal_level(2) [of "set_option tok"] by (simp add: call_made_def)
  qed (auto simp: add_stream_locks_def get_stream_sdp_locks_def query_locks_def get_stream_info_locks_def
      get_all_stream_info_locks_def get_stats_locks_def total_sinks_locks_def session_update_locks_def
      intro!: level_intros)
  then show "from_level mutex_rank relay_prot (set_option tok) 1 (call_locks c)" .
next
  fix t c assume "call_made (Some t) c"
  then show "mutex_rank t = 0" by (auto simp: call_made_def)
next
  fix v w and A B :: "relay_mutex set"
  assume "relay_guarded v" "relay_prot v True A" "relay_prot v w B"
  then show "A \<inter> B \<noteq> {}" by (cases v) (auto split: if_splits)
qed

text \<open>
  C8. No deadlock: with the connections of the players on IO loops, whatever calls any number of
  threads make, and however their acquisitions and releases interleave, a schedule that cannot go
  on has finished all calls, every schedule can be continued until all calls have returned, with
  all mutexes free, and none is longer than the calls have events.
\<close>

theorem relay_no_deadlock:
  assumes "list_all (\<lambda>(tok, calls). list_all (call_made tok) calls) progs"
    and "lock_run sched (threads_of call_locks progs) = Some st"
  shows "((\<forall>i. lock_step i st = None) \<longrightarrow> all_done st) \<and>
    (\<exists>rest st'. lock_run (sched @ rest) (threads_of call_locks progs) = Some st' \<and> all_done st' \<and> snd st' = (\<lambda>_. None)) \<and>
    length sched \<le> events_left (threads_of call_locks progs)"
  using relay.not_stuck [OF assms] relay.completes [OF assms] lock_run_left [OF assms(2)] by auto

text \<open>
  C9. No data race on what the mutexes protect: in the same runs, two threads are never about to
  access the map of streams, the sink list of a stream, the output buffer of a connection or the tasks
  of a loop at once, one of them writing. That includes the sink list that \<open>onRtpData\<close> reads through a
  pointer it keeps after the release of \<open>streams_mutex_\<close>, and that \<open>removeStream\<close> destroys.
\<close>

theorem relay_no_data_race:
  assumes "list_all (\<lambda>(tok, calls). list_all (call_made tok) calls) progs"
    and "lock_run sched (threads_of call_locks progs) = Some st"
  shows "\<not> racing StreamsVar st \<and> \<not> racing (SinksVar path) st \<and> \<not> racing (OutputVar conn) st \<and> \<not> racing (TasksVar loop) st"
  using relay.never_racing [OF assms] by simp

text \<open>Two players of one stream, the first to close while a packet comes.\<close>

definition demo_player :: "nat \<Rightarrow> bool \<Rightarrow> write_result list \<Rightarrow> lock_sink" where
  "demo_player i in_thread writes =
     \<lparr>sk_session = (session_new i [] 1)\<lparr>ses_state := SesPlaying, ses_stream_path := ''/cam''\<rparr>,
      sk_conn = \<lparr>lc_id = i, lc_loop = 1, lc_in_thread = in_thread,
        lc_world = (\<lparr>ce_conn = \<lparr>tc_fd = 20, tc_peer_addr = [], tc_state = ConnConnected, tc_input = byte_buffer_new 4,
            tc_output = tsb_new 4\<rparr>, ce_reads = [], ce_writes = writes, ce_trace = [], ce_user = ()\<rparr>,
          event_loop_new 1 4)\<rparr>\<rparr>"

definition demo_played :: relay_manager where
  "demo_played = add_sink ''/cam'' 8 (add_sink ''/cam'' 7 demo_relay)"

definition demo_source :: "src_state \<Rightarrow> source" where
  "demo_source st = (source_new ''rtsp://h/'' ''/cam'')\<lparr>src_state := st, src_conn := Some True\<rparr>"

definition demo_threads :: "(relay_mutex option \<times> relay_call list) list" where
  "demo_threads =
     (let sinks = \<lambda>i. demo_player i False []
      in [(Some MainThread, [CallRtpData ''/cam'' demo_played sinks ''rtp'', CallRemoveStream ''/cam'' None demo_played]),
          (None, [CallClosed demo_played (sk_session (sinks 7)), CallTakeTasks 1])])"

lemma demo_threads_made: "list_all (\<lambda>(tok, calls). list_all (call_made tok) calls) demo_threads"
  by code_simp

text \<open>
  After some steps the second thread waits for the sinks that the first sends to.
\<close>

definition demo_sched :: "nat list" where
  "demo_sched = [0, 0, 0, 0, 0, 1, 1, 1, 1, 0, 0, 0, 0]"

lemma demo_waits:
  obtains st where "lock_run demo_sched (threads_of call_locks demo_threads) = Some st" "\<not> all_done st" "lock_step 1 st = None"
proof -
  have "case lock_run demo_sched (threads_of call_locks demo_threads) of None \<Rightarrow> False
    | Some st \<Rightarrow> \<not> all_done st \<and> lock_step 1 st = None"
    by code_simp
  then show thesis using that by (auto split: option.splits)
qed

theorem relay_no_deadlock_witness:
  "\<exists>st rest st'. lock_run demo_sched (threads_of call_locks demo_threads) = Some st \<and> \<not> all_done st \<and> lock_step 1 st = None \<and>
    lock_run (demo_sched @ rest) (threads_of call_locks demo_threads) = Some st' \<and> all_done st'"
proof -
  obtain st where st: "lock_run demo_sched (threads_of call_locks demo_threads) = Some st" "\<not> all_done st" "lock_step 1 st = None"
    by (rule demo_waits)
  with relay_no_deadlock [OF demo_threads_made st(1)] show ?thesis by blast
qed

theorem relay_no_data_race_witness:
  "\<exists>st. lock_run demo_sched (threads_of call_locks demo_threads) = Some st \<and> \<not> all_done st \<and>
    \<not> racing (SinksVar ''/cam'') st"
proof -
  obtain st where st: "lock_run demo_sched (threads_of call_locks demo_threads) = Some st" "\<not> all_done st"
    by (rule demo_waits)
  with relay_no_data_race [OF demo_threads_made st(1)] show ?thesis by blast
qed

section \<open>Variables without a mutex\<close>

text \<open>
  C18. Two data races: while the main loop handles the upstream's answer to DESCRIBE, a player's
  DESCRIBE on an IO loop can copy the description of the stream in the middle of its assignment,
  although it holds \<open>streams_mutex_\<close>; and while the main loop sends a packet to a session, a request
  of the player on its IO loop can change that session.
\<close>

theorem describe_and_setup_race:
  assumes "rm_find m path = Some rel" and "src_state s = SrcDescribe" and "msg_status_code resp = 200"
    and "rel_sinks rel = i # is" and "ses_id (sk_session (sinks i)) = j"
  shows "(\<exists>sched st. lock_run sched (threads_of call_locks
        [(Some MainThread, [CallSourceResponse path s resp c]), (None, [CallStreamSdp path m])]) = Some st \<and>
      racing (SdpVar path) st) \<and>
    (\<exists>sched st. lock_run sched (threads_of call_locks
        [(Some MainThread, [CallRtpData path m sinks data]), (None, [CallSessionUpdate j])]) = Some st \<and>
      racing (SessionVar j) st)"
proof (intro conjI)
  let ?progs = "[(Some MainThread, [CallSourceResponse path s resp c]), (None, [CallStreamSdp path m])]"
  have "\<exists>st. lock_run [0, 0, 1, 1] (threads_of call_locks ?progs) = Some st \<and> racing (SdpVar path) st"
    using assms(1-3)
    by (auto simp: threads_of_def thread_of_def source_response_locks_def get_stream_sdp_locks_def holding_def lock_step_def
        racing_two)
  then show "\<exists>sched st. lock_run sched (threads_of call_locks ?progs) = Some st \<and> racing (SdpVar path) st" by blast
next
  let ?progs = "[(Some MainThread, [CallRtpData path m sinks data]), (None, [CallSessionUpdate j])]"
  have "\<exists>st. lock_run [0, 0, 0, 0, 0, 0, 1] (threads_of call_locks ?progs) = Some st \<and> racing (SessionVar j) st"
    using assms(1,4,5)
    by (auto simp: threads_of_def thread_of_def fan_out_locks_def sink_locks_def session_update_locks_def holding_def
        lock_step_def racing_two Let_def)
  then show "\<exists>sched st. lock_run sched (threads_of call_locks ?progs) = Some st \<and> racing (SessionVar j) st" by blast
qed

theorem describe_and_setup_race_witness:
  "\<exists>sched st. lock_run sched (threads_of call_locks
      [(Some MainThread, [CallSourceResponse ''/cam'' (demo_source SrcDescribe) (response_new 200 ''OK'' 2) (sk_conn (demo_player 1 True []))]),
       (None, [CallStreamSdp ''/cam'' demo_played])]) = Some st \<and> racing (SdpVar ''/cam'') st"
proof -
  have "case rm_find demo_played ''/cam'' of None \<Rightarrow> False | Some rel \<Rightarrow> rel_sinks rel = [7, 8]" by code_simp
  then obtain rel where "rm_find demo_played ''/cam'' = Some rel" "rel_sinks rel = [7, 8]"
    by (auto split: option.splits)
  from describe_and_setup_race [OF this(1) _ _ this(2), of "demo_source SrcDescribe" "response_new 200 ''OK'' 2"
      "\<lambda>i. demo_player i False []" 7 "sk_conn (demo_player 1 True [])" "''rtp''"]
  show ?thesis by (simp add: demo_source_def response_new_def demo_player_def session_new_def)
qed

section \<open>A player on the thread of the source\<close>

text \<open>The connection of a sink is lost while the packet is sent to it.\<close>

definition sink_fails :: "bytes \<Rightarrow> lock_sink \<Rightarrow> bool" where
  "sink_fails data v \<longleftrightarrow>
     (let s = sk_session v; c = sk_conn v
      in ses_state s = SesPlaying \<and> ses_transport s \<noteq> Udp \<and> lc_in_thread c \<and>
         conn_connected (conn_of (lc_world c)) \<and>
         \<not> conn_connected (conn_of (lc_world (after_send data (after_send (sink_header data v) c)))))"

text \<open>What one send takes, with the sinks of the stream locked, in terms of its outcome.\<close>

lemma reenters_post: "TaskMutex loop \<notin> hs \<Longrightarrow> reenters hs (post_locks loop @ es) = reenters hs es"
  by (simp add: post_locks_def holding_def insert_Diff_if)

lemma reenters_send:
  assumes "OutputMutex (lc_id c) \<notin> hs" "TaskMutex (lc_loop c) \<notin> hs"
  shows "reenters hs (send_locks on_error data c @ es) =
    (if lc_in_thread c \<and> conn_connected (conn_of (lc_world c)) \<and> \<not> conn_connected (conn_of (lc_world (after_send data c)))
     then reenters hs (on_error @ es) else reenters hs es)"
proof -
  have keeps: "tc_state (conn_of (buffer_output d w)) = tc_state (conn_of w)" for d and w :: "unit conn_world"
    by (simp add: buffer_output_def enable_writing_def)
  have wr: "tc_state (conn_of (snd (sock_write d w))) = tc_state (conn_of w)" for d and w :: "unit conn_world"
    by (simp add: sock_write_def Let_def split: list.split write_result.split)
  have error: "tc_state (conn_of (handle_error w)) = ConnDisconnected" for w :: "unit conn_world"
    by (simp add: handle_error_def Let_def)
  show ?thesis
    using assms
    by (auto simp: send_locks_def send_in_loop_locks_def buffer_locks_def reenters_post after_send_def conn_send_def
        send_in_loop_def Let_def conn_connected_def keeps wr error split_beta holding_def insert_Diff_if
        split: write_result.split)
qed

lemma after_send_simps [simp]:
  "lc_in_thread (after_send data c) = lc_in_thread c" "lc_id (after_send data c) = lc_id c"
  "lc_loop (after_send data c) = lc_loop c"
  by (simp_all add: after_send_def)

lemma after_send_stays_down:
  "\<not> conn_connected (conn_of (lc_world c)) \<Longrightarrow> \<not> conn_connected (conn_of (lc_world (after_send data c)))"
  by (simp add: after_send_def conn_send_def conn_connected_def)

lemma reenters_close:
  assumes "rm_find m path \<noteq> None"
  shows "reenters {SinksMutex path, MainThread} (session_close_locks m s @ es) \<longleftrightarrow>
    ses_state s = SesPlaying \<and> ses_stream_path s = path \<and> path \<noteq> [] \<or> reenters {SinksMutex path, MainThread} es"
  using assms
  by (cases "ses_stream_path s = path") (auto simp: session_close_locks_def change_sinks_locks_def holding_def insert_Diff_if)

lemma reenters_sink:
  assumes "rm_find m path \<noteq> None"
  shows "reenters {SinksMutex path, MainThread} (sink_locks m data v @ es) \<longleftrightarrow>
    sink_fails data v \<and> ses_stream_path (sk_session v) = path \<and> path \<noteq> [] \<or> reenters {SinksMutex path, MainThread} es"
  using after_send_stays_down [of "after_send (sink_header data v) (sk_conn v)" data]
  by (auto simp: sink_locks_def sink_fails_def Let_def reenters_send reenters_close [OF assms])

lemma reenters_sinks:
  assumes "rm_find m path \<noteq> None"
  shows "reenters {SinksMutex path, MainThread} (concat (map (\<lambda>i. sink_locks m data (sinks i)) is)) \<longleftrightarrow>
    (\<exists>i \<in> set is. sink_fails data (sinks i) \<and> ses_stream_path (sk_session (sinks i)) = path \<and> path \<noteq> [])"
  by (induction "is") (auto simp: reenters_sink [OF assms])

text \<open>
  C17. Without IO threads the relay can lock itself up. A packet of a stream is sent to its players
  under \<open>sinks_mutex\<close>; the thread of the source, alone, returns from that exactly if no player of
  the stream whose connection runs on the same thread loses it during the send. Otherwise the
  error callback closes the session, which asks for the same mutex to remove itself: the thread waits
  for itself for ever, holding both mutexes.
\<close>

theorem fan_out_blocks_iff:
  assumes "rm_find m path = Some rel" and "path \<noteq> []"
  shows "\<exists>n ts own. lock_run (replicate n 0) (threads_of call_locks [(Some MainThread, [CallRtpData path m sinks data])]) = Some (ts, own) \<and>
    lock_step 0 (ts, own) = None \<and>
    (all_done (ts, own) \<longleftrightarrow>
      \<not> (\<exists>i \<in> set (rel_sinks rel). sink_fails data (sinks i) \<and> ses_stream_path (sk_session (sinks i)) = path))"
proof -
  let ?es = "thread_of call_locks (Some MainThread, [CallRtpData path m sinks data])"
  have "reenters {} ?es \<longleftrightarrow>
      (\<exists>i \<in> set (rel_sinks rel). sink_fails data (sinks i) \<and> ses_stream_path (sk_session (sinks i)) = path)"
    using assms by (simp add: thread_of_def fan_out_locks_def reenters_last reenters_sinks)
  with alone [of "\<lambda>_. None" "{}" ?es] obtain n ts own where
    r: "lock_run (replicate n 0) ([?es], \<lambda>_. None) = Some (ts, own)"
      "lock_step 0 (ts, own) = None" "length ts = 1" and
    fin: "ts = [[]] \<longleftrightarrow>
      \<not> (\<exists>i \<in> set (rel_sinks rel). sink_fails data (sinks i) \<and> ses_stream_path (sk_session (sinks i)) = path)"
    by auto
  have "all_done (ts, own) \<longleftrightarrow> ts = [[]]" using r(3) by (cases ts) (auto simp: all_done_def)
  with r fin show ?thesis
    by (intro exI [of _ n] exI [of _ ts] exI [of _ own]) (simp add: threads_of_def)
qed

theorem fan_out_blocks_iff_witness:
  "\<exists>n ts own. lock_run (replicate n 0)
      (threads_of call_locks [(Some MainThread, [CallRtpData ''/cam'' demo_played (\<lambda>i. demo_player i True (if i = 8 then [Wrote 4, WriteFailed] else [])) ''rtp''])]) =
        Some (ts, own) \<and> lock_step 0 (ts, own) = None \<and> \<not> all_done (ts, own)"
proof -
  let ?sinks = "\<lambda>i. demo_player i True (if i = 8 then [Wrote 4, WriteFailed] else [])"
  have "case rm_find demo_played ''/cam'' of None \<Rightarrow> False | Some rel \<Rightarrow> rel_sinks rel = [7, 8]" by code_simp
  then obtain rel where rel: "rm_find demo_played ''/cam'' = Some rel" "rel_sinks rel = [7, 8]"
    by (auto split: option.splits)
  have "sink_fails ''rtp'' (?sinks 8)" by code_simp
  moreover have "ses_stream_path (sk_session (?sinks 8)) = ''/cam''" by (simp add: demo_player_def)
  ultimately show ?thesis
    using fan_out_blocks_iff [OF rel(1), of ?sinks "''rtp''"] rel(2) by auto
qed

end
