(* ===== verification/Object_Lifetimes.thy ===== *)
theory Object_Lifetimes
  imports Session_Lifecycle Event_Loop_Kqueue Http_Api Tcp_Server
begin

text \<open>
  How the objects of the program begin and end, where that is not part of a component: the
  descriptors of an event loop, from its constructor to its destructor; the destructors of a session and
  of a source; and \<open>HttpServer\<close> as an object, from \<open>registerHttpRoutes\<close> to the table it serves
  from. Sources: \<open>event_loop.cpp\<close>, \<open>rtsp_session.cpp\<close>, \<open>rtsp_source.cpp\<close>, \<open>http_server.cpp\<close> and
  \<open>main.cpp\<close> under \<open>src/src/\<close>.
\<close>

section \<open>The descriptors of an event loop\<close>

text \<open>\<open>poll_fd_\<close> and \<open>wakeup_fds_\<close>. The constructor ends the process when it does not get them.\<close>

record loop_fds =
  lf_poll :: int
  lf_wakeup :: "int \<times> int"

definition loop_fds_open :: "int \<Rightarrow> int \<Rightarrow> cpp_error + loop_fds" where
  "loop_fds_open poll_fd efd =
     (if poll_fd < 0 then Inl Aborted
      else if efd < 0 then Inl Aborted
      else Inr \<lparr>lf_poll = poll_fd, lf_wakeup = (efd, efd)\<rparr>)"

text \<open>On macOS, where \<open>pipe\<close> gives two descriptors or fails.\<close>

definition kq_loop_fds_open :: "int \<Rightarrow> (int \<times> int) option \<Rightarrow> cpp_error + loop_fds" where
  "kq_loop_fds_open poll_fd pipe_fds =
     (if poll_fd < 0 then Inl Aborted
      else case pipe_fds of None \<Rightarrow> Inl Aborted | Some p \<Rightarrow> Inr \<lparr>lf_poll = poll_fd, lf_wakeup = p\<rparr>)"

text \<open>What the destructor closes, on Linux and on macOS.\<close>

definition loop_fds_close :: "loop_fds \<Rightarrow> int list" where
  "loop_fds_close l = lf_poll l # (if fst (lf_wakeup l) \<ge> 0 then [fst (lf_wakeup l)] else [])"

definition kq_loop_fds_close :: "loop_fds \<Rightarrow> int list" where
  "kq_loop_fds_close l = loop_fds_close l @
     (if snd (lf_wakeup l) \<ge> 0 \<and> snd (lf_wakeup l) \<noteq> fst (lf_wakeup l) then [snd (lf_wakeup l)] else [])"

text \<open>The descriptor that the loop watches is its own; every one is closed, and closed once.\<close>

lemma loop_fds_once:
  assumes "loop_fds_open poll_fd efd = Inr l"
  shows "event_loop_open poll_fd efd self = Inr (event_loop_new self (fst (lf_wakeup l)))"
    and "loop_fds_close l = [poll_fd, efd]"
  using assms by (auto simp: loop_fds_open_def event_loop_open_def loop_fds_close_def split: if_splits)

lemma kq_loop_fds_once:
  "kq_loop_fds_open poll_fd (Some (r, w)) = Inr l \<Longrightarrow> 0 \<le> r \<Longrightarrow> 0 \<le> w \<Longrightarrow> r \<noteq> w \<Longrightarrow>
    kq_loop_fds_close l = [poll_fd, r, w]"
  by (auto simp: kq_loop_fds_open_def kq_loop_fds_close_def loop_fds_close_def split: if_splits)

section \<open>The end of a session and of a source\<close>

definition session_destroy :: "session_env \<Rightarrow> session_env" where
  "session_destroy e = close_udp_sockets e"

definition source_destroy :: "src_run \<Rightarrow> src_run" where
  "source_destroy r = ((fst r)\<lparr>src_stopping := True\<rparr>, snd r)"

text \<open>
  After \<open>close\<close> the destructor of a session has nothing left to do; without \<open>close\<close> it closes the
  descriptors but leaves the session in the sink list.
\<close>

lemma session_destroy_closed:
  assumes "ses_state (env_ses e) \<noteq> SesTeardown"
  shows "session_destroy (session_close e) = session_close e"
proof -
  have "ses_udp_rtp_fd (env_ses (close_udp_sockets e)) < 0" "ses_udp_rtcp_fd (env_ses (close_udp_sockets e)) < 0"
    for e :: session_env
    by (auto simp: close_udp_sockets_def Let_def on_ses_def emit_def)
  then have twice: "close_udp_sockets (close_udp_sockets e) = close_udp_sockets e" for e :: session_env
    by (simp add: close_udp_sockets_def [of "close_udp_sockets e"] Let_def not_le)
  with assms show ?thesis
    by (simp add: session_destroy_def session_close_def Let_def)
qed

lemma session_destroy_registered: "registered (session_destroy e) path = registered e path"
  by (simp add: session_destroy_def registered_def frame_simps)

lemma session_destroy_fds: "fds_match e \<Longrightarrow> open_fds {} (env_out (session_destroy e)) = {}"
  by (metis session_destroy_def fds_match_close fds_match_def)

text \<open>The manager stops a source before it frees it; nothing happens then any more.\<close>

lemma source_destroy_stopped: "source_stop r = Inr r' \<Longrightarrow> source_destroy r' = r'"
  by (auto simp: source_stop_def source_destroy_def send_teardown_def src_conn_send_def src_next_cseq_def Let_def
      split: if_splits sum.splits option.splits)

section \<open>The HTTP server\<close>

record 's http_server =
  hs_tcp :: tcp_server
  hs_routes :: "'s http_route list"
  hs_default :: "'s http_handler option"

definition http_server_new :: "srv_closure event_loop \<Rightarrow> u16 \<Rightarrow> int \<Rightarrow> 's http_server" where
  "http_server_new el port backlog = \<lparr>hs_tcp = tcp_server_new el port backlog, hs_routes = [], hs_default = None\<rparr>"

definition hs_route :: "bytes \<Rightarrow> bytes \<Rightarrow> 's http_handler \<Rightarrow> 's http_server \<Rightarrow> 's http_server" where
  "hs_route meth path handler hs = hs\<lparr>hs_routes := add_route meth path handler (hs_routes hs)\<rparr>"

definition set_default_handler :: "'s http_handler \<Rightarrow> 's http_server \<Rightarrow> 's http_server" where
  "set_default_handler handler hs = hs\<lparr>hs_default := Some handler\<rparr>"

definition http_server_start :: "int \<Rightarrow> bool \<Rightarrow> bool \<Rightarrow> 's http_server \<Rightarrow> 's http_server option" where
  "http_server_start sock_fd bind_ok listen_ok hs =
     map_option (\<lambda>srv. hs\<lparr>hs_tcp := srv\<rparr>) (srv_start sock_fd bind_ok listen_ok (hs_tcp hs))"

definition register_http_routes :: "u16 \<Rightarrow> api_state http_server \<Rightarrow> api_state http_server" where
  "register_http_routes rtsp_port hs =
     (let hs = hs_route ''POST'' ''/api/streams'' (api_post rtsp_port) hs;
          hs = hs_route ''DELETE'' ''/api/streams'' api_delete hs;
          hs = hs_route ''GET'' ''/api/streams'' api_list hs;
          hs = hs_route ''GET'' ''/api/streams/'' api_get hs;
          hs = hs_route ''GET'' ''/api/stats'' api_stats hs
      in set_default_handler api_default hs)"

text \<open>
  What the server of \<open>main\<close> serves from, started or not: the handlers of the API, so that the
  theorems on \<open>api_serve\<close> hold for it.
\<close>

theorem registered_serves_api:
  assumes "http_server_start sock_fd bind_ok listen_ok (register_http_routes rtsp_port (http_server_new el port backlog)) = Some hs"
  shows "run_handler (hs_routes hs) (hs_default hs) = api_serve rtsp_port" and
    "hs_routes hs = api_routes rtsp_port" and "hs_default hs = Some api_default"
proof -
  show routes: "hs_routes hs = api_routes rtsp_port" "hs_default hs = Some api_default"
    using assms by (auto simp: http_server_start_def register_http_routes_def http_server_new_def hs_route_def
        set_default_handler_def api_routes_def Let_def)
  show "run_handler (hs_routes hs) (hs_default hs) = api_serve rtsp_port"
    by (simp add: routes api_serve_def fun_eq_iff)
qed

end
